(* ===== verification/Prelude.thy ===== *)
theory Prelude
  imports Complex_Main "HOL-Library.Word"
begin

text \<open>
  Shared base of the development: the machine types, statement sequencing for code that can
  stop early, arrays in memory, and the facts about machine words and lists that several
  components use.

  The target is the 32-bit ARM Linux of the Raspberry Pi the controller runs on:
  \<open>size_t\<close> and \<open>int\<close> have 32 bits, words are little-endian. A C \<open>int\<close> is an \<open>int\<close> here,
  with the range check written out wherever the code computes with it; unsigned types are
  words and wrap.
\<close>

section \<open>Machine types\<close>

type_synonym byte = "8 word"
type_synonym size_t = "32 word"
type_synonym timestamp_t = "64 word"

definition INT_MAX :: int where
  "INT_MAX = 2147483647"

definition INT_MIN :: int where
  "INT_MIN = -2147483648"

definition in_int :: "int \<Rightarrow> bool" where
  "in_int x \<longleftrightarrow> INT_MIN \<le> x \<and> x \<le> INT_MAX"

section \<open>Collections of facts\<close>

named_theorems wf_simps \<open>definitions of the well-formedness predicates\<close>
named_theorems step_defs \<open>definitions of the handlers, unfolded together\<close>

section \<open>Statements that may stop early\<close>

text \<open>
  A statement maps a state to the next one or stops with an error \<open>'e\<close>. \<open>exec\<close> runs a
  block in order, \<open>when_s\<close> is an if without else, \<open>if_s\<close> an if with else, \<open>assign\<close> a
  statement that cannot fail.
\<close>

fun exec :: "('s \<Rightarrow> 'e + 's) list \<Rightarrow> 's \<Rightarrow> 'e + 's" where
  "exec [] s = Inr s"
| "exec (c # cs) s = (case c s of Inl e \<Rightarrow> Inl e | Inr s' \<Rightarrow> exec cs s')"

definition when_s :: "('s \<Rightarrow> bool) \<Rightarrow> ('s \<Rightarrow> 'e + 's) list \<Rightarrow> 's \<Rightarrow> 'e + 's" where
  "when_s b cs s = (if b s then exec cs s else Inr s)"

definition if_s ::
    "('s \<Rightarrow> bool) \<Rightarrow> ('s \<Rightarrow> 'e + 's) list \<Rightarrow> ('s \<Rightarrow> 'e + 's) list \<Rightarrow> 's \<Rightarrow> 'e + 's" where
  "if_s b cs ds s = (if b s then exec cs s else exec ds s)"

definition assign :: "('s \<Rightarrow> 's) \<Rightarrow> 's \<Rightarrow> 'e + 's" where
  "assign f s = Inr (f s)"

lemmas stmt_simps = when_s_def if_s_def assign_def

lemma exec_append: "exec (cs @ ds) s = (case exec cs s of Inl e \<Rightarrow> Inl e | Inr s' \<Rightarrow> exec ds s')"
  by (induction cs arbitrary: s) (auto split: sum.splits)

lemma exec_Cons_Inr:
  "exec (c # cs) s = Inr t \<longleftrightarrow> (\<exists>u. c s = Inr u \<and> exec cs u = Inr t)"
  by (auto split: sum.splits)

text \<open>A block keeps what each of its statements keeps.\<close>

lemma exec_invariant:
  assumes "\<And>c s t. c \<in> set cs \<Longrightarrow> P s \<Longrightarrow> c s = Inr t \<Longrightarrow> P t"
    and "P s" and "exec cs s = Inr t"
  shows "P t"
  using assms
proof (induction cs arbitrary: s)
  case Nil
  then show ?case by simp
next
  case (Cons c cs)
  then obtain u where "c s = Inr u" and "exec cs u = Inr t"
    by (auto split: sum.splits)
  with Cons.prems(1,2) Cons.IH [of u] show ?case
    by (meson list.set_intros)
qed

text \<open>
  \<open>ensures P c Q\<close>: from every state with \<open>P\<close> the statement \<open>c\<close> returns, without an error, in a
  state with \<open>Q\<close>.
\<close>

definition ensures :: "('s \<Rightarrow> bool) \<Rightarrow> ('s \<Rightarrow> 'e + 's) \<Rightarrow> ('s \<Rightarrow> bool) \<Rightarrow> bool" where
  "ensures P c Q \<longleftrightarrow> (\<forall>s. P s \<longrightarrow> (\<exists>u. c s = Inr u \<and> Q u))"

named_theorems keeps \<open>what the statements of the program preserve\<close>

lemma ensuresI: "(\<And>s. P s \<Longrightarrow> \<exists>u. c s = Inr u \<and> Q u) \<Longrightarrow> ensures P c Q"
  by (simp add: ensures_def)

lemma ensuresE:
  assumes "ensures P c Q" and "P s"
  obtains u where "c s = Inr u" and "Q u"
  using assms by (auto simp: ensures_def)

lemma ensures_conseq:
  "ensures P' c Q' \<Longrightarrow> (\<And>s. P s \<Longrightarrow> P' s) \<Longrightarrow> (\<And>s. Q' s \<Longrightarrow> Q s) \<Longrightarrow> ensures P c Q"
  by (fastforce simp: ensures_def)

lemma ensures_Nil: "(\<And>s. P s \<Longrightarrow> Q s) \<Longrightarrow> ensures P (exec []) Q"
  by (simp add: ensures_def)

lemma ensures_Cons: "ensures P c R \<Longrightarrow> ensures R (exec cs) Q \<Longrightarrow> ensures P (exec (c # cs)) Q"
  by (fastforce simp: ensures_def)

lemma ensures_append:
  "ensures P (exec cs) R \<Longrightarrow> ensures R (exec ds) Q \<Longrightarrow> ensures P (exec (cs @ ds)) Q"
  by (fastforce simp: ensures_def exec_append)

lemma ensures_when:
  "ensures (\<lambda>s. P s \<and> b s) (exec cs) Q \<Longrightarrow> (\<And>s. P s \<Longrightarrow> \<not> b s \<Longrightarrow> Q s) \<Longrightarrow> ensures P (when_s b cs) Q"
  by (simp add: ensures_def when_s_def)

lemma ensures_assign: "(\<And>s. P s \<Longrightarrow> Q (f s)) \<Longrightarrow> ensures P (assign f) Q"
  by (simp add: ensures_def assign_def)

lemma keeps_Nil: "ensures P (exec []) P"
  by (rule ensures_Nil)

lemma keeps_Cons: "ensures P c P \<Longrightarrow> ensures P (exec cs) P \<Longrightarrow> ensures P (exec (c # cs)) P"
  by (rule ensures_Cons)

lemma keeps_when: "ensures P (exec cs) P \<Longrightarrow> ensures P (when_s b cs) P"
  by (auto simp: ensures_def when_s_def)

lemma keeps_if: "ensures P (exec cs) P \<Longrightarrow> ensures P (exec ds) P \<Longrightarrow> ensures P (if_s b cs ds) P"
  by (auto simp: ensures_def if_s_def)

lemmas keeps_rules = keeps_Nil keeps_Cons keeps_when keeps_if

text \<open>\<open>preserves f c\<close>: when \<open>c\<close> returns, the part \<open>f\<close> of the state is as before.\<close>

definition preserves :: "('s \<Rightarrow> 'a) \<Rightarrow> ('s \<Rightarrow> 'e + 's) \<Rightarrow> bool" where
  "preserves f c \<longleftrightarrow> (\<forall>s u. c s = Inr u \<longrightarrow> f u = f s)"

named_theorems untouched \<open>what the statements of the program leave alone\<close>

lemma preservesD: "preserves f c \<Longrightarrow> c s = Inr u \<Longrightarrow> f u = f s"
  by (simp add: preserves_def)

lemma preserves_Nil: "preserves f (exec [])"
  by (simp add: preserves_def)

lemma preserves_Cons: "preserves f c \<Longrightarrow> preserves f (exec cs) \<Longrightarrow> preserves f (exec (c # cs))"
  by (auto simp: preserves_def split: sum.splits)

lemma preserves_when: "preserves f (exec cs) \<Longrightarrow> preserves f (when_s b cs)"
  by (auto simp: preserves_def when_s_def split: if_splits)

lemma preserves_if: "preserves f (exec cs) \<Longrightarrow> preserves f (exec ds) \<Longrightarrow> preserves f (if_s b cs ds)"
  by (auto simp: preserves_def if_s_def split: if_splits)

lemmas preserves_rules = preserves_Nil preserves_Cons preserves_when preserves_if

lemma keeps_preserved:
  assumes "ensures P c P" and "preserves f c" and "\<And>s. Q s \<longleftrightarrow> P s \<and> R (f s)"
  shows "ensures Q c Q"
  using assms by (fastforce simp: ensures_def preserves_def)

section \<open>Arrays in memory\<close>

text \<open>
  An allocated array is the list of its bytes. \<open>overwrite\<close> stores bytes at an offset,
  \<open>slice\<close> reads them back; the operations that use them check the range first.
\<close>

definition overwrite :: "nat \<Rightarrow> 'a list \<Rightarrow> 'a list \<Rightarrow> 'a list" where
  "overwrite k bs xs = take k xs @ bs @ drop (k + length bs) xs"

definition slice :: "nat \<Rightarrow> nat \<Rightarrow> 'a list \<Rightarrow> 'a list" where
  "slice k n xs = take n (drop k xs)"

lemma length_overwrite [simp]:
  "k + length bs \<le> length xs \<Longrightarrow> length (overwrite k bs xs) = length xs"
  by (simp add: overwrite_def)

lemma nth_overwrite:
  assumes "k + length bs \<le> length xs" and "i < length xs"
  shows "overwrite k bs xs ! i = (if k \<le> i \<and> i < k + length bs then bs ! (i - k) else xs ! i)"
  using assms by (auto simp: overwrite_def nth_append)

lemma overwrite_Nil [simp]: "overwrite k [] xs = xs"
  by (simp add: overwrite_def)

lemma length_slice [simp]: "k + n \<le> length xs \<Longrightarrow> length (slice k n xs) = n"
  by (simp add: slice_def)

lemma length_slice_le: "length (slice k n xs) \<le> n"
  by (simp add: slice_def)

lemma nth_slice [simp]: "i < n \<Longrightarrow> k + n \<le> length xs \<Longrightarrow> slice k n xs ! i = xs ! (k + i)"
  by (simp add: slice_def)

lemma slice_0 [simp]: "slice k 0 xs = []"
  by (simp add: slice_def)

lemma take_slice: "m \<le> n \<Longrightarrow> take m (slice k n xs) = slice k m xs"
  by (simp add: slice_def min_absorb1)

lemma slice_append: "slice k m xs @ slice (k + m) n xs = slice k (m + n) xs"
  by (simp add: slice_def take_add add.commute)

text \<open>A bounded quantifier, as a list that evaluates.\<close>

lemma all_less_upt: "(\<forall>i < n. P i) \<longleftrightarrow> list_all P [0..<n]"
  by (auto simp: list_all_iff)

section \<open>Machine words\<close>

lemma unat_size_less: "unat (x :: size_t) < 4294967296"
  using unsigned_less [of x] by simp

lemma unat_add_no_wrap:
  "unat x + unat y < 2 ^ LENGTH('a) \<Longrightarrow> unat (x + y) = unat x + unat (y :: 'a::len word)"
  by (simp add: unat_word_ariths)

lemma unat_sub_le: "y \<le> x \<Longrightarrow> unat (x - y) = unat x - unat (y :: 'a::len word)"
  by (rule unat_sub)

lemma unat_of_nat_small:
  "n < 2 ^ LENGTH('a) \<Longrightarrow> unat (of_nat n :: 'a::len word) = n"
  by (simp add: unat_of_nat take_bit_nat_eq_self)

lemma unat_ucast_up:
  assumes "LENGTH('b) \<le> LENGTH('c)"
  shows "unat (ucast (w :: 'b::len word) :: 'c::len word) = unat w"
proof -
  have "unat w < 2 ^ LENGTH('c)"
    using unsigned_less [of w] assms by (meson less_le_trans one_le_numeral power_increasing)
  then show ?thesis by (simp add: unsigned_ucast_eq take_bit_nat_eq_self)
qed

lemma unat_sub_mod:
  assumes "0 < unat (m :: 'a::len word)"
  shows "unat (m - x mod m) = unat m - unat x mod unat m"
    and "unat x mod unat m < unat m" and "0 < unat (m - x mod m)"
proof -
  show *: "unat x mod unat m < unat m" using assms by simp
  have "x mod m \<le> m"
    using * by (simp add: word_le_nat_alt unat_mod)
  then show "unat (m - x mod m) = unat m - unat x mod unat m"
    by (simp add: unat_sub_le unat_mod)
  with * show "0 < unat (m - x mod m)" by simp
qed

section \<open>Positions in a ring\<close>

text \<open>
  Stepping \<open>k\<close> places from position \<open>i\<close> of a ring of \<open>m\<close> cells without passing its end.
\<close>

lemma mod_add_no_wrap: "i mod m + k < m \<Longrightarrow> (i + k) mod m = i mod m + (k :: nat)"
  by (metis mod_add_left_eq mod_less)

lemma mod_eq_close:
  assumes "i mod m = j mod m" and "i \<le> j" and "j < i + (m :: nat)"
  shows "i = j"
proof -
  have "m dvd j - i" using assms(1,2) by (metis mod_eq_dvd_iff_nat)
  with assms(2,3) show ?thesis by (auto dest: dvd_imp_le)
qed

end
