(* ===== verification/Platform.thy ===== *)
theory Platform
  imports Prelude
begin

text \<open>
  What lies outside the program: the bcm2835 GPIO and SPI library, the clock, files and
  sockets. The program talks to it through calls, and every call is an \<open>event\<close> of the trace.
  The answers come from an \<open>env\<close>, a parameter of the model: each answer may depend on the
  whole trace so far, so a theorem for every \<open>env\<close> covers every behaviour of the outside.
  The wrappers build in what POSIX and the bcm2835 library document of the calls: \<open>write\<close>
  accepts at most the bytes it is given, \<open>read\<close> returns at most the bytes asked for, \<open>poll\<close>
  reports no event on a negative descriptor, and an SPI transfer fills the whole read buffer.
  Three fields are the compiler's: \<open>char_signed\<close>, the rounding of the floating types, and
  \<open>missing_return\<close>, what a call of a non-void function yields that runs off its end: C++ leaves
  that undefined (\<open>None\<close>), unoptimised code returns some value (\<open>Some v\<close>).
\<close>

section \<open>The hardware's vocabulary\<close>

datatype RPiGPIOPin =
    GPIO_0 \<comment> \<open>the zero a value-initialised pin holds\<close>
  | RPI_V2_GPIO_P1_11
  | RPI_V2_GPIO_P1_13
  | RPI_V2_GPIO_P1_15
  | RPI_V2_GPIO_P1_16
  | RPI_V2_GPIO_P1_22
  | RPI_V2_GPIO_P1_24
  | RPI_V2_GPIO_P1_26

datatype gpio_level = LOW | HIGH

datatype spi_cs = BCM2835_SPI_CS0 | BCM2835_SPI_CS1 | BCM2835_SPI_CS_NONE

datatype spi_setting =
    Spi_bit_order_msbfirst
  | Spi_data_mode3
  | Spi_clock_divider_1024
  | Spi_chip_select_polarity spi_cs gpio_level

record timeval =
  tv_sec :: "32 word"
  tv_usec :: "32 word"

datatype sock_type = SOCK_STREAM | SOCK_DGRAM

record sockaddr_in =
  sin_port :: "16 word"
  sin_addr :: "32 word"

datatype sock_call =
    Socket sock_type
  | Setsockopt_reuseaddr int
  | Bind int "16 word"
  | Listen int int
  | Accept int
  | Connect int "16 word"
  | Sendto int "byte list" sockaddr_in

section \<open>Events, the environment and errors\<close>

datatype event =
    Gpio_fsel_outp RPiGPIOPin
  | Gpio_write RPiGPIOPin gpio_level
  | Bcm_init bool
  | Spi_begin bool
  | Spi_chipSelect spi_cs
  | Spi_set spi_setting
  | Spi_transfernb "byte list" "byte list"
  | Clock timeval
  | Sys_write int "byte list" int
  | Sys_open string int
  | Sys_close int
  | Sys_poll int int "16 word"
  | Sys_read int "byte list" int
  | Sys_sock sock_call int
  | Sys_recvfrom int "byte list" int
  | Sys_select int
  | Scanf "byte list option"
  | Stderr string

record env =
  env_time :: "event list \<Rightarrow> timeval"
  env_spi :: "event list \<Rightarrow> byte list \<Rightarrow> nat \<Rightarrow> byte"
  env_write :: "event list \<Rightarrow> int \<Rightarrow> byte list \<Rightarrow> nat option"
  env_open :: "event list \<Rightarrow> string \<Rightarrow> int"
  env_poll :: "event list \<Rightarrow> int \<Rightarrow> int \<times> 16 word"
  env_read :: "event list \<Rightarrow> int \<Rightarrow> nat \<Rightarrow> byte list option"
  env_sock :: "event list \<Rightarrow> sock_call \<Rightarrow> int"
  env_bcm :: "event list \<Rightarrow> bool"
  env_atexit :: int
  missing_return :: "int option"
  char_signed :: bool
  rnd_float :: "rat \<Rightarrow> rat"
  rnd_double :: "rat \<Rightarrow> rat"

text \<open>
  How a run can stop: an uncaught \<open>std::out_of_range\<close>, undefined behaviour (a bad memory
  access, a division by zero, a missing return value, signed overflow), \<open>exit\<close> with its
  status and what was done before it, or a signal that kills the process, with what was done before it.
\<close>

datatype error = Out_of_range | Undefined | Exit int "event list" | Killed "event list"

section \<open>Calls\<close>

definition gpio_write :: "RPiGPIOPin \<Rightarrow> gpio_level \<Rightarrow> event list \<Rightarrow> event list" where
  "gpio_write p v tr = tr @ [Gpio_write p v]"

definition sys_write :: "env \<Rightarrow> int \<Rightarrow> byte list \<Rightarrow> event list \<Rightarrow> int \<times> event list" where
  "sys_write E fd bs tr =
     (case env_write E tr fd bs of
        None \<Rightarrow> (-1, tr @ [Sys_write fd [] (-1)])
      | Some k \<Rightarrow> (let m = min k (length bs) in (int m, tr @ [Sys_write fd (take m bs) (int m)])))"

text \<open>
  A \<open>write\<close> to a socket that the other side has closed does not only fail: it raises \<open>SIGPIPE\<close>, which the program
  neither handles nor masks, and which kills the process there and then. Whether a failing write is such a one is up to
  the environment, so both ways are in the model: the call returns -1 and the program goes on, and every failing write
  on an open descriptor is a point where a run may end. These are the traces up to those points.
\<close>

definition broken_write :: "event \<Rightarrow> bool" where
  "broken_write e = (case e of Sys_write fd bs r \<Rightarrow> 0 \<le> fd \<and> r = -1 | _ \<Rightarrow> False)"

definition sigpipe_points :: "event list \<Rightarrow> event list \<Rightarrow> event list list" where
  "sigpipe_points tr tr' =
     map (\<lambda>i. take (Suc i) tr') (filter (\<lambda>i. broken_write (tr' ! i)) [length tr..<length tr'])"

definition sys_open :: "env \<Rightarrow> string \<Rightarrow> event list \<Rightarrow> int \<times> event list" where
  "sys_open E f tr = (let fd = env_open E tr f in (fd, tr @ [Sys_open f fd]))"

definition sys_close :: "int \<Rightarrow> event list \<Rightarrow> event list" where
  "sys_close fd tr = tr @ [Sys_close fd]"

definition sys_poll :: "env \<Rightarrow> int \<Rightarrow> event list \<Rightarrow> int \<times> 16 word \<times> event list" where
  "sys_poll E fd tr =
     (let (r, ev) = env_poll E tr fd; ev = (if fd < 0 then 0 else ev)
      in (r, ev, tr @ [Sys_poll fd r ev]))"

definition sys_read :: "env \<Rightarrow> int \<Rightarrow> nat \<Rightarrow> event list \<Rightarrow> int \<times> byte list \<times> event list" where
  "sys_read E fd n tr =
     (case env_read E tr fd n of
        None \<Rightarrow> (-1, [], tr @ [Sys_read fd [] (-1)])
      | Some bs \<Rightarrow> (let bs = take n bs; r = int (length bs) in (r, bs, tr @ [Sys_read fd bs r])))"

definition sys_sock :: "env \<Rightarrow> sock_call \<Rightarrow> event list \<Rightarrow> int \<times> event list" where
  "sys_sock E c tr = (let r = env_sock E tr c in (r, tr @ [Sys_sock c r]))"

definition spi_transfernb :: "env \<Rightarrow> byte list \<Rightarrow> event list \<Rightarrow> byte list \<times> event list" where
  "spi_transfernb E bs tr =
     (let r = map (env_spi E tr bs) [0..<length bs] in (r, tr @ [Spi_transfernb bs r]))"

definition gettimeofday :: "env \<Rightarrow> event list \<Rightarrow> timeval \<times> event list" where
  "gettimeofday E tr = (let tv = env_time E tr in (tv, tr @ [Clock tv]))"

section \<open>What a trace shows\<close>

text \<open>The level last driven on a pin, if any.\<close>

definition pin_level :: "event list \<Rightarrow> RPiGPIOPin \<Rightarrow> gpio_level option" where
  "pin_level tr p =
     fold (\<lambda>e l. case e of Gpio_write q v \<Rightarrow> (if q = p then Some v else l) | _ \<Rightarrow> l) tr None"

text \<open>The bytes a descriptor has accepted, in order.\<close>

definition fd_bytes :: "event list \<Rightarrow> int \<Rightarrow> byte list" where
  "fd_bytes tr fd =
     concat (map (\<lambda>e. case e of Sys_write f bs r \<Rightarrow> (if f = fd then bs else []) | _ \<Rightarrow> []) tr)"

lemma pin_level_Nil [simp]: "pin_level [] p = None"
  by (simp add: pin_level_def)

lemma pin_level_snoc:
  "pin_level (tr @ [e]) p =
     (case e of Gpio_write q v \<Rightarrow> if q = p then Some v else pin_level tr p | _ \<Rightarrow> pin_level tr p)"
  by (cases e) (simp_all add: pin_level_def)

text \<open>The trace functions read a trace from its end.\<close>

definition is_gpio_write :: "event \<Rightarrow> bool" where
  "is_gpio_write e = (case e of Gpio_write q v \<Rightarrow> True | _ \<Rightarrow> False)"

lemma is_gpio_write_simps [simp]:
  "is_gpio_write (Gpio_write q v)"
  "\<not> is_gpio_write (Gpio_fsel_outp q)" "\<not> is_gpio_write (Bcm_init ok)"
  "\<not> is_gpio_write (Spi_begin ok)" "\<not> is_gpio_write (Spi_chipSelect c)"
  "\<not> is_gpio_write (Spi_set x)" "\<not> is_gpio_write (Spi_transfernb bs rs)"
  "\<not> is_gpio_write (Clock tv)" "\<not> is_gpio_write (Sys_write fd bs r)"
  "\<not> is_gpio_write (Sys_open f r)" "\<not> is_gpio_write (Sys_close fd)"
  "\<not> is_gpio_write (Sys_poll fd r ev)" "\<not> is_gpio_write (Sys_read fd bs r)"
  "\<not> is_gpio_write (Sys_sock k r)" "\<not> is_gpio_write (Stderr m)"
  "\<not> is_gpio_write (Sys_recvfrom fd bs r)" "\<not> is_gpio_write (Sys_select r)" "\<not> is_gpio_write (Scanf w)"
  by (simp_all add: is_gpio_write_def)

lemma pin_level_write [simp]:
  "pin_level (gpio_write q v tr) p = (if q = p then Some v else pin_level tr p)"
  by (simp add: gpio_write_def pin_level_snoc)

lemma pin_level_other [simp]:
  "\<not> is_gpio_write e \<Longrightarrow> pin_level (tr @ [e]) p = pin_level tr p"
  by (simp add: pin_level_snoc is_gpio_write_def split: event.splits)

lemma pin_level_append:
  "pin_level (tr @ us) p = (case pin_level us p of None \<Rightarrow> pin_level tr p | Some v \<Rightarrow> Some v)"
proof (induction us rule: rev_induct)
  case Nil
  then show ?case by simp
next
  case (snoc e us)
  then show ?case
    by (simp add: append_assoc [symmetric] pin_level_snoc del: append_assoc
      split: event.splits option.splits)
qed

lemma fd_bytes_Nil [simp]: "fd_bytes [] fd = []"
  by (simp add: fd_bytes_def)

lemma fd_bytes_append [simp]: "fd_bytes (tr @ us) fd = fd_bytes tr fd @ fd_bytes us fd"
  by (simp add: fd_bytes_def)

lemma fd_bytes_one:
  "fd_bytes [e] fd = (case e of Sys_write f bs r \<Rightarrow> if f = fd then bs else [] | _ \<Rightarrow> [])"
  by (cases e) (simp_all add: fd_bytes_def)

lemma fd_bytes_Cons [simp]:
  "fd_bytes (e # us) fd =
     (case e of Sys_write f bs r \<Rightarrow> if f = fd then bs else [] | _ \<Rightarrow> []) @ fd_bytes us fd"
  by (simp add: fd_bytes_def)

text \<open>The bytes read, from any descriptor, in order.\<close>

definition received :: "event list \<Rightarrow> byte list" where
  "received tr = concat (map (\<lambda>e. case e of Sys_read fd bs r \<Rightarrow> bs | _ \<Rightarrow> []) tr)"

lemma received_append [simp]: "received (tr @ us) = received tr @ received us"
  by (simp add: received_def)

lemma received_simps [simp]:
  "received [] = []" "received (e # es) = (case e of Sys_read fd bs r \<Rightarrow> bs | _ \<Rightarrow> []) @ received es"
  by (simp_all add: received_def)

text \<open>A call only adds to the trace; all but reading and the GPIO leave pins and input alone.\<close>

definition quiet_event :: "event \<Rightarrow> bool" where
  "quiet_event e = (case e of Gpio_write q v \<Rightarrow> False | Sys_read fd bs r \<Rightarrow> False | _ \<Rightarrow> True)"

lemma quiet_event_simps [simp]:
  "quiet_event (Gpio_fsel_outp q)" "quiet_event (Bcm_init ok)" "quiet_event (Spi_begin ok)"
  "quiet_event (Spi_chipSelect c)" "quiet_event (Spi_set x)" "quiet_event (Spi_transfernb bs rs)"
  "quiet_event (Clock tv)" "quiet_event (Sys_write fd bs r)" "quiet_event (Sys_open f r)"
  "quiet_event (Sys_close fd)" "quiet_event (Sys_poll fd r ev)" "quiet_event (Sys_sock k r)"
  "quiet_event (Stderr m)" "quiet_event (Sys_recvfrom fd bs r)" "quiet_event (Sys_select r)" "quiet_event (Scanf w)"
  by (simp_all add: quiet_event_def)

lemma quiet_event_pins: "quiet_event e \<Longrightarrow> \<not> is_gpio_write e"
  by (simp add: quiet_event_def is_gpio_write_def split: event.splits)

definition quiet_after :: "event list \<Rightarrow> event list \<Rightarrow> bool" where
  "quiet_after tr tr' \<longleftrightarrow> (\<exists>us. tr' = tr @ us \<and> (\<forall>e \<in> set us. quiet_event e))"

lemma quiet_after_refl [simp, intro]: "quiet_after tr tr"
  by (simp add: quiet_after_def)

lemma quiet_after_trans [trans]: "quiet_after a b \<Longrightarrow> quiet_after b c \<Longrightarrow> quiet_after a c"
  unfolding quiet_after_def by force

lemma quiet_after_snoc [simp, intro]: "quiet_event e \<Longrightarrow> quiet_after tr (tr @ [e])"
  by (simp add: quiet_after_def)

lemma quiet_after_snocI [intro]:
  "quiet_after tr us \<Longrightarrow> quiet_event e \<Longrightarrow> quiet_after tr (us @ [e])"
  by (blast intro: quiet_after_trans)

lemma quiet_after_pin_level:
  assumes "quiet_after tr tr'"
  shows "pin_level tr' p = pin_level tr p"
proof -
  obtain us where tr': "tr' = tr @ us" and us: "\<forall>e \<in> set us. quiet_event e"
    using assms by (auto simp: quiet_after_def)
  from us have "pin_level (tr @ us) p = pin_level tr p"
    by (induction us rule: rev_induct)
      (simp_all add: append_assoc [symmetric] quiet_event_pins del: append_assoc)
  with tr' show ?thesis by simp
qed

lemma quiet_after_received: "quiet_after tr tr' \<Longrightarrow> received tr' = received tr"
  by (fastforce simp: quiet_after_def received_def quiet_event_def split: event.splits)

text \<open>Calls that drive no pin, reading included; what a signal cuts off such calls drives none either.\<close>

definition undriven_after :: "event list \<Rightarrow> event list \<Rightarrow> bool" where
  "undriven_after tr tr' \<longleftrightarrow> (\<exists>us. tr' = tr @ us \<and> (\<forall>e \<in> set us. \<not> is_gpio_write e))"

lemma undriven_after_refl [simp, intro]: "undriven_after tr tr"
  by (simp add: undriven_after_def)

lemma undriven_after_trans: "undriven_after a b \<Longrightarrow> undriven_after b c \<Longrightarrow> undriven_after a c"
  unfolding undriven_after_def by force

lemma undriven_after_quiet: "quiet_after tr tr' \<Longrightarrow> undriven_after tr tr'"
  unfolding quiet_after_def undriven_after_def using quiet_event_pins by blast

lemma undriven_after_snoc: "\<not> is_gpio_write e \<Longrightarrow> undriven_after tr (tr @ [e])"
  by (simp add: undriven_after_def)

lemma undriven_pin_level:
  assumes "undriven_after tr tr'"
  shows "pin_level tr' p = pin_level tr p"
proof -
  obtain us where tr': "tr' = tr @ us" and us: "\<forall>e \<in> set us. \<not> is_gpio_write e"
    using assms by (auto simp: undriven_after_def)
  from us have "pin_level (tr @ us) p = pin_level tr p"
    by (induction us rule: rev_induct) (simp_all add: append_assoc [symmetric] del: append_assoc)
  with tr' show ?thesis by simp
qed

lemma sigpipe_undriven:
  assumes "undriven_after tr tr'" and "d \<in> set (sigpipe_points tr tr')"
  shows "undriven_after tr d"
proof -
  obtain us where us: "tr' = tr @ us" "\<forall>e \<in> set us. \<not> is_gpio_write e"
    using assms(1) by (auto simp: undriven_after_def)
  then obtain k where "d = tr @ take k us"
    using assms(2) by (fastforce simp: sigpipe_points_def)
  with us(2) show ?thesis by (auto simp: undriven_after_def dest: in_set_takeD)
qed

lemma quiet_calls:
  "sys_write E fd bs tr = (r, tr') \<Longrightarrow> quiet_after tr tr'"
  "sys_open E f tr = (r, tr') \<Longrightarrow> quiet_after tr tr'"
  "quiet_after tr (sys_close fd tr)"
  "sys_poll E fd tr = (r, ev, tr') \<Longrightarrow> quiet_after tr tr'"
  "sys_sock E c tr = (r, tr') \<Longrightarrow> quiet_after tr tr'"
  "spi_transfernb E bs tr = (rs, tr') \<Longrightarrow> quiet_after tr tr'"
  "gettimeofday E tr = (tv, tr') \<Longrightarrow> quiet_after tr tr'"
  by (auto simp: sys_write_def sys_open_def sys_close_def sys_poll_def sys_sock_def
    spi_transfernb_def gettimeofday_def Let_def split: option.splits prod.splits)

lemma sys_read_trace:
  "sys_read E fd n tr = (r, bs, tr') \<Longrightarrow> tr' = tr @ [Sys_read fd bs r] \<and> length bs \<le> n
    \<and> (r = int (length bs) \<or> r = -1 \<and> bs = [])"
  by (auto simp: sys_read_def Let_def split: option.splits)

lemma sys_write_result:
  "sys_write E fd bs tr = (r, tr') \<Longrightarrow> -1 \<le> r \<and> r \<le> int (length bs)"
  by (auto simp: sys_write_def Let_def split: option.splits)

lemma sys_write_bytes:
  "sys_write E fd bs tr = (r, tr') \<Longrightarrow> fd_bytes tr' fd = fd_bytes tr fd @ take (nat r) bs"
  by (auto simp: sys_write_def Let_def fd_bytes_one split: option.splits)

section \<open>A sample environment\<close>

text \<open>
  One concrete environment for the witnesses: a clock that advances one second a call, an ADC
  that answers 0, writes that take at most two bytes, files that open, a peer that is there.
\<close>

definition sample_env :: env where
  "sample_env =
     \<lparr>env_time = (\<lambda>tr. \<lparr>tv_sec = of_nat (length tr), tv_usec = 0\<rparr>),
      env_spi = (\<lambda>tr bs i. 0),
      env_write = (\<lambda>tr fd bs. Some 2),
      env_open = (\<lambda>tr f. 3),
      env_poll = (\<lambda>tr fd. (1, 1)),
      env_read = (\<lambda>tr fd n. Some [5]),
      env_sock = (\<lambda>tr c. case c of Socket t \<Rightarrow> 4 | Accept fd \<Rightarrow> 5 | _ \<Rightarrow> 0),
      env_bcm = (\<lambda>tr. True),
      env_atexit = 0,
      missing_return = Some 0,
      char_signed = False,
      rnd_float = id,
      rnd_double = id\<rparr>"

end
