(* ===== verification/CircularBuffer.thy ===== *)
theory CircularBuffer
  imports Platform
begin

text \<open>
  \<open>src/util/circular_buffer.hpp\<close> and \<open>.cpp\<close>: a ring of \<open>nbytes\<close> bytes and the number of
  bytes ever written into it. The abstract view is the whole stream written so far: the ring
  holds its last \<open>nbytes\<close> bytes, byte \<open>i\<close> of the stream at position \<open>i mod nbytes\<close>.
\<close>

section \<open>State and operations\<close>

record circular_buffer =
  nbytes :: size_t
  bytes_written :: size_t
  data :: "byte list"

text \<open>\<open>new char[size]\<close> leaves the contents indeterminate: they are a parameter.\<close>

definition circular_buffer_new :: "size_t \<Rightarrow> (nat \<Rightarrow> byte) \<Rightarrow> circular_buffer" where
  "circular_buffer_new sz junk =
     \<lparr>nbytes = sz, bytes_written = 0, data = map junk [0..<unat sz]\<rparr>"

text \<open>\<open>memcpy\<close> into an allocated array: defined when the target range is inside it.\<close>

definition memcpy_to :: "byte list \<Rightarrow> nat \<Rightarrow> byte list \<Rightarrow> error + byte list" where
  "memcpy_to d k bs = (if k + length bs \<le> length d then Inr (overwrite k bs d) else Inl Undefined)"

definition memcpy_from :: "byte list \<Rightarrow> nat \<Rightarrow> nat \<Rightarrow> error + byte list" where
  "memcpy_from d k n = (if k + n \<le> length d then Inr (slice k n d) else Inl Undefined)"

text \<open>
  \<open>add_data(p, n)\<close>: the memory at \<open>p\<close> is the list, \<open>n\<close> its length. One chunk up to the end of
  the ring, then a recursive call for the rest; a modulo by a zero \<open>nbytes\<close> is undefined.
\<close>

function add_data :: "circular_buffer \<Rightarrow> byte list \<Rightarrow> error + circular_buffer" where
  "add_data b p =
     (if nbytes b = 0 then Inl Undefined
      else let bw = bytes_written b;
               to_add = nbytes b - bw mod nbytes b;
               k = (if length p < unat to_add then length p else unat to_add)
           in case memcpy_to (data b) (unat (bw mod nbytes b)) (take k p) of
                Inl e \<Rightarrow> Inl e
              | Inr d \<Rightarrow>
                  (let b' = b\<lparr>data := d, bytes_written := bw + of_nat k\<rparr>
                   in if length p - k \<noteq> 0 then add_data b' (drop k p) else Inr b'))"
  by pat_completeness auto
termination
proof (relation "measure (\<lambda>(b, p). length p)", goal_cases)
  case 1
  show ?case by simp
next
  case (2 b p bw to_add k d b')
  then have "0 < unat to_add"
    using unat_sub_mod(3) [of "nbytes b" bw] by (simp add: unat_gt_0)
  with 2 show ?case by (auto split: if_splits)
qed

text \<open>
  \<open>copy_data\<close>: \<open>dest\<close> is returned. The position is the raw \<open>offset\<close>, not reduced modulo
  \<open>nbytes\<close>; the overwritten-bytes test only prints.
\<close>

definition is_overwritten :: "circular_buffer \<Rightarrow> size_t \<Rightarrow> bool" where
  "is_overwritten b offset \<longleftrightarrow> sint offset < sint (bytes_written b - nbytes b)"

definition copy_data ::
    "circular_buffer \<Rightarrow> size_t \<Rightarrow> size_t \<Rightarrow> event list \<Rightarrow> error + (bool \<times> byte list \<times> event list)" where
  "copy_data b n offset tr =
     (if n = 0 then Inr (False, [], tr)
      else if n > nbytes b then Inr (False, [], tr @ [Stderr ''n is larger than buffer size''])
      else
        let tr = (if is_overwritten b offset
                  then tr @ [Stderr ''Bytes already overwritten before sending''] else tr);
            right_bytes = nbytes b - offset;
            right_copy = (if right_bytes \<ge> n then n else right_bytes)
        in case memcpy_from (data b) (unat offset) (unat right_copy) of
             Inl e \<Rightarrow> Inl e
           | Inr l \<Rightarrow>
               if right_copy = right_bytes then
                 (case memcpy_from (data b) 0 (unat (n - right_copy)) of
                    Inl e \<Rightarrow> Inl e
                  | Inr r \<Rightarrow> Inr (True, l @ r, tr))
               else Inr (True, l, tr))"

text \<open>A successful write of part of a chunk leaves fewer bytes to write.\<close>

lemma word_of_int_chunk:
  fixes n :: size_t
  assumes "0 < result" and "result \<le> int (unat n)"
  shows "unat (n - word_of_int result) = unat n - nat result"
    and "unat n - nat result < unat n" and "unat (word_of_int result :: size_t) = nat result"
proof -
  have "nat result < 4294967296"
    using assms unat_size_less [of n] by linarith
  then have r: "nat result < 2 ^ LENGTH(32)" by simp
  then have u: "unat (word_of_int result :: size_t) = nat result"
    using assms(1) unat_of_nat_small [of "nat result", where 'a = 32] by simp
  then show "unat (word_of_int result :: size_t) = nat result" .
  have "(word_of_int result :: size_t) \<le> n"
    using u assms by (simp add: word_le_nat_alt nat_le_iff)
  then show "unat (n - word_of_int result) = unat n - nat result"
    using u by (simp add: unat_sub_le)
  show "unat n - nat result < unat n" using assms by linarith
qed

lemma memcpy_from_length: "memcpy_from d k n = Inr bs \<Longrightarrow> length bs = n"
  by (auto simp: memcpy_from_def split: if_splits)

lemma write_data_decreases:
  fixes n m :: size_t
  assumes "memcpy_from d k (unat m) = Inr bs" and "sys_write E fd bs tr = (result, tr')"
    and "\<not> result \<le> 0" and "m \<le> n"
  shows "unat (n - word_of_int result) < unat n"
proof -
  have "unat m \<le> unat n"
    using assms(4) by (simp add: word_le_nat_alt)
  then have "result \<le> int (unat n)"
    using memcpy_from_length [OF assms(1)] sys_write_result [OF assms(2)] by linarith
  then show ?thesis
    using assms(3) word_of_int_chunk(1,2) [of result n] by (simp only: not_le)
qed

text \<open>
  \<open>write_data\<close>: repeated \<open>write\<close> calls until \<open>n\<close> bytes are out or a call returns 0 or less.
\<close>

function write_data ::
    "env \<Rightarrow> circular_buffer \<Rightarrow> int \<Rightarrow> size_t \<Rightarrow> size_t \<Rightarrow> event list \<Rightarrow> error + (int \<times> event list)" where
  "write_data E b fd n offset tr =
     (if n = 0 then Inr (0, tr)
      else if nbytes b = 0 then Inl Undefined
      else
        let tr = (if is_overwritten b offset
                  then tr @ [Stderr ''Bytes already overwritten before sending''] else tr);
            rest = nbytes b - offset mod nbytes b;
            to_send = (if rest > n then n else rest)
        in case memcpy_from (data b) (unat (offset mod nbytes b)) (unat to_send) of
             Inl e \<Rightarrow> Inl e
           | Inr bs \<Rightarrow>
               (case sys_write E fd bs tr of (result, tr') \<Rightarrow>
                  if result \<le> 0 then Inr (result, tr' @ [Stderr ''Error while writing.''])
                  else write_data E b fd (n - word_of_int result) (offset + word_of_int result) tr'))"
  by pat_completeness auto
termination
proof (relation "measure (\<lambda>(E, b, fd, n, offset, tr). unat n)", goal_cases)
  case 1
  show ?case by simp
next
  case 2
  then show ?case
    by simp (erule write_data_decreases, rule sym, assumption, auto split: if_splits)
qed

definition zero :: "circular_buffer \<Rightarrow> circular_buffer" where
  "zero b = b\<lparr>data := replicate (unat (nbytes b)) 0, bytes_written := 0\<rparr>"

declare add_data.simps [simp del] write_data.simps [simp del]

text \<open>
  One activation of \<open>write_data\<close> up to its recursive call: \<open>Inl r\<close> when it returns \<open>r\<close>, \<open>Inr\<close> with
  the arguments of the call otherwise.
\<close>

definition write_chunk ::
    "env \<Rightarrow> circular_buffer \<Rightarrow> int \<Rightarrow> size_t \<Rightarrow> size_t \<Rightarrow> event list
     \<Rightarrow> error + ((int + size_t \<times> size_t) \<times> event list)" where
  "write_chunk E b fd n offset tr =
     (if n = 0 then Inr (Inl 0, tr)
      else if nbytes b = 0 then Inl Undefined
      else
        let tr = (if is_overwritten b offset
                  then tr @ [Stderr ''Bytes already overwritten before sending''] else tr);
            rest = nbytes b - offset mod nbytes b;
            to_send = (if rest > n then n else rest)
        in case memcpy_from (data b) (unat (offset mod nbytes b)) (unat to_send) of
             Inl e \<Rightarrow> Inl e
           | Inr bs \<Rightarrow>
               (case sys_write E fd bs tr of (result, tr') \<Rightarrow>
                  if result \<le> 0 then Inr (Inl result, tr' @ [Stderr ''Error while writing.''])
                  else Inr (Inr (n - word_of_int result, offset + word_of_int result), tr')))"

text \<open>Without a writer the chunks are the whole call.\<close>

lemma write_data_chunk:
  "write_data E b fd n offset tr =
     (case write_chunk E b fd n offset tr of
        Inl e \<Rightarrow> Inl e
      | Inr (Inl r, tr') \<Rightarrow> Inr (r, tr')
      | Inr (Inr (n', offset'), tr') \<Rightarrow> write_data E b fd n' offset' tr')"
proof (cases "n = 0 \<or> nbytes b = 0")
  case True
  then show ?thesis by (subst write_data.simps) (auto simp: write_chunk_def)
next
  case False
  define tr1 where "tr1 = (if is_overwritten b offset
    then tr @ [Stderr ''Bytes already overwritten before sending''] else tr)"
  define rest where "rest = nbytes b - offset mod nbytes b"
  define m where "m = (if rest > n then n else rest)"
  obtain result tr2 where w: "sys_write E fd bs tr1 = (result bs, tr2 bs)" for bs by (meson surj_pair)
  show ?thesis
    using False
    by (subst write_data.simps)
      (simp add: write_chunk_def Let_def w split: sum.split flip: tr1_def rest_def m_def)
qed

section \<open>The ring as a window on the stream\<close>

definition cb_wf :: "circular_buffer \<Rightarrow> bool" where
  "cb_wf b \<longleftrightarrow> 0 < unat (nbytes b) \<and> length (data b) = unat (nbytes b)"

text \<open>
  \<open>holds b st\<close>: \<open>st\<close> is everything written since the last \<open>zero\<close>, \<open>bytes_written\<close> is its length
  modulo the width of \<open>size_t\<close>, and each of its last \<open>nbytes\<close> bytes is where the ring keeps it.
\<close>

definition holds :: "circular_buffer \<Rightarrow> byte list \<Rightarrow> bool" where
  "holds b st \<longleftrightarrow>
     cb_wf b \<and> unat (bytes_written b) = length st mod 4294967296 \<and>
     (\<forall>i < length st. length st \<le> i + unat (nbytes b) \<longrightarrow> data b ! (i mod unat (nbytes b)) = st ! i)"

text \<open>The counter may reach \<open>m\<close> bytes without breaking the order of the ring.\<close>

definition counter_ok :: "circular_buffer \<Rightarrow> nat \<Rightarrow> bool" where
  "counter_ok b m \<longleftrightarrow> m < 4294967296 \<or> unat (nbytes b) dvd 4294967296"

lemma counter_ok_mono: "counter_ok b m \<Longrightarrow> k \<le> m \<Longrightarrow> counter_ok b k"
  by (auto simp: counter_ok_def)

lemma counter_ok_pos:
  assumes "counter_ok b (length st)" and "holds b st"
  shows "unat (bytes_written b) mod unat (nbytes b) = length st mod unat (nbytes b)"
  using assms by (auto simp: counter_ok_def holds_def mod_mod_cancel)

lemma holds_new: "0 < unat sz \<Longrightarrow> holds (circular_buffer_new sz junk) []"
  by (simp add: holds_def cb_wf_def circular_buffer_new_def)

lemma holds_zero: "cb_wf b \<Longrightarrow> holds (zero b) []"
  by (simp add: holds_def cb_wf_def zero_def)

lemma add_chunk:
  assumes h: "holds b st" and ok: "counter_ok b (length st)"
    and fits: "length p \<le> unat (nbytes b) - length st mod unat (nbytes b)"
  shows "holds (b\<lparr>data := overwrite (length st mod unat (nbytes b)) p (data b),
                  bytes_written := bytes_written b + of_nat (length p)\<rparr>) (st @ p)"
proof -
  define N where "N = unat (nbytes b)"
  define pos where "pos = length st mod N"
  have N: "0 < N" "length (data b) = N"
    and bw: "unat (bytes_written b) = length st mod 4294967296"
    and old: "\<And>i. i < length st \<Longrightarrow> length st \<le> i + N \<Longrightarrow> data b ! (i mod N) = st ! i"
    using h by (auto simp: holds_def cb_wf_def N_def)
  have pos: "pos < N" using N by (simp add: pos_def)
  have fit: "pos + length p \<le> length (data b)"
    using fits pos N by (simp add: N_def pos_def)
  have cell: "overwrite pos p (data b) ! (i mod N) = (st @ p) ! i"
    if i: "i < length st + length p" "length st + length p \<le> i + N" for i
  proof (cases "i < length st")
    case True
    have "\<not> (pos \<le> i mod N \<and> i mod N < pos + length p)"
    proof
      assume in_chunk: "pos \<le> i mod N \<and> i mod N < pos + length p"
      define j where "j = i mod N - pos"
      have j: "j < length p" "i mod N = pos + j" using in_chunk by (auto simp: j_def)
      have "pos + j < N" using j(2) N(1) by (metis mod_less_divisor)
      then have "(length st + j) mod N = i mod N"
        using j(2) by (simp add: pos_def mod_add_no_wrap)
      then have "i = length st + j"
        using mod_eq_close [of i N "length st + j"] True j(1) i(2) by simp
      with True show False by simp
    qed
    moreover have "i mod N < length (data b)" using N by simp
    ultimately have "overwrite pos p (data b) ! (i mod N) = data b ! (i mod N)"
      using fit by (auto simp: nth_overwrite)
    also have "\<dots> = st ! i" using old [OF True] i(2) by simp
    finally show ?thesis using True by (simp add: nth_append)
  next
    case False
    define j where "j = i - length st"
    have j: "i = length st + j" "j < length p" using False i(1) by (auto simp: j_def)
    have "i mod N = pos + j"
      using j fit N by (simp add: pos_def mod_add_no_wrap)
    then show ?thesis
      using j fit N by (simp add: nth_overwrite nth_append)
  qed
  have "unat (bytes_written b + of_nat (length p)) = (length st + length p) mod 4294967296"
    using bw by (simp add: unat_word_ariths unat_of_nat mod_simps)
  with cell N fit show ?thesis
    by (simp add: holds_def cb_wf_def N_def pos_def)
qed

text \<open>
  \<open>add_data\<close> always returns and appends to the stream, in as many chunks as the wrap-arounds
  need, for any length, also when \<open>p\<close> is longer than the ring.
\<close>

lemma add_data_appends:
  assumes "holds b st" and "counter_ok b (length st + length p)"
  shows "\<exists>b'. add_data b p = Inr b' \<and> holds b' (st @ p) \<and> nbytes b' = nbytes b"
  using assms
proof (induction b p arbitrary: st rule: add_data.induct)
  case (1 b p)
  define N where "N = unat (nbytes b)"
  define ta where "ta = nbytes b - bytes_written b mod nbytes b"
  define k where "k = (if length p < unat ta then length p else unat ta)"
  define b' where "b' = b\<lparr>data := overwrite (length st mod N) (take k p) (data b),
                         bytes_written := bytes_written b + of_nat k\<rparr>"
  have ok: "counter_ok b (length st)"
    using "1.prems"(2) by (rule counter_ok_mono) simp
  have N: "0 < N" "length (data b) = N" and nz: "nbytes b \<noteq> 0"
    using "1.prems"(1) by (auto simp: holds_def cb_wf_def N_def)
  have pos: "unat (bytes_written b mod nbytes b) = length st mod N"
    using counter_ok_pos [OF ok "1.prems"(1)] by (simp add: unat_mod N_def)
  have ta: "unat ta = N - length st mod N" "0 < unat ta"
    using unat_sub_mod [of "nbytes b" "bytes_written b"] N(1) pos
    by (simp_all add: ta_def N_def unat_mod)
  have k: "k \<le> length p" "length (take k p) = k" "k \<le> N - length st mod N"
    using ta by (auto simp: k_def)
  have copy: "memcpy_to (data b) (unat (bytes_written b mod nbytes b)) (take k p)
      = Inr (overwrite (length st mod N) (take k p) (data b))"
  proof -
    have "length st mod N < N" using N(1) by simp
    then show ?thesis using k N(2) by (simp add: memcpy_to_def pos)
  qed
  have h': "holds b' (st @ take k p)"
    using add_chunk [OF "1.prems"(1) ok, of "take k p"] k by (simp add: b'_def N_def)
  have step: "add_data b p = (if length p - k \<noteq> 0 then add_data b' (drop k p) else Inr b')"
    by (subst add_data.simps)
      (simp only: nz if_False Let_def ta_def [symmetric] k_def [symmetric] copy sum.case b'_def)
  show ?case
  proof (cases "length p - k \<noteq> 0")
    case True
    have "counter_ok b' (length (st @ take k p) + length (drop k p))"
      using "1.prems"(2) k(1) by (simp add: counter_ok_def b'_def)
    then have "\<exists>b''. add_data b' (drop k p) = Inr b'' \<and> holds b'' ((st @ take k p) @ drop k p)
        \<and> nbytes b'' = nbytes b'"
      using "1.IH" [OF nz refl ta_def k_def copy b'_def True h'] by blast
    with True step show ?thesis by (simp add: b'_def)
  next
    case False
    with k(1) have "take k p = p" by simp
    with False step h' show ?thesis by (simp add: b'_def)
  qed
qed

text \<open>Adding to a well-formed ring succeeds, whatever its counter.\<close>

lemma add_data_wf: "cb_wf b \<Longrightarrow> \<exists>b'. add_data b p = Inr b' \<and> cb_wf b' \<and> nbytes b' = nbytes b"
proof (induction b p rule: add_data.induct)
  case (1 b p)
  define ta where "ta = nbytes b - bytes_written b mod nbytes b"
  define k where "k = (if length p < unat ta then length p else unat ta)"
  define pos where "pos = unat (bytes_written b mod nbytes b)"
  define b' where "b' = b\<lparr>data := overwrite pos (take k p) (data b),
                         bytes_written := bytes_written b + of_nat k\<rparr>"
  have N: "0 < unat (nbytes b)" "length (data b) = unat (nbytes b)" and nz: "nbytes b \<noteq> 0"
    using "1.prems" by (auto simp: cb_wf_def)
  have "unat ta = unat (nbytes b) - pos" "pos < unat (nbytes b)"
    using unat_sub_mod [of "nbytes b" "bytes_written b"] N(1)
    by (simp_all add: ta_def pos_def unat_mod)
  then have fit: "pos + length (take k p) \<le> length (data b)"
    using N by (auto simp: k_def)
  then have copy: "memcpy_to (data b) (unat (bytes_written b mod nbytes b)) (take k p)
      = Inr (overwrite pos (take k p) (data b))"
    by (simp add: memcpy_to_def pos_def)
  have wf': "cb_wf b'" "nbytes b' = nbytes b"
    using N fit by (simp_all add: b'_def cb_wf_def)
  have step: "add_data b p = (if length p - k \<noteq> 0 then add_data b' (drop k p) else Inr b')"
    by (subst add_data.simps)
      (simp only: nz if_False Let_def ta_def [symmetric] k_def [symmetric] copy sum.case b'_def)
  show ?case
  proof (cases "length p - k \<noteq> 0")
    case True
    from "1.IH" [OF nz refl ta_def k_def copy b'_def True wf'(1)] wf'(2) True step show ?thesis
      by auto
  qed (use step wf' in simp)
qed

text \<open>The \<open>k\<close> bytes of the ring from stream offset \<open>off\<close> on.\<close>

definition ring_bytes :: "circular_buffer \<Rightarrow> nat \<Rightarrow> nat \<Rightarrow> byte list" where
  "ring_bytes b off k = map (\<lambda>i. data b ! ((off + i) mod unat (nbytes b))) [0..<k]"

lemma length_ring_bytes [simp]: "length (ring_bytes b off k) = k"
  by (simp add: ring_bytes_def)

lemma ring_bytes_0 [simp]: "ring_bytes b off 0 = []"
  by (simp add: ring_bytes_def)

lemma ring_bytes_append: "ring_bytes b off j @ ring_bytes b (off + j) k = ring_bytes b off (j + k)"
  by (rule nth_equalityI) (auto simp: ring_bytes_def nth_append add.assoc)

lemma take_ring_bytes: "j \<le> k \<Longrightarrow> take j (ring_bytes b off k) = ring_bytes b off j"
  by (simp add: ring_bytes_def take_map)

lemma slice_ring_bytes:
  assumes "cb_wf b" and "off mod unat (nbytes b) + m \<le> unat (nbytes b)"
  shows "slice (off mod unat (nbytes b)) m (data b) = ring_bytes b off m"
  using assms by (intro nth_equalityI) (auto simp: ring_bytes_def cb_wf_def mod_add_no_wrap)

text \<open>Inside the window of the last \<open>nbytes\<close> bytes they are the stream's.\<close>

lemma holds_ring_bytes:
  assumes "holds b st" and "off + k \<le> length st" and "length st \<le> off + unat (nbytes b)"
  shows "ring_bytes b off k = slice off k st"
  using assms by (intro nth_equalityI) (auto simp: ring_bytes_def holds_def)

text \<open>POSIX: a \<open>write\<close> of at least one byte does not return 0.\<close>

definition no_zero_writes :: "env \<Rightarrow> bool" where
  "no_zero_writes E \<longleftrightarrow> (\<forall>tr fd bs. bs \<noteq> [] \<longrightarrow> env_write E tr fd bs \<noteq> Some 0)"

lemma sys_write_0: "no_zero_writes E \<Longrightarrow> bs \<noteq> [] \<Longrightarrow> sys_write E fd bs tr \<noteq> (0, tr')"
  by (auto simp: sys_write_def no_zero_writes_def Let_def min_def split: option.splits)

text \<open>A descriptor that takes every byte it is given.\<close>

definition takes_all :: "env \<Rightarrow> int \<Rightarrow> bool" where
  "takes_all E fd \<longleftrightarrow> (\<forall>tr bs. env_write E tr fd bs = Some (length bs))"

lemma sys_write_takes_all: "takes_all E fd \<Longrightarrow> sys_write E fd bs tr = (r, tr') \<Longrightarrow> r = int (length bs)"
  by (auto simp: sys_write_def takes_all_def Let_def)

text \<open>How a call of \<open>write_data\<close> for \<open>n\<close> bytes from \<open>off\<close> can end: with result \<open>r\<close> after \<open>k\<close> bytes.\<close>

definition emit_result :: "env \<Rightarrow> nat \<Rightarrow> nat \<Rightarrow> int \<Rightarrow> bool" where
  "emit_result E n k r \<longleftrightarrow>
     k = n \<and> r = 0 \<or> k < n \<and> (r = -1 \<or> r = 0 \<and> \<not> no_zero_writes E)"

text \<open>One round of the loop: a chunk of the ring goes to one \<open>write\<close>.\<close>

lemma write_chunk_round:
  assumes wf: "cb_wf b" and n: "n \<noteq> 0"
  shows "\<exists>result tr2. write_chunk E b fd n off tr =
      (if result \<le> 0 then Inr (Inl result, tr2 @ [Stderr ''Error while writing.''])
       else Inr (Inr (n - word_of_int result, off + word_of_int result), tr2))
    \<and> -1 \<le> result \<and> result \<le> int (unat n) \<and> (result = 0 \<longrightarrow> \<not> no_zero_writes E)
    \<and> (takes_all E fd \<longrightarrow> 0 < result)
    \<and> fd_bytes tr2 fd = fd_bytes tr fd @ ring_bytes b (unat off) (nat result) \<and> quiet_after tr tr2"
proof -
  define N where "N = unat (nbytes b)"
  define tr1 where "tr1 = (if is_overwritten b off
    then tr @ [Stderr ''Bytes already overwritten before sending''] else tr)"
  define rest where "rest = nbytes b - off mod nbytes b"
  define m where "m = (if rest > n then n else rest)"
  have len: "length (data b) = N" "0 < N" and nz: "nbytes b \<noteq> 0"
    using wf by (auto simp: cb_wf_def N_def)
  have rest: "unat rest = N - unat off mod N" "0 < unat rest"
    using unat_sub_mod [of "nbytes b" off] len(2) by (simp_all add: rest_def N_def)
  have m: "unat m \<le> unat n" "unat m \<le> N - unat off mod N" "0 < unat m"
    using rest n by (auto simp: m_def word_less_nat_alt word_le_nat_alt unat_gt_0)
  have cells: "unat off mod N + unat m \<le> N"
    using m(2) mod_less_divisor [OF len(2), of "unat off"] by linarith
  define bs where "bs = ring_bytes b (unat off) (unat m)"
  have bs: "length bs = unat m" "bs \<noteq> []" using m(3) by (auto simp: bs_def ring_bytes_def)
  have read: "memcpy_from (data b) (unat (off mod nbytes b)) (unat m) = Inr bs"
    using slice_ring_bytes [OF wf, of "unat off" "unat m"] cells len
    by (simp add: memcpy_from_def unat_mod bs_def N_def)
  obtain result tr2 where w: "sys_write E fd bs tr1 = (result, tr2)" by (meson surj_pair)
  have res: "-1 \<le> result" "result \<le> int (unat m)" using sys_write_result [OF w] bs by auto
  have tr1: "quiet_after tr tr1" "fd_bytes tr1 fd = fd_bytes tr fd"
    by (auto simp: tr1_def fd_bytes_one)
  have "write_chunk E b fd n off tr =
      (if result \<le> 0 then Inr (Inl result, tr2 @ [Stderr ''Error while writing.''])
       else Inr (Inr (n - word_of_int result, off + word_of_int result), tr2))"
    by (simp only: write_chunk_def n nz if_False Let_def tr1_def [symmetric] rest_def [symmetric]
        m_def [symmetric] read sum.case w prod.case)
  moreover have "result = 0 \<longrightarrow> \<not> no_zero_writes E"
    using sys_write_0 [of E bs fd tr1 tr2] w bs(2) by auto
  moreover have "takes_all E fd \<longrightarrow> 0 < result"
    using sys_write_takes_all [OF _ w] bs(2) by auto
  moreover have "fd_bytes tr2 fd = fd_bytes tr fd @ ring_bytes b (unat off) (nat result)"
    using sys_write_bytes [OF w] tr1(2) res(2) by (simp add: bs_def take_ring_bytes nat_le_iff)
  moreover have "quiet_after tr tr2" using tr1(1) quiet_calls(1) [OF w] by (rule quiet_after_trans)
  ultimately show ?thesis using res m(1) by (intro exI [of _ result] exI [of _ tr2]) linarith
qed

lemma write_data_round:
  assumes "cb_wf b" and "n \<noteq> 0"
  shows "\<exists>result tr2. write_data E b fd n off tr =
      (if result \<le> 0 then Inr (result, tr2 @ [Stderr ''Error while writing.''])
       else write_data E b fd (n - word_of_int result) (off + word_of_int result) tr2)
    \<and> -1 \<le> result \<and> result \<le> int (unat n) \<and> (result = 0 \<longrightarrow> \<not> no_zero_writes E)
    \<and> (takes_all E fd \<longrightarrow> 0 < result)
    \<and> fd_bytes tr2 fd = fd_bytes tr fd @ ring_bytes b (unat off) (nat result) \<and> quiet_after tr tr2"
  using write_chunk_round [OF assms, of E fd off tr]
  by (subst write_data_chunk) (elim exE conjE, intro exI conjI, auto)

text \<open>
  The whole loop: unless \<open>off + n\<close> overflows, the bytes that go out are the ring's from \<open>off\<close> on,
  all \<open>n\<close> of them when no write fails.
\<close>

lemma write_data_ring:
  assumes wf: "cb_wf b" and "unat off + unat n < 4294967296"
  shows "\<exists>k r tr'. write_data E b fd n off tr = Inr (r, tr') \<and> emit_result E (unat n) k r
           \<and> fd_bytes tr' fd = fd_bytes tr fd @ ring_bytes b (unat off) k \<and> quiet_after tr tr'
           \<and> (takes_all E fd \<longrightarrow> k = unat n)"
  using assms(2)
proof (induction "unat n" arbitrary: n off tr rule: less_induct)
  case less
  show ?case
  proof (cases "n = 0")
    case True
    then show ?thesis
      by (subst write_data.simps) (auto simp: emit_result_def)
  next
    case n: False
    from write_data_round [OF wf n, of E fd off tr] obtain result tr2 where
      step: "write_data E b fd n off tr =
        (if result \<le> 0 then Inr (result, tr2 @ [Stderr ''Error while writing.''])
         else write_data E b fd (n - word_of_int result) (off + word_of_int result) tr2)"
      and res: "-1 \<le> result" "result \<le> int (unat n)" "result = 0 \<longrightarrow> \<not> no_zero_writes E"
      and full: "takes_all E fd \<longrightarrow> 0 < result"
      and out: "fd_bytes tr2 fd = fd_bytes tr fd @ ring_bytes b (unat off) (nat result)"
      and q: "quiet_after tr tr2"
      by blast
    show ?thesis
    proof (cases "result \<le> 0")
      case True
      have "emit_result E (unat n) 0 result"
        using True res n by (auto simp: emit_result_def unat_gt_0)
      moreover have "fd_bytes (tr2 @ [Stderr ''Error while writing.'']) fd = fd_bytes tr fd"
        using out True by (simp add: fd_bytes_one)
      moreover have "quiet_after tr (tr2 @ [Stderr ''Error while writing.''])"
        using q by (rule quiet_after_snocI) simp
      ultimately show ?thesis
        using step True full by (intro exI [of _ 0] exI [of _ result] exI conjI) auto
    next
      case False
      have r: "0 < result" using False by simp
      note u = word_of_int_chunk [OF r res(2)]
      have le: "nat result \<le> unat n" using res(2) by linarith
      have off': "unat (off + word_of_int result) = unat off + nat result"
        using u(3) le less.prems by (subst unat_add_no_wrap) simp_all
      have "unat (n - word_of_int result) < unat n" using u(1,2) by simp
      from less.hyps [OF this, of "off + word_of_int result" tr2] obtain k r' tr' where rec:
        "write_data E b fd (n - word_of_int result) (off + word_of_int result) tr2 = Inr (r', tr')"
        "emit_result E (unat n - nat result) k r'"
        "fd_bytes tr' fd = fd_bytes tr2 fd @ ring_bytes b (unat off + nat result) k" "quiet_after tr2 tr'"
        "takes_all E fd \<longrightarrow> k = unat n - nat result"
        unfolding off' u(1) using less.prems le by auto
      have "emit_result E (unat n) (nat result + k) r'"
        using rec(2) le by (auto simp: emit_result_def)
      moreover have "fd_bytes tr' fd = fd_bytes tr fd @ ring_bytes b (unat off) (nat result + k)"
        using rec(3) out by (simp flip: ring_bytes_append)
      moreover have "quiet_after tr tr'" using q rec(4) by (rule quiet_after_trans)
      moreover have "takes_all E fd \<longrightarrow> nat result + k = unat n" using rec(5) le by auto
      ultimately show ?thesis using step False rec(1) by auto
    qed
  qed
qed

text \<open>
  Whatever range is asked for, also bytes never written, \<open>write_data\<close> stays inside the ring
  and returns: the position is reduced modulo \<open>nbytes\<close> and a chunk stops at the end.
\<close>

lemma write_data_returns:
  assumes wf: "cb_wf b"
  shows "\<exists>r tr'. write_data E b fd n off tr = Inr (r, tr') \<and> -1 \<le> r \<and> r \<le> 0 \<and> quiet_after tr tr'"
proof (induction "unat n" arbitrary: n off tr rule: less_induct)
  case less
  show ?case
  proof (cases "n = 0")
    case True
    then show ?thesis by (subst write_data.simps) auto
  next
    case n: False
    from write_data_round [OF wf n, of E fd off tr] obtain result tr2 where
      step: "write_data E b fd n off tr =
        (if result \<le> 0 then Inr (result, tr2 @ [Stderr ''Error while writing.''])
         else write_data E b fd (n - word_of_int result) (off + word_of_int result) tr2)"
      and res: "-1 \<le> result" "result \<le> int (unat n)" and q: "quiet_after tr tr2"
      by blast
    show ?thesis
    proof (cases "result \<le> 0")
      case True
      have "quiet_after tr (tr2 @ [Stderr ''Error while writing.''])"
        using q by (rule quiet_after_snocI) simp
      with step True res(1) show ?thesis by auto
    next
      case False
      then have "unat (n - word_of_int result) < unat n"
        using word_of_int_chunk(1,2) [of result n] res(2) by (simp only: not_le)
      from less.hyps [OF this, of "off + word_of_int result" tr2] step False q show ?thesis
        by (auto intro: quiet_after_trans)
    qed
  qed
qed

section \<open>The contract the clients rely on\<close>

text \<open>
  A buffer that a producer appends to, and whose recent past a consumer can write to a
  descriptor. \<open>rep b st\<close>: the buffer has been given the stream \<open>st\<close>.
\<close>

locale byte_stream =
  fixes rep :: "'b \<Rightarrow> byte list \<Rightarrow> bool"
    and cap :: "'b \<Rightarrow> nat"
    and count :: "'b \<Rightarrow> size_t"
    and add :: "'b \<Rightarrow> byte list \<Rightarrow> error + 'b"
    and emit :: "env \<Rightarrow> 'b \<Rightarrow> int \<Rightarrow> size_t \<Rightarrow> size_t \<Rightarrow> event list \<Rightarrow> error + (int \<times> event list)"
  assumes count_law: "rep b st \<Longrightarrow> length st < 4294967296 \<Longrightarrow> unat (count b) = length st"
    and add_law: "rep b st \<Longrightarrow> length st + length p < 4294967296 \<Longrightarrow>
      \<exists>b'. add b p = Inr b' \<and> rep b' (st @ p) \<and> cap b' = cap b"
    and emit_law: "rep b st \<Longrightarrow> length st < 4294967296 \<Longrightarrow> unat off + unat n \<le> length st \<Longrightarrow>
      length st \<le> unat off + cap b \<Longrightarrow>
      \<exists>k r tr'. emit E b fd n off tr = Inr (r, tr') \<and> emit_result E (unat n) k r
        \<and> fd_bytes tr' fd = fd_bytes tr fd @ slice (unat off) k st \<and> quiet_after tr tr'"
begin

text \<open>Appending chunk after chunk appends their concatenation.\<close>

lemma adds_law:
  assumes "rep b st" and "length st + length (concat ps) < 4294967296"
  shows "\<exists>b'. exec (map (\<lambda>p b. add b p) ps) b = Inr b' \<and> rep b' (st @ concat ps) \<and> cap b' = cap b"
  using assms
proof (induction ps arbitrary: b st)
  case Nil
  then show ?case by simp
next
  case (Cons p ps)
  from Cons.prems add_law [of b st p] obtain b' where
    b': "add b p = Inr b'" "rep b' (st @ p)" "cap b' = cap b" by auto
  with Cons.IH [of b' "st @ p"] Cons.prems(2) show ?case by auto
qed

text \<open>
  Sending what came in since the prev send, as the samplers do: the bytes that go out
  continue the stream where the prev send stopped.
\<close>

lemma emit_since:
  assumes "rep b st" and "length st < 4294967296"
    and "unat prev \<le> length st" and "length st \<le> unat prev + cap b"
  shows "\<exists>k r tr'. emit E b fd (count b - prev) prev tr = Inr (r, tr')
    \<and> emit_result E (length st - unat prev) k r
    \<and> fd_bytes tr' fd = fd_bytes tr fd @ slice (unat prev) k st \<and> quiet_after tr tr'"
proof -
  have "unat (count b - prev) = length st - unat prev"
    using count_law [OF assms(1,2)] assms(3) by (subst unat_sub_le) (simp_all add: word_le_nat_alt)
  with emit_law [OF assms(1,2), of prev "count b - prev"] assms(3,4) show ?thesis by simp
qed

lemma emit_since_complete:
  assumes "rep b st" and "length st < 4294967296"
    and "unat prev \<le> length st" and "length st \<le> unat prev + cap b"
    and "emit E b fd (count b - prev) prev tr = Inr (0, tr')" and "no_zero_writes E"
  shows "fd_bytes tr' fd = fd_bytes tr fd @ drop (unat prev) st"
  using emit_since [OF assms(1-4), of E fd tr] assms(3,5,6)
  by (auto simp: emit_result_def slice_def)

end

interpretation ring: byte_stream holds "\<lambda>b. unat (nbytes b)" bytes_written add_data write_data
proof unfold_locales
  fix b and st p :: "byte list"
  show "holds b st \<Longrightarrow> length st < 4294967296 \<Longrightarrow> unat (bytes_written b) = length st"
    by (simp add: holds_def)
  assume "holds b st" "length st + length p < 4294967296"
  then show "\<exists>b'. add_data b p = Inr b' \<and> holds b' (st @ p) \<and> unat (nbytes b') = unat (nbytes b)"
    using add_data_appends [of b st p] by (auto simp: counter_ok_def)
next
  fix b and st :: "byte list" and off n :: size_t and E fd tr
  assume h: "holds b st" "length st < 4294967296" "unat off + unat n \<le> length st"
    "length st \<le> unat off + unat (nbytes b)"
  then have "cb_wf b" "unat off + unat n < 4294967296" by (simp_all add: holds_def)
  from write_data_ring [OF this, of E fd tr] obtain k r tr' where
    out: "write_data E b fd n off tr = Inr (r, tr')" "emit_result E (unat n) k r"
    "fd_bytes tr' fd = fd_bytes tr fd @ ring_bytes b (unat off) k" "quiet_after tr tr'" by blast
  moreover from out(2) have "k \<le> unat n" by (auto simp: emit_result_def)
  ultimately show "\<exists>k r tr'. write_data E b fd n off tr = Inr (r, tr') \<and> emit_result E (unat n) k r
      \<and> fd_bytes tr' fd = fd_bytes tr fd @ slice (unat off) k st \<and> quiet_after tr tr'"
    using holds_ring_bytes [OF h(1), of "unat off" k] h(3,4) by auto
qed

section \<open>Properties\<close>

text \<open>
  C15. The ring keeps the last \<open>nbytes\<close> bytes: from a new buffer, any sequence of \<open>add_data\<close>
  calls succeeds, \<open>bytes_written\<close> is the total length, and byte \<open>i\<close> of the concatenated input
  is at position \<open>i mod nbytes\<close> as long as it is among the last \<open>nbytes\<close> ones.
\<close>

theorem add_data_keeps_last_bytes:
  assumes "0 < unat sz" and "length (concat ps) < 4294967296"
  shows "\<exists>b. exec (map (\<lambda>p b. add_data b p) ps) (circular_buffer_new sz junk) = Inr b
    \<and> nbytes b = sz \<and> unat (bytes_written b) = length (concat ps)
    \<and> (\<forall>i < length (concat ps). length (concat ps) \<le> i + unat sz \<longrightarrow>
          data b ! (i mod unat sz) = concat ps ! i)"
proof -
  obtain b where b: "exec (map (\<lambda>p b. add_data b p) ps) (circular_buffer_new sz junk) = Inr b"
      "holds b (concat ps)" "unat (nbytes b) = unat (nbytes (circular_buffer_new sz junk))"
    using ring.adds_law [OF holds_new [OF assms(1)], of ps junk] assms(2) by auto
  then have "nbytes b = sz" by (simp add: circular_buffer_new_def word_unat_eq_iff)
  with b ring.count_law [OF b(2) assms(2)] show ?thesis by (auto simp: holds_def)
qed

theorem add_data_keeps_last_bytes_witness:
  "\<exists>b. exec (map (\<lambda>p b. add_data b p) [[1, 2], [3, 4, 5]]) (circular_buffer_new 3 (\<lambda>i. 9)) = Inr b
    \<and> unat (bytes_written b) = 5 \<and> data b ! 0 = 4 \<and> data b ! 1 = 5 \<and> data b ! 2 = 3"
proof -
  have "0 < unat (3 :: size_t)" "length (concat [[1, 2], [3, 4, 5 :: byte]]) < 4294967296" by simp_all
  from add_data_keeps_last_bytes [OF this, of "\<lambda>i. 9"] obtain b where
    b: "exec (map (\<lambda>p b. add_data b p) [[1, 2], [3, 4, 5]]) (circular_buffer_new 3 (\<lambda>i. 9)) = Inr b"
      "unat (bytes_written b) = 5"
      "\<forall>i < 5. 5 \<le> i + 3 \<longrightarrow> data b ! (i mod 3) = [1, 2, 3, 4, 5] ! i" by auto
  moreover have "data b ! 0 = 4" using b(3) [rule_format, of 3] by simp
  moreover have "data b ! 1 = 5" using b(3) [rule_format, of 4] by simp
  moreover have "data b ! 2 = 3" using b(3) [rule_format, of 2] by simp
  ultimately show ?thesis by auto
qed

text \<open>
  C16. \<open>write_data\<close> puts out the stream: asked for bytes still in the ring, it writes a prefix
  of exactly those bytes, in order and across the wrap-around and short writes; it returns 0
  when all are out and, if writes of at least one byte never return 0, only then.
\<close>

theorem write_data_sends_stream:
  assumes "holds b st" and "length st < 4294967296"
    and "unat off + unat n \<le> length st" and "length st \<le> unat off + unat (nbytes b)"
  shows "\<exists>k r tr'. write_data E b fd n off tr = Inr (r, tr')
    \<and> k \<le> unat n \<and> fd_bytes tr' fd = fd_bytes tr fd @ slice (unat off) k st
    \<and> (k = unat n \<longrightarrow> r = 0) \<and> (k < unat n \<longrightarrow> no_zero_writes E \<longrightarrow> r = -1)"
proof -
  obtain k r tr' where out: "write_data E b fd n off tr = Inr (r, tr')" "emit_result E (unat n) k r"
    "fd_bytes tr' fd = fd_bytes tr fd @ slice (unat off) k st"
    using ring.emit_law [OF assms, of E fd tr] by auto
  from out(2) have "k \<le> unat n" "k = unat n \<longrightarrow> r = 0" "k < unat n \<longrightarrow> no_zero_writes E \<longrightarrow> r = -1"
    by (auto simp: emit_result_def)
  with out(1,3) show ?thesis by blast
qed

theorem write_data_sends_stream_witness:
  "\<exists>k r tr'. write_data sample_env \<lparr>nbytes = 3, bytes_written = 5, data = [4, 5, 3]\<rparr> 7 3 2 []
       = Inr (r, tr')
    \<and> k \<le> 3 \<and> fd_bytes tr' 7 = slice 2 k [1, 2, 3, 4, 5] \<and> (k = 3 \<longrightarrow> r = 0)"
proof -
  let ?b = "\<lparr>nbytes = 3, bytes_written = 5, data = [4, 5, 3]\<rparr>"
  have h: "holds ?b [1, 2, 3, 4, 5]"
    by (simp add: holds_def cb_wf_def all_less_upt upt_rec)
  show ?thesis
    using write_data_sends_stream [OF h, of 2 3 sample_env 7 "[]"] by auto
qed

text \<open>
  C18. \<open>write_data\<close> is memory safe and returns for every range, also one that was never written
  or is already overwritten: it only reads inside the ring and its result is 0 or -1.
\<close>

theorem write_data_safe:
  assumes "cb_wf b"
  shows "\<exists>r tr'. write_data E b fd n off tr = Inr (r, tr') \<and> r \<in> {-1, 0}"
proof -
  obtain r tr' where "write_data E b fd n off tr = Inr (r, tr')" "-1 \<le> r" "r \<le> 0"
    using write_data_returns [OF assms] by blast
  then show ?thesis by auto
qed

theorem write_data_safe_witness:
  "\<exists>r tr'. write_data sample_env \<lparr>nbytes = 3, bytes_written = 5, data = [4, 5, 3]\<rparr> 7 100 1000 []
     = Inr (r, tr') \<and> r \<in> {-1, 0}"
proof -
  have "cb_wf \<lparr>nbytes = 3, bytes_written = 5, data = [4, 5, 3]\<rparr>"
    by (simp add: cb_wf_def)
  then show ?thesis by (rule write_data_safe)
qed

text \<open>What \<open>copy_data\<close> prints before it copies.\<close>

abbreviation copy_diag :: "circular_buffer \<Rightarrow> size_t \<Rightarrow> event list \<Rightarrow> event list" where
  "copy_diag b off tr \<equiv>
     (if is_overwritten b off then tr @ [Stderr ''Bytes already overwritten before sending''] else tr)"

lemma copy_data_low:
  assumes wf: "cb_wf b" and n: "n \<noteq> 0" "n \<le> nbytes b" and off: "off \<le> nbytes b"
  shows "copy_data b n off tr = Inr (True, ring_bytes b (unat off) (unat n), copy_diag b off tr)"
proof -
  define N where "N = unat (nbytes b)"
  define rb where "rb = nbytes b - off"
  have len: "length (data b) = N" "0 < N" using wf by (auto simp: cb_wf_def N_def)
  have le: "unat off \<le> N" "unat n \<le> N" "0 < unat n"
    using n off by (auto simp: N_def word_le_nat_alt unat_gt_0)
  have rb: "unat rb = N - unat off" using off by (simp add: rb_def N_def unat_sub_le)
  have run: "slice k m (data b) = ring_bytes b k m" if "k + m \<le> N" for k m
    using that len slice_ring_bytes [OF wf, of k m] by (cases "k = N") (auto simp: N_def)
  show ?thesis
  proof (cases "n \<le> rb")
    case True
    then have "unat off + unat n \<le> N"
      using rb le by (auto simp: word_le_nat_alt)
    with True run [of "unat off" "unat n"] n le len show ?thesis
      by (simp add: copy_data_def Let_def memcpy_from_def not_less flip: rb_def)
  next
    case False
    then have lt: "unat rb < unat n" by (simp add: word_le_nat_alt)
    then have sub: "unat (n - rb) = unat n - unat rb"
      by (simp add: unat_sub_le word_le_nat_alt)
    have "ring_bytes b N (unat n - unat rb) = ring_bytes b 0 (unat n - unat rb)"
      by (simp add: ring_bytes_def N_def)
    then have "slice (unat off) (unat rb) (data b) @ slice 0 (unat n - unat rb) (data b)
        = ring_bytes b (unat off) (unat n)"
      using run [of "unat off" "unat rb"] run [of 0 "unat n - unat rb"] rb le len lt
        ring_bytes_append [of b "unat off" "unat rb" "unat n - unat rb"] by auto
    with False n le len rb lt sub show ?thesis
      by (simp add: copy_data_def Let_def memcpy_from_def not_less flip: rb_def)
  qed
qed

lemma copy_data_high:
  assumes wf: "cb_wf b" and n: "n \<noteq> 0" "n \<le> nbytes b" and off: "off > nbytes b"
  shows "copy_data b n off tr = Inl Undefined"
proof -
  have "memcpy_from (data b) (unat off) m = Inl Undefined" for m
    using off wf by (simp add: memcpy_from_def cb_wf_def word_less_nat_alt)
  with n show ?thesis by (simp add: copy_data_def Let_def not_less)
qed

text \<open>
  \<open>copy_data\<close> copies the same bytes of the ring that \<open>write_data\<close> would send, for offsets up
  to \<open>nbytes\<close>; beyond that it reads outside the allocation, since it does not reduce the offset
  modulo \<open>nbytes\<close> as \<open>write_data\<close> does.
\<close>

theorem copy_data_correct_up_to_nbytes:
  assumes "cb_wf b" and "n \<noteq> 0" and "n \<le> nbytes b"
  shows "copy_data b n off tr =
    (if off \<le> nbytes b then Inr (True, ring_bytes b (unat off) (unat n), copy_diag b off tr)
     else Inl Undefined)"
  using copy_data_low [OF assms] copy_data_high [OF assms] by (simp add: not_le)

theorem copy_data_correct_up_to_nbytes_witness:
  "copy_data \<lparr>nbytes = 3, bytes_written = 5, data = [4, 5, 3]\<rparr> 2 2 [] = Inr (True, [3, 4], [])
   \<and> copy_data \<lparr>nbytes = 3, bytes_written = 5, data = [4, 5, 3]\<rparr> 2 5 [] = Inl Undefined"
proof -
  have "cb_wf \<lparr>nbytes = 3, bytes_written = 5, data = [4, 5, 3]\<rparr>" by (simp add: cb_wf_def)
  from copy_data_correct_up_to_nbytes [OF this, of 2 2 "[]"]
    copy_data_correct_up_to_nbytes [OF this, of 2 5 "[]"]
  show ?thesis by (simp add: ring_bytes_def is_overwritten_def upt_rec)
qed

text \<open>A call that does not reach the end of the ring is one copy.\<close>

lemma add_data_one_chunk:
  assumes wf: "cb_wf b" and fits: "unat (bytes_written b) mod unat (nbytes b) + length p < unat (nbytes b)"
  shows "add_data b p = Inr (b\<lparr>data := overwrite (unat (bytes_written b) mod unat (nbytes b)) p (data b),
                                bytes_written := bytes_written b + of_nat (length p)\<rparr>)"
proof -
  have nz: "nbytes b \<noteq> 0" and len: "length (data b) = unat (nbytes b)"
    using wf by (auto simp: cb_wf_def)
  have "unat (nbytes b - bytes_written b mod nbytes b) = unat (nbytes b) - unat (bytes_written b) mod unat (nbytes b)"
    using wf by (intro unat_sub_mod) (simp add: cb_wf_def)
  with fits have "length p < unat (nbytes b - bytes_written b mod nbytes b)" by simp
  with nz len fits show ?thesis
    by (subst add_data.simps) (simp add: memcpy_to_def unat_mod Let_def)
qed

text \<open>
  C36. On a 32-bit \<open>size_t\<close> the counter wraps after 4 GiB, and the \<open>12 << 17\<close> bytes of a sensor's
  ring do not divide that: the reading that brings the counter to 0 is stored at 1048560, the
  next one at 0 instead of after it, and a send of both puts out the stale bytes at 1048576 in
  place of the second.
\<close>

theorem counter_wrap_sends_stale_bytes:
  assumes wf: "cb_wf b" and N: "nbytes b = 1572864" and bw: "bytes_written b = 4294967280"
    and p: "length p = 16" and q: "length q = 16"
    and all: "\<And>tr bs. env_write E tr fd bs = Some (length bs)"
  shows "\<exists>b1 b2 tr'. add_data b p = Inr b1 \<and> add_data b1 q = Inr b2
    \<and> slice 1048560 16 (data b2) = p \<and> slice 0 16 (data b2) = q
    \<and> write_data E b2 fd 32 4294967280 [] = Inr (0, tr')
    \<and> fd_bytes tr' fd = p @ slice 1048576 16 (data b)"
proof -
  have len: "length (data b) = 1572864" using wf N by (simp add: cb_wf_def)
  define b1 where "b1 = b\<lparr>data := overwrite 1048560 p (data b), bytes_written := 0\<rparr>"
  have b1: "add_data b p = Inr b1"
    using add_data_one_chunk [OF wf, of p] N bw p by (simp add: b1_def)
  have wf1: "cb_wf b1" using len N p by (simp add: cb_wf_def b1_def)
  define b2 where "b2 = b1\<lparr>data := overwrite 0 q (data b1), bytes_written := 16\<rparr>"
  have b2: "add_data b1 q = Inr b2"
    using add_data_one_chunk [OF wf1, of q] N q by (simp add: b2_def b1_def)
  have len2: "length (data b2) = 1572864" using len p q by (simp add: b2_def b1_def)
  have cells: "data b2 ! i = (if i < 16 then q ! i else if 1048560 \<le> i \<and> i < 1048576
      then p ! (i - 1048560) else data b ! i)" if "i < 1572864" for i
    using that len p q by (simp add: b2_def b1_def nth_overwrite)
  have sp: "slice 1048560 16 (data b2) = p" and sq: "slice 0 16 (data b2) = q"
    using cells len2 p q by (auto intro!: nth_equalityI)
  have "slice 1048576 16 (data b2) = slice 1048576 16 (data b)"
    using cells len2 len by (auto intro!: nth_equalityI)
  then have out: "slice 1048560 32 (data b2) = p @ slice 1048576 16 (data b)"
    using slice_append [of 1048560 16 "data b2" 16] sp by simp
  have "nbytes b2 = 1572864" using N by (simp add: b2_def b1_def)
  then have "\<exists>tr'. write_data E b2 fd 32 4294967280 [] = Inr (0, tr')
      \<and> fd_bytes tr' fd = slice 1048560 32 (data b2)"
    using len2 all
    by (subst write_data.simps, subst write_data.simps)
      (simp add: memcpy_from_def sys_write_def Let_def fd_bytes_one is_overwritten_def)
  with b1 b2 sp sq out show ?thesis by auto
qed

theorem counter_wrap_sends_stale_bytes_witness:
  "\<exists>b1 b2 tr'. add_data \<lparr>nbytes = 1572864, bytes_written = 4294967280, data = replicate 1572864 0\<rparr>
        (replicate 16 1) = Inr b1
    \<and> add_data b1 (replicate 16 2) = Inr b2
    \<and> write_data (sample_env\<lparr>env_write := \<lambda>tr fd bs. Some (length bs)\<rparr>) b2 7 32 4294967280 []
        = Inr (0, tr')
    \<and> fd_bytes tr' 7 = replicate 16 1 @ replicate 16 0"
proof -
  let ?b = "\<lparr>nbytes = 1572864, bytes_written = 4294967280, data = replicate 1572864 (0 :: byte)\<rparr>"
  have "cb_wf ?b" "slice 1048576 16 (data ?b) = replicate 16 0"
    by (simp_all add: cb_wf_def slice_def)
  with counter_wrap_sends_stale_bytes [of ?b "replicate 16 1" "replicate 16 2"
      "sample_env\<lparr>env_write := \<lambda>tr fd bs. Some (length bs)\<rparr>" 7]
  show ?thesis by auto
qed

end
