(* ===== verification/QueueItems.thy ===== *)
theory QueueItems
  imports Platform
begin

text \<open>
  \<open>src/server/queue_items.hpp\<close>: the enumerations and structs the two threads exchange. A
  pointer to a \<open>circular_buffer\<close> is an address of the heap of buffers, a pointer to a
  \<open>timed_item\<close> an index of the item array, \<open>None\<close> a null pointer. Of the \<open>char data[8]\<close> arrays the
  program uses element 0 only.
\<close>

section \<open>Actions\<close>

datatype work_queue_item_action =
    wq_none | wq_process | wq_start | wq_stop | wq_timed
  | lc_main | lc1 | lc2 | lc3 | pt_feed | pt_inje | pt_comb | tc1 | tc2 | tc3
  | ign1 | ign2 | ign3 | gitvc

primrec wq_code :: "work_queue_item_action \<Rightarrow> nat" where
  "wq_code wq_none = 0"
| "wq_code wq_process = 1"
| "wq_code wq_start = 2"
| "wq_code wq_stop = 3"
| "wq_code wq_timed = 4"
| "wq_code lc_main = 9"
| "wq_code lc1 = 10"
| "wq_code lc2 = 11"
| "wq_code lc3 = 12"
| "wq_code pt_feed = 13"
| "wq_code pt_inje = 14"
| "wq_code pt_comb = 15"
| "wq_code tc1 = 16"
| "wq_code tc2 = 17"
| "wq_code tc3 = 18"
| "wq_code ign1 = 19"
| "wq_code ign2 = 20"
| "wq_code ign3 = 21"
| "wq_code gitvc = 22"

lemma wq_code_inj [simp]: "wq_code a = wq_code b \<longleftrightarrow> a = b"
  by (cases a; cases b) simp_all

text \<open>The enumerators are ordered by their values, as the keys of the \<open>std::map\<close> are.\<close>

instantiation work_queue_item_action :: linorder
begin

definition less_eq_work_queue_item_action :: "work_queue_item_action \<Rightarrow> work_queue_item_action \<Rightarrow> bool" where
  "less_eq_work_queue_item_action a b \<longleftrightarrow> wq_code a \<le> wq_code b"

definition less_work_queue_item_action :: "work_queue_item_action \<Rightarrow> work_queue_item_action \<Rightarrow> bool" where
  "less_work_queue_item_action a b \<longleftrightarrow> wq_code a < wq_code b"

instance
  by standard (auto simp: less_eq_work_queue_item_action_def less_work_queue_item_action_def)

end

lemmas wq_order_simps = less_eq_work_queue_item_action_def less_work_queue_item_action_def

datatype network_queue_item_action = nq_none | nq_send | nq_recv | nq_send_ack

datatype send_code =
    ack | payload | text_code | unset_valve | set_valve | unset_ignition | set_ignition | ign_normal
  | lc_main_send | lc1_send | lc2_send | lc3_send | pt_feed_send | pt_inje_send | pt_comb_send
  | tc1_send | tc2_send | tc3_send | set_water | unset_water | set_gitvc | unset_gitvc
  | leak_check | fill | fill_idle | def_code

primrec sc_code :: "send_code \<Rightarrow> nat" where
  "sc_code ack = 1"
| "sc_code payload = 2"
| "sc_code text_code = 3"
| "sc_code unset_valve = 4"
| "sc_code set_valve = 5"
| "sc_code unset_ignition = 6"
| "sc_code set_ignition = 7"
| "sc_code ign_normal = 8"
| "sc_code lc_main_send = 9"
| "sc_code lc1_send = 10"
| "sc_code lc2_send = 11"
| "sc_code lc3_send = 12"
| "sc_code pt_feed_send = 13"
| "sc_code pt_inje_send = 14"
| "sc_code pt_comb_send = 15"
| "sc_code tc1_send = 16"
| "sc_code tc2_send = 17"
| "sc_code tc3_send = 18"
| "sc_code set_water = 19"
| "sc_code unset_water = 20"
| "sc_code set_gitvc = 21"
| "sc_code unset_gitvc = 22"
| "sc_code leak_check = 23"
| "sc_code fill = 24"
| "sc_code fill_idle = 25"
| "sc_code def_code = 26"

lemma sc_code_inj [simp]: "sc_code a = sc_code b \<longleftrightarrow> a = b"
  by (cases a; cases b) simp_all

text \<open>
  \<open>switch (c)\<close> on a received \<open>char\<close>: the enumerator with that value, if any. The values are below
  128, so the sign of \<open>char\<close> does not matter.
\<close>

definition all_send_codes :: "send_code list" where
  "all_send_codes =
     [ack, payload, text_code, unset_valve, set_valve, unset_ignition, set_ignition, ign_normal,
      lc_main_send, lc1_send, lc2_send, lc3_send, pt_feed_send, pt_inje_send, pt_comb_send,
      tc1_send, tc2_send, tc3_send, set_water, unset_water, set_gitvc, unset_gitvc,
      leak_check, fill, fill_idle, def_code]"

definition code_of :: "byte \<Rightarrow> send_code option" where
  "code_of c = find (\<lambda>s. sc_code s = unat c) all_send_codes"

lemma in_all_send_codes: "s \<in> set all_send_codes"
  by (cases s) (simp_all add: all_send_codes_def)

lemma code_of_iff: "code_of c = Some s \<longleftrightarrow> unat c = sc_code s"
proof
  assume "code_of c = Some s"
  then show "unat c = sc_code s" by (auto simp: code_of_def find_Some_iff)
next
  assume s: "unat c = sc_code s"
  then obtain t where "code_of c = Some t"
    using in_all_send_codes [of s]
    by (cases "code_of c") (auto simp: code_of_def find_None_iff)
  then have "unat c = sc_code t" by (auto simp: code_of_def find_Some_iff)
  with s \<open>code_of c = Some t\<close> show "code_of c = Some s" by simp
qed

section \<open>Items\<close>

record network_queue_item =
  nqi_action :: network_queue_item_action
  nqi_buff :: "nat option"
  nqi_nbytes :: size_t
  total_bytes :: size_t
  nqi_data0 :: byte

record work_queue_item =
  wqi_action :: work_queue_item_action
  wqi_nbytes :: size_t
  extra_datap :: "nat option"
  wqi_data0 :: byte

text \<open>The null items \<open>{nq_none}\<close> and \<open>{wq_none}\<close>: the other members are zero.\<close>

definition null_nqi :: network_queue_item where
  "null_nqi = \<lparr>nqi_action = nq_none, nqi_buff = None, nqi_nbytes = 0, total_bytes = 0, nqi_data0 = 0\<rparr>"

definition null_wqi :: work_queue_item where
  "null_wqi = \<lparr>wqi_action = wq_none, wqi_nbytes = 0, extra_datap = None, wqi_data0 = 0\<rparr>"

section \<open>Bytes of an integer\<close>

text \<open>Integers in memory, least significant byte first.\<close>

fun le_bytes :: "nat \<Rightarrow> nat \<Rightarrow> byte list" where
  "le_bytes 0 x = []"
| "le_bytes (Suc n) x = of_nat (x mod 256) # le_bytes n (x div 256)"

fun le_value :: "byte list \<Rightarrow> nat" where
  "le_value [] = 0"
| "le_value (b # bs) = unat b + 256 * le_value bs"

lemma length_le_bytes [simp]: "length (le_bytes n x) = n"
  by (induction n arbitrary: x) simp_all

lemma le_value_bytes [simp]: "le_value (le_bytes n x) = x mod 256 ^ n"
proof (induction n arbitrary: x)
  case 0
  then show ?case by simp
next
  case (Suc n)
  have "x mod 256 ^ Suc n = x mod 256 + 256 * (x div 256 mod 256 ^ n)"
    by (simp add: mod_mult2_eq)
  with Suc show ?case by (simp add: unat_of_nat)
qed

text \<open>The header in front of each block of sensor data: \<open>send_header_t\<close> with its two 32-bit members.\<close>

record send_header_t =
  sh_code :: nat
  sh_nbytes :: size_t

definition header_bytes :: "send_header_t \<Rightarrow> byte list" where
  "header_bytes sh = le_bytes 4 (sh_code sh) @ le_bytes 4 (unat (sh_nbytes sh))"

definition parse_header :: "byte list \<Rightarrow> send_header_t" where
  "parse_header bs = \<lparr>sh_code = le_value (take 4 bs), sh_nbytes = of_nat (le_value (take 4 (drop 4 bs)))\<rparr>"

text \<open>Which code announces the data of which sensor: the enumerators of the same name.\<close>

fun send_code_for :: "work_queue_item_action \<Rightarrow> send_code option" where
  "send_code_for lc_main = Some lc_main_send"
| "send_code_for lc1 = Some lc1_send"
| "send_code_for lc2 = Some lc2_send"
| "send_code_for lc3 = Some lc3_send"
| "send_code_for pt_feed = Some pt_feed_send"
| "send_code_for pt_inje = Some pt_inje_send"
| "send_code_for pt_comb = Some pt_comb_send"
| "send_code_for tc1 = Some tc1_send"
| "send_code_for tc2 = Some tc2_send"
| "send_code_for tc3 = Some tc3_send"
| "send_code_for _ = None"

lemma send_code_for_sensors: "send_code_for a \<noteq> None \<longleftrightarrow> lc_main \<le> a \<and> a \<le> tc3"
  by (cases a) (simp_all add: wq_order_simps)

lemma wq_code_small [simp]: "wq_code a mod 256 = wq_code a" "wq_code a mod 4294967296 = wq_code a"
  by (cases a; simp)+

lemma unat_wq_code [simp]: "unat (of_nat (wq_code a) :: byte) = wq_code a"
  by (simp add: unat_of_nat)

text \<open>
  C31. A sensor's data is labelled right: for every sensor the action code that a send item
  carries in \<open>data[0]\<close> is the \<open>send_code\<close> of the same sensor, and the header sent with it, followed
  by any data, decodes to that code and to the number of bytes announced.
\<close>

theorem sensor_header_roundtrip:
  assumes "send_code_for a = Some s"
  shows "code_of (of_nat (wq_code a)) = Some s
    \<and> parse_header (header_bytes \<lparr>sh_code = unat (of_nat (wq_code a) :: byte), sh_nbytes = n\<rparr> @ rest)
      = \<lparr>sh_code = sc_code s, sh_nbytes = n\<rparr>"
proof -
  have "wq_code a = sc_code s" using assms by (cases a) auto
  moreover have "unat n mod 4294967296 = unat n" using unat_size_less [of n] by simp
  ultimately show ?thesis
    using wq_code_small(2) [of a] unat_wq_code [of a]
    by (simp add: code_of_iff parse_header_def header_bytes_def)
qed

theorem sensor_header_roundtrip_witness:
  "code_of 15 = Some pt_comb_send
   \<and> parse_header (header_bytes \<lparr>sh_code = 15, sh_nbytes = 8000\<rparr> @ [1, 2, 3])
     = \<lparr>sh_code = sc_code pt_comb_send, sh_nbytes = 8000\<rparr>"
  using sensor_header_roundtrip [of pt_comb pt_comb_send 8000 "[1, 2, 3]"] by simp

end
