(* ===== verification/AdcBlock.thy ===== *)
theory AdcBlock
  imports Platform
begin

unbundle bit_operations_syntax

text \<open>
  \<open>src/adc/lib/adc_block.hpp\<close> and \<open>.cpp\<close>: reading one channel of an MCP3208 ADC over SPI.
  Chip selects 0 and 1 are driven by the SPI unit, any other pin by hand around the transfer.
  Whether plain \<open>char\<close> is signed depends on the compiler (it is not on ARM) and matters for the
  right shifts, so it is part of the environment.
\<close>

section \<open>Pins\<close>

text \<open>\<open>src/final/pins.hpp\<close>, and the two chip selects of the SPI unit.\<close>

definition ADC_0_CS :: RPiGPIOPin where "ADC_0_CS = RPI_V2_GPIO_P1_26"
definition ADC_1_CS :: RPiGPIOPin where "ADC_1_CS = RPI_V2_GPIO_P1_24"
definition ADC_2_CS :: RPiGPIOPin where "ADC_2_CS = RPI_V2_GPIO_P1_22"
definition MAIN_VALVE :: RPiGPIOPin where "MAIN_VALVE = RPI_V2_GPIO_P1_11"
definition WATER_VALVE :: RPiGPIOPin where "WATER_VALVE = RPI_V2_GPIO_P1_13"
definition VALVE_3 :: RPiGPIOPin where "VALVE_3 = RPI_V2_GPIO_P1_15"
definition GITVC_VALVE :: RPiGPIOPin where "GITVC_VALVE = RPI_V2_GPIO_P1_16"
definition IGN_START :: RPiGPIOPin where "IGN_START = RPI_V2_GPIO_P1_15"
definition LC_ADC :: RPiGPIOPin where "LC_ADC = ADC_2_CS"
definition PT_ADC :: RPiGPIOPin where "PT_ADC = ADC_1_CS"
definition TC_ADC :: RPiGPIOPin where "TC_ADC = ADC_1_CS"
definition TANK :: RPiGPIOPin where "TANK = RPI_V2_GPIO_P1_16"
definition VENT :: RPiGPIOPin where "VENT = RPI_V2_GPIO_P1_13"

definition SPI_CS_0 :: RPiGPIOPin where "SPI_CS_0 = RPI_V2_GPIO_P1_24"
definition SPI_CS_1 :: RPiGPIOPin where "SPI_CS_1 = RPI_V2_GPIO_P1_26"

lemmas pin_defs = ADC_0_CS_def ADC_1_CS_def ADC_2_CS_def MAIN_VALVE_def WATER_VALVE_def VALVE_3_def
  GITVC_VALVE_def IGN_START_def LC_ADC_def PT_ADC_def TC_ADC_def TANK_def VENT_def
  SPI_CS_0_def SPI_CS_1_def

section \<open>State and operations\<close>

record adc_info_t =
  pin :: RPiGPIOPin
  pad :: int
  single_channel :: bool
  channel :: "3 word"

definition adc_info_new :: "RPiGPIOPin \<Rightarrow> bool \<Rightarrow> byte \<Rightarrow> adc_info_t" where
  "adc_info_new p sc chan = \<lparr>pin = p, pad = 0, single_channel = sc, channel = ucast chan\<rparr>"

text \<open>\<open>adc_info_t()\<close> value-initialises every member.\<close>

definition adc_info_zero :: adc_info_t where
  "adc_info_zero = \<lparr>pin = GPIO_0, pad = 0, single_channel = False, channel = 0\<rparr>"

record adc_block =
  adc_cs_pin :: "RPiGPIOPin list"

text \<open>The library's \<open>RPI_BPLUS_GPIO_J8_24\<close>, the constructor's placeholder, is a parameter.\<close>

definition adc_block_new :: "RPiGPIOPin \<Rightarrow> nat \<Rightarrow> adc_block" where
  "adc_block_new j8_24 num_adcs = \<lparr>adc_cs_pin = replicate num_adcs j8_24\<rparr>"

text \<open>\<open>(char) 1 << 4 | (char) idx.single_channel << 3 | (char) idx.channel\<close>\<close>

definition command_byte :: "adc_info_t \<Rightarrow> byte" where
  "command_byte idx =
     push_bit 4 1 OR push_bit 3 (if single_channel idx then 1 else 0) OR ucast (channel idx)"

text \<open>
  The 12 bits of the answer, out of its bytes 1 and 2. \<open>promote\<close> is the conversion of \<open>char\<close> to
  \<open>int\<close>; \<open>out_value\<close> is first read with the low byte first, then its bytes are swapped.
\<close>

definition promote :: "bool \<Rightarrow> byte \<Rightarrow> 32 word" where
  "promote sg b = (if sg then scast b else ucast b)"

definition bswap_16 :: "16 word \<Rightarrow> 16 word" where
  "bswap_16 x = push_bit 8 x OR drop_bit 8 x"

definition decode_reading :: "bool \<Rightarrow> byte \<Rightarrow> byte \<Rightarrow> 16 word" where
  "decode_reading sg r1 r2 =
     (let readb2 = ucast ((signed_drop_bit 2 (promote sg r2) OR push_bit 6 (promote sg r1 AND 3)) AND 255) :: byte;
          readb1 = ucast (signed_drop_bit 2 (promote sg r1) AND 15) :: byte;
          out_value = ucast readb1 OR push_bit 8 (ucast readb2) :: 16 word
      in bswap_16 out_value)"

definition read_item :: "env \<Rightarrow> adc_info_t \<Rightarrow> event list \<Rightarrow> 16 word \<times> event list" where
  "read_item E idx tr =
     (let writeb = [command_byte idx, 0, 0];
          tr = (if pin idx = SPI_CS_0 then tr @ [Spi_chipSelect BCM2835_SPI_CS0]
                else if pin idx = SPI_CS_1 then tr @ [Spi_chipSelect BCM2835_SPI_CS1]
                else gpio_write (pin idx) LOW (tr @ [Spi_chipSelect BCM2835_SPI_CS_NONE]))
      in case spi_transfernb E writeb tr of (readb, tr) \<Rightarrow>
           (let tr = (if pin idx \<noteq> SPI_CS_0 \<and> pin idx \<noteq> SPI_CS_1 then gpio_write (pin idx) HIGH tr else tr)
            in (decode_reading (char_signed E) (readb ! 1) (readb ! 2), tr)))"

text \<open>The other overload: an ADC number outside the allocated array is undefined.\<close>

definition read_item_num ::
    "env \<Rightarrow> adc_block \<Rightarrow> nat \<Rightarrow> bool \<Rightarrow> byte \<Rightarrow> event list \<Rightarrow> error + (16 word \<times> event list)" where
  "read_item_num E blk adc_num sc chan tr =
     (if adc_num < length (adc_cs_pin blk) then
        Inr (read_item E \<lparr>pin = adc_cs_pin blk ! adc_num, pad = 0, single_channel = sc, channel = ucast chan\<rparr> tr)
      else Inl Undefined)"

definition register_pin :: "nat \<Rightarrow> RPiGPIOPin \<Rightarrow> adc_block \<Rightarrow> error + adc_block" where
  "register_pin adc_num pin_num blk =
     (if adc_num < length (adc_cs_pin blk) then
        Inr (blk\<lparr>adc_cs_pin := (adc_cs_pin blk)[adc_num := pin_num]\<rparr>)
      else Inl Undefined)"

section \<open>The value read\<close>

lemma byte_no_bit [simp]: "8 \<le> k \<Longrightarrow> \<not> bit (r :: byte) k"
  by (auto dest: bit_imp_le_length)

lemma upto_15: "n < 16 \<Longrightarrow> n \<in> {0, 1, 2, 3, 4, 5, 6, 7, 8, 9, 10, 11, 12, 13, 14, 15 :: nat}"
  by simp presburger

lemmas decode_bits = decode_reading_def promote_def bswap_16_def Let_def bit_simps bit_numeral_rec

lemma decode_unsigned:
  "decode_reading False r1 r2 = drop_bit 2 (push_bit 8 (ucast (r1 AND 63)) OR ucast r2)"
proof (rule bit_word_eqI)
  fix n assume "n < LENGTH(16)"
  then have "n \<in> {0, 1, 2, 3, 4, 5, 6, 7, 8, 9, 10, 11, 12, 13, 14, 15}" by (intro upto_15) simp
  then show "bit (decode_reading False r1 r2) n
      \<longleftrightarrow> bit (drop_bit 2 (push_bit 8 (ucast (r1 AND 63)) OR ucast r2) :: 16 word) n"
    by (elim insertE) (simp_all add: decode_bits)
qed

lemma decode_value:
  "unat (decode_reading False r1 r2) = ((unat r1 mod 64) * 256 + unat r2) div 4"
proof -
  let ?hi = "push_bit 8 (ucast (r1 AND 63)) :: 16 word" and ?lo = "ucast r2 :: 16 word"
  have "r1 AND 63 = take_bit 6 r1"
    by (simp add: take_bit_eq_mask mask_eq_exp_minus_1)
  then have r1: "unat (r1 AND 63) = unat r1 mod 64"
    by (simp add: unat_mod take_bit_eq_mod)
  have hi: "unat ?hi = (unat r1 mod 64) * 256"
    by (simp add: push_bit_eq_mult unat_word_ariths r1 unat_ucast_up)
  have lo: "unat ?lo = unat r2" and r2: "unat r2 < 256"
    using unsigned_less [of r2] by (simp_all add: unat_ucast_up)
  have "?hi OR ?lo = ?hi + ?lo"
    by (rule disjunctive_add [symmetric]) (auto simp: bit_simps)
  moreover have "unat (?hi + ?lo) = (unat r1 mod 64) * 256 + unat r2"
  proof -
    have "(unat r1 mod 64) * 256 + unat r2 < 2 ^ LENGTH(16)"
      using r2 mod_less_divisor [of 64 "unat r1"] by simp
    then show ?thesis using hi lo by (subst unat_add_no_wrap) simp_all
  qed
  ultimately show ?thesis
    by (simp add: decode_unsigned unat_div drop_bit_eq_div)
qed

lemma decode_bound: "unat (decode_reading False r1 r2) < 4096"
proof -
  have "unat r2 < 256" using unsigned_less [of r2] by simp
  then show ?thesis using mod_less_divisor [of 64 "unat r1"] by (simp add: decode_value)
qed

lemma command_byte_value:
  "unat (command_byte idx) = 16 + 8 * (if single_channel idx then 1 else 0) + unat (channel idx)"
proof -
  define k where "k = unat (channel idx)"
  have k: "channel idx = of_nat k" "k < 8"
    using unsigned_less [of "channel idx"] by (simp_all add: k_def)
  from k(2) have "k \<in> {0, 1, 2, 3, 4, 5, 6, 7}" by simp presburger
  then show ?thesis
    by (elim insertE) (simp_all add: command_byte_def k(1))
qed

text \<open>A reading returns with the chip deselected and leaves every other pin alone.\<close>

lemma read_item_pins:
  "pin_level (snd (read_item E idx tr)) p =
     (if p = pin idx \<and> pin idx \<noteq> SPI_CS_0 \<and> pin idx \<noteq> SPI_CS_1 then Some HIGH else pin_level tr p)"
  by (simp add: read_item_def Let_def spi_transfernb_def)

lemma read_item_fd_bytes: "fd_bytes (snd (read_item E idx tr)) fd = fd_bytes tr fd"
  by (simp add: read_item_def Let_def spi_transfernb_def gpio_write_def fd_bytes_one)

text \<open>
  Reading a channel is one SPI transfer, framed by its chip select, of the MCP3208 command
  (start bit, single-ended bit, channel number); the value is the 12 bits that the chip answers
  in bits 13 to 2 of the last two bytes, so it is below 4096, on a compiler with unsigned \<open>char\<close>.
\<close>

theorem read_item_value:
  assumes "\<not> char_signed E" and "read_item E idx tr = (v, tr')"
  shows "\<exists>pre r0 r1 r2 post. tr' = tr @ pre @ [Spi_transfernb [command_byte idx, 0, 0] [r0, r1, r2]] @ post
    \<and> unat (command_byte idx) = 16 + 8 * (if single_channel idx then 1 else 0) + unat (channel idx)
    \<and> unat v = ((unat r1 mod 64) * 256 + unat r2) div 4 \<and> unat v < 4096
    \<and> (pre, post) = (if pin idx = SPI_CS_0 then ([Spi_chipSelect BCM2835_SPI_CS0], [])
          else if pin idx = SPI_CS_1 then ([Spi_chipSelect BCM2835_SPI_CS1], [])
          else ([Spi_chipSelect BCM2835_SPI_CS_NONE, Gpio_write (pin idx) LOW], [Gpio_write (pin idx) HIGH]))"
proof -
  define pre where "pre = (if pin idx = SPI_CS_0 then [Spi_chipSelect BCM2835_SPI_CS0]
    else if pin idx = SPI_CS_1 then [Spi_chipSelect BCM2835_SPI_CS1]
    else [Spi_chipSelect BCM2835_SPI_CS_NONE, Gpio_write (pin idx) LOW])"
  define post where "post = (if pin idx \<noteq> SPI_CS_0 \<and> pin idx \<noteq> SPI_CS_1
    then [Gpio_write (pin idx) HIGH] else [])"
  define r where "r = env_spi E (tr @ pre) [command_byte idx, 0, 0]"
  have three: "map f [0..<3] = [f 0, f 1, f 2]" for f :: "nat \<Rightarrow> byte"
    by (simp add: upt_rec numeral_2_eq_2)
  have "read_item E idx tr = (decode_reading False (r 1) (r 2),
      tr @ pre @ [Spi_transfernb [command_byte idx, 0, 0] [r 0, r 1, r 2]] @ post)"
    using assms(1) by (auto simp: read_item_def Let_def spi_transfernb_def gpio_write_def pre_def post_def r_def
        three numeral_3_eq_3 [symmetric])
  with assms(2) show ?thesis
    using decode_value [of "r 1" "r 2"] decode_bound [of "r 1" "r 2"]
    by (intro exI [of _ pre] exI [of _ "r 0"] exI [of _ "r 1"] exI [of _ "r 2"] exI [of _ post])
      (auto simp: command_byte_value pre_def post_def)
qed

theorem read_item_value_witness:
  "unat (fst (read_item (sample_env\<lparr>env_spi := \<lambda>tr bs i. 129\<rparr>) (adc_info_new LC_ADC True 3) [])) < 4096"
proof -
  obtain v tr' where r: "read_item (sample_env\<lparr>env_spi := \<lambda>tr bs i. 129\<rparr>) (adc_info_new LC_ADC True 3) []
      = (v, tr')" by (meson surj_pair)
  have "\<not> char_signed (sample_env\<lparr>env_spi := \<lambda>tr bs i. 129\<rparr>)" by (simp add: sample_env_def)
  from read_item_value [OF this r] r show ?thesis by auto
qed

text \<open>
  On a compiler with signed \<open>char\<close> the same code decodes a different value exactly when the
  last byte is 128 or more and the two bits above it are not both set: the right shift then
  drags the sign into them.
\<close>

theorem decode_signed_char_differs:
  "decode_reading True r1 r2 \<noteq> decode_reading False r1 r2 \<longleftrightarrow> bit r2 7 \<and> r1 AND 3 \<noteq> 3"
proof -
  have bits: "bit (decode_reading True r1 r2) n \<longleftrightarrow>
      bit (decode_reading False r1 r2) n \<or> (n = 6 \<or> n = 7) \<and> bit r2 7" if n: "n < 16" for n
    using upto_15 [OF n] by (elim insertE) (auto simp: decode_bits)
  have high: "bit (decode_reading False r1 r2) 6 \<longleftrightarrow> bit r1 0"
    "bit (decode_reading False r1 r2) 7 \<longleftrightarrow> bit r1 1"
    by (auto simp: decode_bits)
  have "decode_reading True r1 r2 = decode_reading False r1 r2 \<longleftrightarrow>
      (\<forall>n < 16. bit (decode_reading True r1 r2) n \<longleftrightarrow> bit (decode_reading False r1 r2) n)"
    by (auto intro: bit_word_eqI)
  also have "\<dots> \<longleftrightarrow> (bit r2 7 \<longrightarrow> bit r1 0 \<and> bit r1 1)"
  proof
    assume eq: "\<forall>n < 16. bit (decode_reading True r1 r2) n \<longleftrightarrow> bit (decode_reading False r1 r2) n"
    show "bit r2 7 \<longrightarrow> bit r1 0 \<and> bit r1 1"
      using eq [rule_format, of 6] eq [rule_format, of 7] bits [of 6] bits [of 7] high by auto
  qed (use bits high in auto)
  also have "bit r1 0 \<and> bit r1 1 \<longleftrightarrow> r1 AND 3 = 3"
  proof
    assume "bit r1 0 \<and> bit r1 1"
    then show "r1 AND 3 = 3"
      by (intro bit_word_eqI) (auto simp: bit_simps bit_numeral_rec less_Suc_eq split: nat.splits)
  next
    assume "r1 AND 3 = 3"
    then have "bit (r1 AND 3) 0 \<and> bit (r1 AND 3) 1" by (simp add: bit_numeral_rec)
    then show "bit r1 0 \<and> bit r1 1" by (simp add: bit_and_iff)
  qed
  finally show ?thesis by blast
qed

end
