(* ===== verification/TimedItems.thy ===== *)
theory TimedItems
  imports CircularBuffer QueueItems AdcBlock
begin

text \<open>
  \<open>src/final/timed_item.hpp\<close>, \<open>timed_item_list.hpp\<close> and their \<open>.cpp\<close> files: the periodic tasks
  of the worker, one per sensor and one per stage of a burn, and the table that finds them by
  action. The rings allocated with \<open>new\<close> live in a heap, a list of buffers; a pointer is an
  index of it. The list's member copies of the items (\<open>lc_main_ti\<close> and so on) are only used to
  fill the array and are left out.
\<close>

section \<open>Items\<close>

definition LC_MAIN_T :: int where "LC_MAIN_T = 500"
definition LC1_T :: int where "LC1_T = 1000"
definition PT_FEED_T :: int where "PT_FEED_T = 1000"
definition TC1_T :: int where "TC1_T = 20000"
definition MAX_TIMED_LIST_LEN :: nat where "MAX_TIMED_LIST_LEN = 20"
definition TI_COUNT :: nat where "TI_COUNT = 13"

record timed_item =
  scheduled :: timestamp_t
  time_delay :: timestamp_t
  ti_buffer :: "nat option"
  adc_info :: adc_info_t
  ti_action :: work_queue_item_action
  enabled :: bool
  last_send :: timestamp_t
  nbytes_last_send :: size_t

definition timed_item_new ::
    "timestamp_t \<Rightarrow> int \<Rightarrow> nat option \<Rightarrow> adc_info_t \<Rightarrow> work_queue_item_action \<Rightarrow> bool \<Rightarrow> timestamp_t
     \<Rightarrow> timed_item" where
  "timed_item_new sched del bf adc act en ls =
     \<lparr>scheduled = sched, time_delay = word_of_int del, ti_buffer = bf, adc_info = adc,
      ti_action = act, enabled = en, last_send = ls, nbytes_last_send = 0\<rparr>"

definition ti_enable :: "timestamp_t \<Rightarrow> timed_item \<Rightarrow> timed_item" where
  "ti_enable now ti = ti\<lparr>scheduled := now, enabled := True\<rparr>"

definition ti_disable :: "timed_item \<Rightarrow> timed_item" where
  "ti_disable ti = ti\<lparr>enabled := False\<rparr>"

section \<open>The list\<close>

record timed_item_list =
  til_length :: nat
  buff_size :: size_t
  actionMap :: "work_queue_item_action \<Rightarrow> nat option"
  tis :: "timed_item list"

text \<open>\<open>std::map::insert\<close> keeps an existing entry.\<close>

definition map_insert :: "'k \<Rightarrow> 'v \<Rightarrow> ('k \<Rightarrow> 'v option) \<Rightarrow> 'k \<Rightarrow> 'v option" where
  "map_insert k v m = (case m k of None \<Rightarrow> m(k \<mapsto> v) | Some _ \<Rightarrow> m)"

definition temp_ti_list :: "nat \<Rightarrow> timed_item list" where
  "temp_ti_list h =
     [timed_item_new 0 LC_MAIN_T (Some h) (adc_info_new LC_ADC True 0) lc_main True 0,
      timed_item_new 0 LC1_T (Some (h + 1)) (adc_info_new LC_ADC True 1) lc1 True 0,
      timed_item_new 0 LC1_T (Some (h + 2)) (adc_info_new LC_ADC True 3) lc2 True 0,
      timed_item_new 0 LC1_T (Some (h + 3)) (adc_info_new LC_ADC True 4) lc3 True 0,
      timed_item_new 0 PT_FEED_T (Some (h + 4)) (adc_info_new PT_ADC True 1) pt_inje True 0,
      timed_item_new 0 PT_FEED_T (Some (h + 5)) (adc_info_new PT_ADC True 2) pt_comb True 0,
      timed_item_new 0 PT_FEED_T (Some (h + 6)) (adc_info_new PT_ADC True 0) pt_feed True 0,
      timed_item_new 0 TC1_T (Some (h + 7)) (adc_info_new TC_ADC True 4) tc1 True 0,
      timed_item_new 0 TC1_T (Some (h + 8)) (adc_info_new TC_ADC True 5) tc2 True 0,
      timed_item_new 0 TC1_T (Some (h + 9)) (adc_info_new TC_ADC True 6) tc3 True 0,
      timed_item_new 0 0 None adc_info_zero ign2 False 0,
      timed_item_new 0 0 None adc_info_zero ign3 False 0,
      timed_item_new 0 0 None adc_info_zero gitvc False 0]"

text \<open>
  The constructor: ten rings go on the heap, in the order of the \<open>new\<close> expressions; \<open>junk\<close> is
  their indeterminate contents. Reading past the 13 items for a larger \<open>length\<close> is undefined.
\<close>

definition timed_item_list_new ::
    "nat \<Rightarrow> size_t \<Rightarrow> (nat \<Rightarrow> nat \<Rightarrow> byte) \<Rightarrow> circular_buffer list
     \<Rightarrow> error + (timed_item_list \<times> circular_buffer list)" where
  "timed_item_list_new len sz junk heap =
     (let h = length heap; ts = temp_ti_list h
      in if len > length ts then Inl Undefined
         else Inr (\<lparr>til_length = len, buff_size = sz,
                    actionMap = fold (\<lambda>i. map_insert (ti_action (ts ! i)) i) [0..<len] (\<lambda>k. None),
                    tis = ts\<rparr>,
                   heap @ map (\<lambda>i. circular_buffer_new sz (junk i)) [h..<h + 10]))"

text \<open>\<open>tis[actionMap.at(a)]\<close>: an unknown action throws \<open>std::out_of_range\<close>.\<close>

definition til_at :: "work_queue_item_action \<Rightarrow> timed_item_list \<Rightarrow> error + nat" where
  "til_at a til =
     (case actionMap til a of
        None \<Rightarrow> Inl Out_of_range
      | Some i \<Rightarrow> if i < length (tis til) then Inr i else Inl Undefined)"

definition til_update ::
    "work_queue_item_action \<Rightarrow> (timed_item \<Rightarrow> timed_item) \<Rightarrow> timed_item_list \<Rightarrow> error + timed_item_list" where
  "til_update a f til =
     (case til_at a til of
        Inl e \<Rightarrow> Inl e
      | Inr i \<Rightarrow> Inr (til\<lparr>tis := (tis til)[i := f (tis til ! i)]\<rparr>))"

definition til_enable :: "work_queue_item_action \<Rightarrow> timestamp_t \<Rightarrow> timed_item_list \<Rightarrow> error + timed_item_list" where
  "til_enable a now = til_update a (ti_enable now)"

definition til_disable :: "work_queue_item_action \<Rightarrow> timed_item_list \<Rightarrow> error + timed_item_list" where
  "til_disable a = til_update a ti_disable"

definition til_set_delay :: "work_queue_item_action \<Rightarrow> timestamp_t \<Rightarrow> timed_item_list \<Rightarrow> error + timed_item_list" where
  "til_set_delay a d = til_update a (\<lambda>ti. ti\<lparr>time_delay := d\<rparr>)"

definition til_get_status :: "work_queue_item_action \<Rightarrow> timed_item_list \<Rightarrow> error + bool" where
  "til_get_status a til =
     (case til_at a til of Inl e \<Rightarrow> Inl e | Inr i \<Rightarrow> Inr (enabled (tis til ! i)))"

section \<open>Well-formedness\<close>

text \<open>Where the constructor puts each action.\<close>

definition item_actions :: "work_queue_item_action list" where
  "item_actions = [lc_main, lc1, lc2, lc3, pt_inje, pt_comb, pt_feed, tc1, tc2, tc3, ign2, ign3, gitvc]"

fun action_index :: "work_queue_item_action \<Rightarrow> nat option" where
  "action_index lc_main = Some 0"
| "action_index lc1 = Some 1"
| "action_index lc2 = Some 2"
| "action_index lc3 = Some 3"
| "action_index pt_inje = Some 4"
| "action_index pt_comb = Some 5"
| "action_index pt_feed = Some 6"
| "action_index tc1 = Some 7"
| "action_index tc2 = Some 8"
| "action_index tc3 = Some 9"
| "action_index ign2 = Some 10"
| "action_index ign3 = Some 11"
| "action_index gitvc = Some 12"
| "action_index _ = None"

definition til_wf :: "timed_item_list \<Rightarrow> bool" where
  "til_wf til \<longleftrightarrow> actionMap til = action_index \<and> map ti_action (tis til) = item_actions"

lemma til_wf_length: "til_wf til \<Longrightarrow> length (tis til) = 13"
  by (auto simp: til_wf_def item_actions_def dest: arg_cong [where f = length])

lemma action_index_less: "action_index a = Some i \<Longrightarrow> i < 13"
  by (cases a) auto

lemma action_index_inj: "action_index a = Some i \<Longrightarrow> action_index b = Some i \<Longrightarrow> a = b"
  by (cases a; cases b) auto

lemma action_index_nth: "i < 13 \<Longrightarrow> action_index (item_actions ! i) = Some i"
  by (simp add: item_actions_def less_Suc_eq numeral_eq_Suc) (elim disjE; simp)

lemma til_wf_nth: "til_wf til \<Longrightarrow> i < 13 \<Longrightarrow> ti_action (tis til ! i) = item_actions ! i"
  by (metis nth_map til_wf_def til_wf_length)

lemma til_at_wf:
  assumes "til_wf til"
  shows "til_at a til = (case action_index a of None \<Rightarrow> Inl Out_of_range | Some i \<Rightarrow> Inr i)"
proof -
  have "actionMap til = action_index" using assms by (simp add: til_wf_def)
  with til_wf_length [OF assms] action_index_less [of a] show ?thesis
    by (simp add: til_at_def split: option.splits)
qed

text \<open>The item of an action, for the actions that have one.\<close>

definition til_item :: "work_queue_item_action \<Rightarrow> timed_item_list \<Rightarrow> timed_item" where
  "til_item a til = tis til ! the (action_index a)"

lemma til_wf_update:
  assumes "til_wf til" and "\<And>x. ti_action (f x) = ti_action x"
  shows "til_wf (til\<lparr>tis := (tis til)[i := f (tis til ! i)]\<rparr>)"
proof -
  have "map ti_action ((tis til)[i := f (tis til ! i)]) = map ti_action (tis til)"
    using assms(2) by (metis list_update_id map_update)
  with assms(1) show ?thesis by (simp add: til_wf_def)
qed

lemma til_update_wf:
  assumes "til_wf til" and "action_index a = Some i" and "\<And>x. ti_action (f x) = ti_action x"
  shows "til_update a f til = Inr (til\<lparr>tis := (tis til)[i := f (tis til ! i)]\<rparr>)"
    and "til_wf (til\<lparr>tis := (tis til)[i := f (tis til ! i)]\<rparr>)"
  using assms by (simp_all add: til_update_def til_at_wf til_wf_update)

text \<open>The same, as a function on tables that the handlers' proofs compute with.\<close>

definition til_upd :: "work_queue_item_action \<Rightarrow> (timed_item \<Rightarrow> timed_item) \<Rightarrow> timed_item_list \<Rightarrow> timed_item_list" where
  "til_upd a f til = til\<lparr>tis := (tis til)[the (action_index a) := f (til_item a til)]\<rparr>"

lemma til_upd_eq:
  assumes "til_wf til" and "action_index a = Some i"
  shows "(\<And>x. ti_action (f x) = ti_action x) \<Longrightarrow> til_update a f til = Inr (til_upd a f til)"
    and "(\<And>x. ti_action (f x) = ti_action x) \<Longrightarrow> til_wf (til_upd a f til)"
    and "action_index b = Some j \<Longrightarrow> til_item b (til_upd a f til) = (if b = a then f (til_item a til) else til_item b til)"
proof -
  show "til_update a f til = Inr (til_upd a f til)" "til_wf (til_upd a f til)"
    if "\<And>x. ti_action (f x) = ti_action x"
    using til_update_wf [OF assms, of f] that assms(2) by (simp_all add: til_upd_def til_item_def)
  show "til_item b (til_upd a f til) = (if b = a then f (til_item a til) else til_item b til)"
    if "action_index b = Some j"
    using that assms action_index_less action_index_inj til_wf_length [OF assms(1)]
    by (auto simp: til_upd_def til_item_def nth_list_update)
qed

lemma til_ops_eq:
  assumes "til_wf til" and "action_index a = Some i"
  shows "til_enable a u til = Inr (til_upd a (ti_enable u) til)"
    and "til_disable a til = Inr (til_upd a ti_disable til)"
    and "til_set_delay a d til = Inr (til_upd a (\<lambda>ti. ti\<lparr>time_delay := d\<rparr>) til)"
    and "til_wf (til_upd a (ti_enable u) til)" and "til_wf (til_upd a ti_disable til)"
    and "til_wf (til_upd a (\<lambda>ti. ti\<lparr>time_delay := d\<rparr>) til)"
    and "til_wf (til_upd a (\<lambda>ti. ti\<lparr>scheduled := u\<rparr>) til)"
  using til_upd_eq(1,2) [OF assms]
  by (simp_all add: til_enable_def til_disable_def til_set_delay_def ti_enable_def ti_disable_def)

section \<open>The contract of the table\<close>

text \<open>
  What the visitors rely on: an update of a known action succeeds, changes the item of that
  action only and keeps the table well-formed; an unknown action throws.
\<close>

locale item_table =
  fixes ok :: "'t \<Rightarrow> bool" and known :: "work_queue_item_action \<Rightarrow> bool"
    and item :: "work_queue_item_action \<Rightarrow> 't \<Rightarrow> timed_item"
    and upd :: "work_queue_item_action \<Rightarrow> (timed_item \<Rightarrow> timed_item) \<Rightarrow> 't \<Rightarrow> error + 't"
  assumes upd_law: "ok t \<Longrightarrow> known a \<Longrightarrow> (\<And>x. ti_action (f x) = ti_action x) \<Longrightarrow>
      \<exists>t'. upd a f t = Inr t' \<and> ok t'
        \<and> (\<forall>b. known b \<longrightarrow> item b t' = (if b = a then f (item a t) else item b t))"
    and upd_missing: "ok t \<Longrightarrow> \<not> known a \<Longrightarrow> upd a f t = Inl Out_of_range"
begin

text \<open>A block of updates acts on each item as the updates of that item, in order.\<close>

lemma updates_law:
  assumes "ok t" and "\<And>a f. (a, f) \<in> set us \<Longrightarrow> known a \<and> (\<forall>x. ti_action (f x) = ti_action x)"
  shows "\<exists>t'. exec (map (\<lambda>(a, f). upd a f) us) t = Inr t' \<and> ok t'
    \<and> (\<forall>b. known b \<longrightarrow> item b t' = fold (\<lambda>(a, f) x. if a = b then f x else x) us (item b t))"
  using assms
proof (induction us arbitrary: t)
  case Nil
  then show ?case by simp
next
  case (Cons u us)
  obtain a f where u: "u = (a, f)" by (cases u)
  with Cons.prems upd_law [of t a f] obtain t1 where
    t1: "upd a f t = Inr t1" "ok t1" "\<forall>b. known b \<longrightarrow> item b t1 = (if b = a then f (item a t) else item b t)"
    by force
  from Cons.IH [OF t1(2)] Cons.prems(2) obtain t' where
    "exec (map (\<lambda>(a, f). upd a f) us) t1 = Inr t'" "ok t'"
    "\<forall>b. known b \<longrightarrow> item b t' = fold (\<lambda>(a, f) x. if a = b then f x else x) us (item b t1)"
    by (meson list.set_intros(2))
  with t1 u show ?case by auto
qed

end

interpretation til: item_table til_wf "\<lambda>a. action_index a \<noteq> None" til_item til_update
proof unfold_locales
  fix t a and f :: "timed_item \<Rightarrow> timed_item"
  assume wf: "til_wf t" and "action_index a \<noteq> None" and f: "\<And>x. ti_action (f x) = ti_action x"
  then obtain i where i: "action_index a = Some i" by auto
  let ?t' = "t\<lparr>tis := (tis t)[i := f (tis t ! i)]\<rparr>"
  have "til_item b ?t' = (if b = a then f (til_item a t) else til_item b t)" if "action_index b \<noteq> None" for b
    using that i action_index_less action_index_inj til_wf_length [OF wf]
    by (auto simp: til_item_def nth_list_update)
  with til_update_wf [OF wf i, of f] f
  show "\<exists>t'. til_update a f t = Inr t' \<and> til_wf t'
      \<and> (\<forall>b. action_index b \<noteq> None \<longrightarrow> til_item b t' = (if b = a then f (til_item a t) else til_item b t))"
    by (intro exI [of _ ?t']) auto
qed (simp add: til_update_def til_at_wf)

section \<open>Properties\<close>

lemma tis_new:
  assumes "timed_item_list_new TI_COUNT sz junk heap = Inr (til, heap')"
  shows "tis til = temp_ti_list (length heap)" and "actionMap til = action_index"
    and "heap' = heap @ map (\<lambda>i. circular_buffer_new sz (junk i)) [length heap..<length heap + 10]"
proof -
  have "fold (\<lambda>i. map_insert (ti_action (temp_ti_list h ! i)) i) [0..<13] (\<lambda>k. None) = action_index" for h
  proof
    fix a
    show "fold (\<lambda>i. map_insert (ti_action (temp_ti_list h ! i)) i) [0..<13] (\<lambda>k. None) a = action_index a"
      by (cases a) (simp_all add: upt_rec temp_ti_list_def timed_item_new_def map_insert_def)
  qed
  with assms show "tis til = temp_ti_list (length heap)" "actionMap til = action_index"
    "heap' = heap @ map (\<lambda>i. circular_buffer_new sz (junk i)) [length heap..<length heap + 10]"
    by (auto simp: timed_item_list_new_def TI_COUNT_def Let_def split: if_splits)
qed

lemma til_new_wf: "timed_item_list_new TI_COUNT sz junk heap = Inr (til, heap') \<Longrightarrow> til_wf til"
  by (simp add: til_wf_def tis_new) (simp add: temp_ti_list_def timed_item_new_def item_actions_def)

text \<open>
  The constructor, called with \<open>TI_COUNT\<close>, gives a well-formed table: every action is found
  at the index of its item; the ten sensors are enabled, each with a ring of its own on the
  heap, and the three stages of a burn are disabled and have none.
\<close>

theorem timed_item_list_new_correct:
  "\<exists>til heap'. timed_item_list_new TI_COUNT sz junk heap = Inr (til, heap') \<and> til_wf til
    \<and> length heap' = length heap + 10
    \<and> list_all (\<lambda>i. enabled (tis til ! i) \<and> ti_buffer (tis til ! i) = Some (length heap + i)
          \<and> heap' ! (length heap + i) = circular_buffer_new sz (junk (length heap + i))) [0..<10]
    \<and> list_all (\<lambda>i. \<not> enabled (tis til ! i) \<and> ti_buffer (tis til ! i) = None) [10..<13]
    \<and> list_all (\<lambda>i. til_at (ti_action (tis til ! i)) til = Inr i) [0..<13]"
proof -
  have "length (temp_ti_list (length heap)) = 13" by (simp add: temp_ti_list_def)
  then obtain til heap' where new: "timed_item_list_new TI_COUNT sz junk heap = Inr (til, heap')"
    by (auto simp: timed_item_list_new_def TI_COUNT_def Let_def)
  note t = tis_new [OF new] and wf = til_new_wf [OF new]
  have "list_all (\<lambda>i. enabled (tis til ! i) \<and> ti_buffer (tis til ! i) = Some (length heap + i)) [0..<10]"
    "list_all (\<lambda>i. \<not> enabled (tis til ! i) \<and> ti_buffer (tis til ! i) = None) [10..<13]"
    by (simp_all add: t(1) temp_ti_list_def timed_item_new_def upt_rec)
  moreover have "list_all (\<lambda>i. heap' ! (length heap + i) = circular_buffer_new sz (junk (length heap + i))) [0..<10]"
    by (simp add: t(3) list_all_iff nth_append)
  moreover have "list_all (\<lambda>i. til_at (ti_action (tis til ! i)) til = Inr i) [0..<13]"
    using wf by (simp add: list_all_iff til_wf_nth til_at_wf action_index_nth)
  moreover have "length heap' = length heap + 10" by (simp add: t(3))
  ultimately show ?thesis using new wf by (auto simp: list_all_iff)
qed

text \<open>
  On a well-formed table \<open>enable\<close>, \<open>disable\<close> and \<open>set_delay\<close> of an action that has an item
  succeed, keep the table well-formed and change the status, start and delay of that item only;
  for any other action all of them throw \<open>std::out_of_range\<close> and so does \<open>get_status\<close>.
\<close>

theorem timed_item_list_operations:
  assumes "til_wf til"
  shows "if action_index a = None
    then til_enable a now til = Inl Out_of_range \<and> til_disable a til = Inl Out_of_range
      \<and> til_set_delay a d til = Inl Out_of_range \<and> til_get_status a til = Inl Out_of_range
    else \<exists>t1 t2 t3. til_enable a now til = Inr t1 \<and> til_disable a til = Inr t2
      \<and> til_set_delay a d til = Inr t3 \<and> til_wf t1 \<and> til_wf t2 \<and> til_wf t3
      \<and> til_get_status a t1 = Inr True \<and> scheduled (til_item a t1) = now
      \<and> time_delay (til_item a t1) = time_delay (til_item a til)
      \<and> til_get_status a t2 = Inr False \<and> til_get_status a t3 = til_get_status a til
      \<and> time_delay (til_item a t3) = d
      \<and> list_all (\<lambda>b. b = a \<or> til_item b t1 = til_item b til \<and> til_item b t2 = til_item b til
            \<and> til_item b t3 = til_item b til) item_actions"
proof (cases "action_index a")
  case None
  with assms show ?thesis
    by (simp add: til_enable_def til_disable_def til_set_delay_def til_get_status_def til_at_wf
        til.upd_missing)
next
  case (Some i)
  have status: "til_get_status a t = Inr (enabled (til_item a t))" if "til_wf t" for t
    using that Some by (simp add: til_get_status_def til_at_wf til_item_def)
  have known: "list_all (\<lambda>b. action_index b \<noteq> None) item_actions"
    by (simp add: item_actions_def)
  obtain t1 where t1: "til_enable a now til = Inr t1" "til_wf t1"
    "\<forall>b. action_index b \<noteq> None \<longrightarrow> til_item b t1 = (if b = a then ti_enable now (til_item a til) else til_item b til)"
    using til.upd_law [OF assms, of a "ti_enable now"] Some by (auto simp: til_enable_def ti_enable_def)
  obtain t2 where t2: "til_disable a til = Inr t2" "til_wf t2"
    "\<forall>b. action_index b \<noteq> None \<longrightarrow> til_item b t2 = (if b = a then ti_disable (til_item a til) else til_item b til)"
    using til.upd_law [OF assms, of a ti_disable] Some by (auto simp: til_disable_def ti_disable_def)
  obtain t3 where t3: "til_set_delay a d til = Inr t3" "til_wf t3"
    "\<forall>b. action_index b \<noteq> None \<longrightarrow>
       til_item b t3 = (if b = a then (til_item a til)\<lparr>time_delay := d\<rparr> else til_item b til)"
    using til.upd_law [OF assms, of a "\<lambda>x. x\<lparr>time_delay := d\<rparr>"] Some by (auto simp: til_set_delay_def)
  have "list_all (\<lambda>b. b = a \<or> til_item b t1 = til_item b til \<and> til_item b t2 = til_item b til
      \<and> til_item b t3 = til_item b til) item_actions"
    using known t1(3) t2(3) t3(3) by (simp add: list_all_iff)
  with Some assms t1 t2 t3 status show ?thesis by (simp add: ti_enable_def ti_disable_def)
qed

theorem timed_item_list_operations_witness:
  "til_enable ign1 5 \<lparr>til_length = 13, buff_size = 64, actionMap = action_index, tis = temp_ti_list 0\<rparr>
     = Inl Out_of_range
   \<and> (\<exists>t1. til_enable ign2 5 \<lparr>til_length = 13, buff_size = 64, actionMap = action_index, tis = temp_ti_list 0\<rparr>
     = Inr t1 \<and> til_get_status ign2 t1 = Inr True)"
proof -
  let ?t = "\<lparr>til_length = 13, buff_size = 64, actionMap = action_index, tis = temp_ti_list 0\<rparr>"
  have "til_wf ?t"
    by (simp add: til_wf_def temp_ti_list_def timed_item_new_def item_actions_def)
  from timed_item_list_operations [OF this, of ign1 5 0] timed_item_list_operations [OF this, of ign2 5 0]
  show ?thesis by auto
qed

end
