(* ===== verification/BuffLogger.thy ===== *)
theory BuffLogger
  imports CircularBuffer QueueItems
begin

text \<open>
  \<open>src/final/main_buff_logger.cpp\<close>: dumps the bytes of a send item into the binary log file of
  its sensor. The buffer behind a pointer comes from the heap; following a null or dangling
  pointer is undefined.
\<close>

section \<open>Operations\<close>

definition deref :: "circular_buffer list \<Rightarrow> nat option \<Rightarrow> error + circular_buffer" where
  "deref hp ptr =
     (case ptr of None \<Rightarrow> Inl Undefined
      | Some a \<Rightarrow> if a < length hp then Inr (hp ! a) else Inl Undefined)"

definition log_name :: "send_code option \<Rightarrow> string option" where
  "log_name h =
     (case h of
        Some lc_main_send \<Rightarrow> Some ''logs/lc_main.log''
      | Some lc1_send \<Rightarrow> Some ''logs/lc1.log''
      | Some lc2_send \<Rightarrow> Some ''logs/lc2.log''
      | Some lc3_send \<Rightarrow> Some ''logs/lc3.log''
      | Some pt_comb_send \<Rightarrow> Some ''logs/pt_comb.log''
      | Some pt_feed_send \<Rightarrow> Some ''logs/pt_feed.log''
      | Some pt_inje_send \<Rightarrow> Some ''logs/pt_inje.log''
      | Some tc1_send \<Rightarrow> Some ''logs/tc1.log''
      | Some tc2_send \<Rightarrow> Some ''logs/tc2.log''
      | Some tc3_send \<Rightarrow> Some ''logs/tc3.log''
      | _ \<Rightarrow> None)"

definition write_buff ::
    "env \<Rightarrow> circular_buffer list \<Rightarrow> nat option \<Rightarrow> send_code option \<Rightarrow> size_t \<Rightarrow> size_t \<Rightarrow> event list
     \<Rightarrow> error + (int \<times> event list)" where
  "write_buff E hp bf h n tot tr =
     (case log_name h of
        None \<Rightarrow> Inr (-1, tr)
      | Some fname \<Rightarrow>
          (case sys_open E fname tr of (fd, tr) \<Rightarrow>
             if fd < 0 then Inr (-1, tr)
             else
               (case deref hp bf of
                  Inl e \<Rightarrow> Inl e
                | Inr b \<Rightarrow>
                    (case write_data E b fd n tot tr of
                       Inl e \<Rightarrow> Inl e
                     | Inr (result, tr) \<Rightarrow> Inr (result, sys_close fd tr)))))"

definition write_from_nqi ::
    "env \<Rightarrow> circular_buffer list \<Rightarrow> network_queue_item \<Rightarrow> event list \<Rightarrow> error + (int \<times> event list)" where
  "write_from_nqi E hp nqi tr =
     write_buff E hp (nqi_buff nqi) (code_of (nqi_data0 nqi)) (nqi_nbytes nqi) (total_bytes nqi) tr"

section \<open>Lemmas\<close>

text \<open>Every sensor has a log file, and different sensors have different ones.\<close>

lemma log_name_sensor:
  assumes "send_code_for a = Some s"
  shows "\<exists>f. log_name (code_of (of_nat (wq_code a))) = Some f"
proof -
  have "code_of (of_nat (wq_code a)) = Some s"
    using assms by (cases a) (auto simp: code_of_iff)
  then show ?thesis using assms by (cases a) (auto simp: log_name_def)
qed

lemma log_name_inj: "log_name (Some a) = Some f \<Longrightarrow> log_name (Some b) = Some f \<Longrightarrow> a = b"
  by (cases a; cases b) (auto simp: log_name_def)

text \<open>Dumping returns whatever range is asked for, and drives no pin.\<close>

lemma write_buff_returns:
  assumes "\<And>a. bf = Some a \<Longrightarrow> a < length hp \<and> cb_wf (hp ! a)" and "bf \<noteq> None"
  shows "\<exists>r tr'. write_buff E hp bf h n tot tr = Inr (r, tr') \<and> quiet_after tr tr'"
proof (cases "log_name h")
  case None
  then show ?thesis by (auto simp: write_buff_def)
next
  case (Some fname)
  obtain fd tr1 where o: "sys_open E fname tr = (fd, tr1)" by (meson surj_pair)
  note q = quiet_calls(2) [OF o]
  obtain a where a: "bf = Some a" "a < length hp" "cb_wf (hp ! a)" using assms by auto
  from write_data_returns [OF a(3), of E fd n tot tr1] obtain r tr2 where
    w: "write_data E (hp ! a) fd n tot tr1 = Inr (r, tr2)" "quiet_after tr1 tr2" by auto
  have "quiet_after tr (sys_close fd tr2)"
    using q w(2) quiet_calls(3) by (blast intro: quiet_after_trans)
  with Some o q a w(1) show ?thesis by (auto simp: write_buff_def deref_def)
qed

end
