(* ===== verification/Timestamps.thy ===== *)
theory Timestamps
  imports Platform
begin

text \<open>
  \<open>src/util/timestamps.hpp\<close> and \<open>.cpp\<close>: microsecond time stamps relative to \<open>base_time\<close>, a
  file-level variable that is passed and returned here. \<open>time_t\<close> and \<open>suseconds_t\<close> are signed
  32-bit numbers, so their conversion to 64 bits extends the sign.
\<close>

definition get_time :: "env \<Rightarrow> timestamp_t \<Rightarrow> event list \<Rightarrow> timestamp_t \<times> event list" where
  "get_time E base_time tr =
     (case gettimeofday E tr of (tv, tr') \<Rightarrow>
        (scast (tv_sec tv) * 1000000 + scast (tv_usec tv) - base_time, tr'))"

definition set_base_time :: "env \<Rightarrow> timestamp_t \<Rightarrow> event list \<Rightarrow> timestamp_t \<times> event list" where
  "set_base_time E base_time tr = get_time E base_time tr"

lemma get_time_quiet: "get_time E base tr = (t, tr') \<Longrightarrow> quiet_after tr tr'"
  by (auto simp: get_time_def split: prod.splits dest: quiet_calls(7))

lemma get_time_fd_bytes: "get_time E base tr = (t, tr') \<Longrightarrow> fd_bytes tr' fd = fd_bytes tr fd"
  by (auto simp: get_time_def gettimeofday_def Let_def fd_bytes_one)

section \<open>Microseconds as a number\<close>

definition usecs :: "timeval \<Rightarrow> int" where
  "usecs tv = sint (tv_sec tv) * 1000000 + sint (tv_usec tv)"

definition tv_ok :: "timeval \<Rightarrow> bool" where
  "tv_ok tv \<longleftrightarrow> 0 \<le> sint (tv_sec tv) \<and> 0 \<le> sint (tv_usec tv) \<and> sint (tv_usec tv) < 1000000"

lemma get_time_value:
  "fst (get_time E base tr) = word_of_int (usecs (env_time E tr)) - base"
  by (simp add: get_time_def gettimeofday_def Let_def usecs_def)

lemma usecs_bounds:
  assumes "tv_ok tv"
  shows "0 \<le> usecs tv" and "usecs tv < 2 ^ 52"
proof -
  have "sint (tv_sec tv) < 2 ^ 31"
    using sint_range_size [of "tv_sec tv"] by (simp add: word_size)
  with assms show "usecs tv < 2 ^ 52" "0 \<le> usecs tv" by (auto simp: usecs_def tv_ok_def)
qed

text \<open>
  After \<open>set_base_time\<close> at program start, \<open>get_time\<close> is the number of microseconds since
  then, exactly, whenever the system clock has not gone back.
\<close>

theorem get_time_since_base:
  assumes "set_base_time E 0 tr0 = (base, tr1)"
    and "tv_ok (env_time E tr0)" and "tv_ok (env_time E tr)"
    and "usecs (env_time E tr0) \<le> usecs (env_time E tr)"
  shows "int (unat (fst (get_time E base tr))) = usecs (env_time E tr) - usecs (env_time E tr0)"
proof -
  have base: "base = word_of_int (usecs (env_time E tr0))"
    using assms(1) get_time_value [of E 0 tr0] by (simp add: set_base_time_def)
  define d where "d = usecs (env_time E tr) - usecs (env_time E tr0)"
  have "0 \<le> d" "d < 2 ^ 52" using assms(4) usecs_bounds [OF assms(2)] usecs_bounds [OF assms(3)]
    by (simp_all add: d_def)
  then have "d mod 18446744073709551616 = d" by (intro mod_pos_pos_trivial) simp_all
  moreover have "fst (get_time E base tr) = word_of_int d"
    by (simp add: get_time_value base d_def)
  ultimately show ?thesis by (simp add: uint_word_of_int flip: d_def)
qed

theorem get_time_since_base_witness:
  "int (unat (fst (get_time sample_env 0 [Bcm_init True, Spi_begin True]))) = 2000000"
proof -
  have "set_base_time sample_env 0 [] = (0, [Clock \<lparr>tv_sec = 0, tv_usec = 0\<rparr>])"
    by (simp add: set_base_time_def get_time_def gettimeofday_def sample_env_def Let_def)
  then show ?thesis
    using get_time_since_base [of sample_env "[]" 0 _ "[Bcm_init True, Spi_begin True]"]
    by (simp add: tv_ok_def usecs_def sample_env_def)
qed

end
