(* ===== verification/SafeQueue.thy ===== *)
theory SafeQueue
  imports Prelude
begin

text \<open>
  \<open>src/server/safe_queue.hpp\<close>: a FIFO queue behind a mutex. Each operation holds the lock from
  its first to its last line, so an operation is one atomic step; \<open>dequeue\<close> on an empty queue
  waits, which is \<open>None\<close> here, and \<open>poll\<close> returns the null item instead.
\<close>

section \<open>State and operations\<close>

record 'a safe_queue =
  null_item :: 'a
  q :: "'a list"

definition safe_queue_new :: "'a \<Rightarrow> 'a safe_queue" where
  "safe_queue_new null = \<lparr>null_item = null, q = []\<rparr>"

definition enqueue :: "'a \<Rightarrow> 'a safe_queue \<Rightarrow> 'a safe_queue" where
  "enqueue t s = s\<lparr>q := q s @ [t]\<rparr>"

definition dequeue :: "'a safe_queue \<Rightarrow> ('a \<times> 'a safe_queue) option" where
  "dequeue s = (case q s of [] \<Rightarrow> None | v # vs \<Rightarrow> Some (v, s\<lparr>q := vs\<rparr>))"

definition poll :: "'a safe_queue \<Rightarrow> 'a \<times> 'a safe_queue" where
  "poll s = (case q s of [] \<Rightarrow> (null_item s, s) | v # vs \<Rightarrow> (v, s\<lparr>q := vs\<rparr>))"

lemma enqueue_fields [simp]:
  "q (enqueue t s) = q s @ [t]" "null_item (enqueue t s) = null_item s"
  by (simp_all add: enqueue_def)

lemma q_new [simp]: "q (safe_queue_new null) = []" "null_item (safe_queue_new null) = null"
  by (simp_all add: safe_queue_new_def)

lemma poll_null_item: "poll s = (v, s') \<Longrightarrow> null_item s' = null_item s"
  by (auto simp: poll_def split: list.splits)

lemma poll_cases:
  assumes "poll s = (v, s')"
  obtains (empty) "q s = []" "v = null_item s" "s' = s"
  | (item) vs where "q s = v # vs" "s' = s\<lparr>q := vs\<rparr>"
proof (cases "q s")
  case Nil
  then have "poll s = (null_item s, s)" by (simp add: poll_def)
  with assms have "v = null_item s" "s' = s" by (metis prod.inject)+
  with Nil show thesis by (intro empty)
next
  case (Cons w ws)
  then have "poll s = (w, s\<lparr>q := ws\<rparr>)" by (simp add: poll_def)
  with assms have "v = w" "s' = s\<lparr>q := ws\<rparr>" by simp_all
  with Cons show thesis by (intro item) simp_all
qed

section \<open>The contract\<close>

text \<open>
  What the producers and consumers rely on: a queue with a content list that \<open>enq\<close> extends at
  the end and \<open>take1\<close> shortens at the front.
\<close>

datatype 'a qop = Enq 'a | Poll

fun run_ops ::
    "('a \<Rightarrow> 'q \<Rightarrow> 'q) \<Rightarrow> ('q \<Rightarrow> ('a \<times> 'q)) \<Rightarrow> 'a qop list \<Rightarrow> 'q \<Rightarrow> 'a list \<times> 'q" where
  "run_ops enq take1 [] s = ([], s)"
| "run_ops enq take1 (Enq x # ops) s = run_ops enq take1 ops (enq x s)"
| "run_ops enq take1 (Poll # ops) s =
     (case take1 s of (v, s') \<Rightarrow>
        (case run_ops enq take1 ops s' of (vs, s'') \<Rightarrow> (v # vs, s'')))"

fun enqueued :: "'a qop list \<Rightarrow> 'a list" where
  "enqueued [] = []"
| "enqueued (Enq x # ops) = x # enqueued ops"
| "enqueued (Poll # ops) = enqueued ops"

locale fifo =
  fixes contents :: "'q \<Rightarrow> 'a list" and null :: "'q \<Rightarrow> 'a"
    and enq :: "'a \<Rightarrow> 'q \<Rightarrow> 'q" and take1 :: "'q \<Rightarrow> 'a \<times> 'q"
  assumes enq_contents: "contents (enq x s) = contents s @ [x]"
    and enq_null: "null (enq x s) = null s"
    and take1_empty: "contents s = [] \<Longrightarrow> take1 s = (null s, s)"
    and take1_item: "contents s = v # vs \<Longrightarrow>
      \<exists>s'. take1 s = (v, s') \<and> contents s' = vs \<and> null s' = null s"
begin

text \<open>
  Nothing is lost, duplicated or reordered, however the calls of the two threads interleave:
  apart from null items, what came out followed by what is left is what was there followed by
  what went in.
\<close>

lemma run_ops_conserves:
  assumes "run_ops enq take1 ops s = (vs, s')" and "null s = z"
    and "z \<notin> set (contents s)" and "z \<notin> set (enqueued ops)"
  shows "filter (\<lambda>v. v \<noteq> z) vs @ contents s' = contents s @ enqueued ops"
  using assms
proof (induction ops arbitrary: s vs rule: enqueued.induct)
  case 1
  then show ?case by simp
next
  case (2 x ops)
  then show ?case by (auto simp: enq_contents enq_null)
next
  case (3 ops)
  show ?case
  proof (cases "contents s")
    case Nil
    with 3 show ?thesis by (auto simp: take1_empty split: prod.splits)
  next
    case (Cons v rest)
    then obtain u where u: "take1 s = (v, u)" "contents u = rest" "null u = null s"
      using take1_item by blast
    with "3.prems" obtain ws where "vs = v # ws" "run_ops enq take1 ops u = (ws, s')"
      by (auto split: prod.splits)
    with 3 u Cons show ?thesis by auto
  qed
qed

end

interpretation sq: fifo q null_item enqueue poll
  by unfold_locales (auto simp: poll_def)

text \<open>
  C29. Under any interleaving of \<open>enqueue\<close> and \<open>poll\<close>, the items polled (null items apart) and
  then the items still queued are exactly the items that were queued and then enqueued, in
  that order: the queue is FIFO and neither loses nor repeats an item.
\<close>

theorem safe_queue_fifo:
  assumes "run_ops enqueue poll ops s = (vs, s')"
    and "null_item s \<notin> set (q s)" and "null_item s \<notin> set (enqueued ops)"
  shows "filter (\<lambda>v. v \<noteq> null_item s) vs @ q s' = q s @ enqueued ops"
  using sq.run_ops_conserves [OF assms(1) refl assms(2,3)] .

theorem safe_queue_fifo_witness:
  "filter (\<lambda>v. v \<noteq> 0) [0, 7, 8 :: nat] @ q \<lparr>null_item = 0, q = [9]\<rparr> = [] @ [7, 8, 9]"
proof -
  let ?ops = "[Poll, Enq 7, Enq 8, Poll, Poll, Enq (9 :: nat)]"
  have "run_ops enqueue poll ?ops (safe_queue_new 0) = ([0, 7, 8], \<lparr>null_item = 0, q = [9]\<rparr>)"
    by (simp add: poll_def enqueue_def safe_queue_new_def)
  from safe_queue_fifo [OF this] show ?thesis by simp
qed

end
