(* ===== verification/Process.thy ===== *)
theory Process
  imports CircularBuffer Timestamps SafeQueue QueueItems
begin

text \<open>
  What the two threads of the program share: the two queues, the heap of rings, \<open>base_time\<close>, the
  object of the network thread (the worker reads its \<open>connected\<close>) and the trace of what was done
  to the outside. The visitor objects extend this record, so that a method of either thread works
  on the shared part in place, and the record of a derived class extends that of its base class.
\<close>

text \<open>\<open>src/server/network_worker.hpp\<close>: the members of the network worker.\<close>

record pollfd =
  pf_fd :: int
  pf_events :: "16 word"
  pf_revents :: "16 word"

record network_worker =
  port :: int
  connfd_tcp :: int
  connfd_udp :: int
  connected :: bool
  timeout :: timestamp_t
  last_recv :: timestamp_t
  pf :: pollfd
  has_acked :: bool

record process =
  qn :: "network_queue_item safe_queue"
  qw :: "work_queue_item safe_queue"
  heap :: "circular_buffer list"
  base_time :: timestamp_t
  nw :: network_worker
  trace :: "event list"

definition gpio :: "RPiGPIOPin \<Rightarrow> gpio_level \<Rightarrow> 'a process_scheme \<Rightarrow> error + 'a process_scheme" where
  "gpio p v s = Inr (s\<lparr>trace := gpio_write p v (trace s)\<rparr>)"

definition push_qw :: "work_queue_item \<Rightarrow> 'a process_scheme \<Rightarrow> error + 'a process_scheme" where
  "push_qw item s = Inr (s\<lparr>qw := enqueue item (qw s)\<rparr>)"

definition push_qn :: "network_queue_item \<Rightarrow> 'a process_scheme \<Rightarrow> error + 'a process_scheme" where
  "push_qn item s = Inr (s\<lparr>qn := enqueue item (qn s)\<rparr>)"

lemmas process_stmts = gpio_def push_qw_def push_qn_def

text \<open>All rings of the heap are well-formed.\<close>

definition heap_wf :: "circular_buffer list \<Rightarrow> bool" where
  "heap_wf hp \<longleftrightarrow> list_all cb_wf hp"

lemma heap_wf_nth: "heap_wf hp \<Longrightarrow> a < length hp \<Longrightarrow> cb_wf (hp ! a)"
  by (simp add: heap_wf_def list_all_length)

lemma heap_wf_update: "heap_wf hp \<Longrightarrow> cb_wf b \<Longrightarrow> heap_wf (hp[a := b])"
  by (cases "a < length hp") (auto simp: heap_wf_def list_all_length nth_list_update)

text \<open>The items of the queues point to what exists, and no acknowledgement is ever asked for.\<close>

definition wqi_ok :: "work_queue_item \<Rightarrow> bool" where
  "wqi_ok item \<longleftrightarrow> (wqi_action item = wq_timed \<longrightarrow> (\<exists>i < 13. extra_datap item = Some i))"

definition nqi_ok :: "nat \<Rightarrow> network_queue_item \<Rightarrow> bool" where
  "nqi_ok n item \<longleftrightarrow> nqi_action item \<noteq> nq_send_ack
     \<and> (nqi_action item = nq_send \<longrightarrow>
          (\<exists>a < n. nqi_buff item = Some a) \<and> (\<exists>c. nqi_data0 item = of_nat (wq_code c) \<and> send_code_for c \<noteq> None))"

definition queues_ok :: "'a process_scheme \<Rightarrow> bool" where
  "queues_ok s \<longleftrightarrow>
     null_item (qw s) = null_wqi \<and> list_all wqi_ok (q (qw s))
     \<and> null_item (qn s) = null_nqi \<and> list_all (nqi_ok (length (heap s))) (q (qn s))"

text \<open>A small concrete process for the witnesses.\<close>

definition sample_ring :: circular_buffer where
  "sample_ring = \<lparr>nbytes = 64, bytes_written = 0, data = replicate 64 0\<rparr>"

definition sample_network :: network_worker where
  "sample_network = \<lparr>port = 1234, connfd_tcp = 5, connfd_udp = -1, connected = True, timeout = 0, last_recv = 0,
     pf = \<lparr>pf_fd = 5, pf_events = 5, pf_revents = 0\<rparr>, has_acked = False\<rparr>"

definition sample_process :: process where
  "sample_process = \<lparr>qn = safe_queue_new null_nqi, qw = safe_queue_new null_wqi,
     heap = replicate 10 sample_ring, base_time = 0, nw = sample_network, trace = []\<rparr>"

end
