(* ===== verification/WorkerVisitor.thy ===== *)
theory WorkerVisitor
  imports TimedItems BuffLogger Process
begin

text \<open>
  \<open>src/visitor/worker_visitor.hpp\<close> and \<open>.cpp\<close>: the handlers of the worker thread that both
  engines share. A method is a statement on the visitor's state; \<open>visitProc\<close>, \<open>visitTimed\<close> and
  \<open>visitIgn\<close> are virtual, so \<open>visit\<close> takes the overriding ones as arguments. The calls of the
  text logger are left out: they read the state and change none of it.
\<close>

section \<open>State\<close>

text \<open>The configuration variables; \<open>preignite_us\<close> and \<open>hotflow_us\<close> are set by \<open>main\<close>.\<close>

record config =
  engine_type :: int
  time_between_gitvc :: int
  gitvc_wait_time :: int
  pressure_slope :: rat
  pressure_yint :: rat
  pressure_min :: int
  pressure_max :: int
  preignite_us :: int
  hotflow_us :: int
  ignition_on :: bool
  pressure_shutoff :: bool
  use_gitvc :: bool
  gitvc_times :: "int list"

record adc_reading =
  adc_dat :: timestamp_t
  adc_t :: "64 word"

record worker_visitor = process +
  nq_item :: network_queue_item
  adc_data :: adc_reading
  now :: timestamp_t
  ti_list :: timed_item_list
  start_time_nitr :: timestamp_t
  pressure_avg :: rat
  burn_on :: bool

definition SEND_TIME :: int where "SEND_TIME = 500000"

section \<open>Statements\<close>

text \<open>\<open>now = get_time()\<close>\<close>

definition read_clock :: "env \<Rightarrow> 'a worker_visitor_scheme \<Rightarrow> error + 'a worker_visitor_scheme" where
  "read_clock E s =
     (case get_time E (base_time s) (trace s) of (u, tr) \<Rightarrow> Inr (s\<lparr>now := u, trace := tr\<rparr>))"

text \<open>A call on \<open>ti_list\<close>.\<close>

definition on_list ::
    "(timed_item_list \<Rightarrow> error + timed_item_list) \<Rightarrow> 'a worker_visitor_scheme \<Rightarrow> error + 'a worker_visitor_scheme" where
  "on_list f s = (case f (ti_list s) of Inl e \<Rightarrow> Inl e | Inr l \<Rightarrow> Inr (s\<lparr>ti_list := l\<rparr>))"

definition enable_now ::
    "work_queue_item_action \<Rightarrow> 'a worker_visitor_scheme \<Rightarrow> error + 'a worker_visitor_scheme" where
  "enable_now a s = on_list (til_enable a (now s)) s"

text \<open>\<open>ti = wq_item.extra_datap\<close>, and what is done through \<open>ti\<close>.\<close>

definition with_ti ::
    "work_queue_item \<Rightarrow> (nat \<Rightarrow> 'a worker_visitor_scheme \<Rightarrow> error + 'a worker_visitor_scheme)
     \<Rightarrow> 'a worker_visitor_scheme \<Rightarrow> error + 'a worker_visitor_scheme" where
  "with_ti item body s =
     (case extra_datap item of
        None \<Rightarrow> Inl Undefined
      | Some i \<Rightarrow> if i < length (tis (ti_list s)) then body i s else Inl Undefined)"

definition ti_at :: "nat \<Rightarrow> 'a worker_visitor_scheme \<Rightarrow> timed_item" where
  "ti_at i s = tis (ti_list s) ! i"

definition set_ti ::
    "nat \<Rightarrow> ('a worker_visitor_scheme \<Rightarrow> timed_item \<Rightarrow> timed_item)
     \<Rightarrow> 'a worker_visitor_scheme \<Rightarrow> error + 'a worker_visitor_scheme" where
  "set_ti i f s =
     Inr (s\<lparr>ti_list := (ti_list s)\<lparr>tis := (tis (ti_list s))[i := f s (ti_at i s)]\<rparr>\<rparr>)"

section \<open>\<open>check_ti_list\<close>\<close>

text \<open>The test of the loop: enabled, started and its delay over, in 64-bit arithmetic.\<close>

definition due :: "timestamp_t \<Rightarrow> timed_item \<Rightarrow> bool" where
  "due u ti \<longleftrightarrow> enabled ti \<and> u > scheduled ti \<and> u - scheduled ti > time_delay ti"

definition timed_wqi :: "nat \<Rightarrow> work_queue_item" where
  "timed_wqi i = null_wqi\<lparr>wqi_action := wq_timed, extra_datap := Some i\<rparr>"

function check_ti_list_from ::
    "timestamp_t \<Rightarrow> nat \<Rightarrow> nat \<Rightarrow> 'a worker_visitor_scheme \<Rightarrow> error + 'a worker_visitor_scheme" where
  "check_ti_list_from u i ti_seen s =
     (if i < MAX_TIMED_LIST_LEN \<and> ti_seen < TI_COUNT then
        (if i < length (tis (ti_list s)) then
           (if ti_action (ti_at i s) \<noteq> wq_none then
              (if due u (ti_at i s)
               then check_ti_list_from u (i + 1) (ti_seen + 1) (s\<lparr>qw := enqueue (timed_wqi i) (qw s)\<rparr>)
               else check_ti_list_from u (i + 1) (ti_seen + 1) s)
            else check_ti_list_from u (i + 1) ti_seen s)
         else Inl Undefined)
      else Inr s)"
  by pat_completeness auto
termination
  by (relation "measure (\<lambda>(u, i, ti_seen, s). MAX_TIMED_LIST_LEN - i)") auto

declare check_ti_list_from.simps [simp del]

definition check_ti_list :: "timestamp_t \<Rightarrow> 'a worker_visitor_scheme \<Rightarrow> error + 'a worker_visitor_scheme" where
  "check_ti_list u = check_ti_list_from u 0 0"

section \<open>The handlers\<close>

text \<open>
  \<open>visitProc\<close>: a command byte. The item is a reference to a local of the caller that is
  overwritten before its next use, so only the queued copies show the changed action.
\<close>

definition worker_visitProc :: "work_queue_item \<Rightarrow> 'a worker_visitor_scheme \<Rightarrow> error + 'a worker_visitor_scheme" where
  "worker_visitProc item =
     (case code_of (wqi_data0 item) of
        Some unset_valve \<Rightarrow> gpio MAIN_VALVE LOW
      | Some set_valve \<Rightarrow> gpio MAIN_VALVE HIGH
      | Some unset_ignition \<Rightarrow> exec [gpio IGN_START LOW, gpio MAIN_VALVE LOW]
      | Some set_ignition \<Rightarrow> gpio IGN_START HIGH
      | Some ign_normal \<Rightarrow> push_qw (item\<lparr>wqi_action := ign1\<rparr>)
      | _ \<Rightarrow> push_qw (item\<lparr>wqi_action := wq_none\<rparr>))"

text \<open>
  The running average: \<open>pt_cal\<close> is computed in \<open>float\<close>, the average in \<open>double\<close>, each operation
  rounded; the decimal constants are rounded too.
\<close>

definition new_pressure :: "env \<Rightarrow> config \<Rightarrow> timestamp_t \<Rightarrow> rat \<Rightarrow> rat" where
  "new_pressure E C x avg =
     (let pt_cal = rnd_float E (rnd_float E (pressure_slope C * rnd_float E (of_nat (unat x))) + pressure_yint C)
      in rnd_double E (rnd_double E (avg * rnd_double E (95 / 100))
           + rnd_double E (pt_cal * rnd_double E (5 / 100))))"

definition update_pressure :: "env \<Rightarrow> config \<Rightarrow> 'a worker_visitor_scheme \<Rightarrow> error + 'a worker_visitor_scheme" where
  "update_pressure E C s =
     Inr (s\<lparr>pressure_avg := new_pressure E C (adc_dat (adc_data s)) (pressure_avg s)\<rparr>)"

definition out_of_band :: "config \<Rightarrow> 'a worker_visitor_scheme \<Rightarrow> bool" where
  "out_of_band C s \<longleftrightarrow>
     (pressure_avg s > of_int (pressure_max C) \<or> pressure_avg s < of_int (pressure_min C)) \<and> burn_on s"

definition check_pressure :: "env \<Rightarrow> config \<Rightarrow> 'a worker_visitor_scheme \<Rightarrow> error + 'a worker_visitor_scheme" where
  "check_pressure E C =
     exec
       [update_pressure E C,
        when_s (out_of_band C)
          [when_s (\<lambda>s. now s - start_time_nitr s > 1000000)
             [gpio MAIN_VALVE LOW, gpio IGN_START LOW, gpio GITVC_VALVE HIGH,
              assign (burn_on_update (\<lambda>_. False))]]]"

definition read_adc :: "env \<Rightarrow> nat \<Rightarrow> 'a worker_visitor_scheme \<Rightarrow> error + 'a worker_visitor_scheme" where
  "read_adc E i s =
     (case read_item E (adc_info (ti_at i s)) (trace s) of
        (v, tr) \<Rightarrow> Inr (s\<lparr>adc_data := (adc_data s)\<lparr>adc_dat := ucast v\<rparr>, trace := tr\<rparr>))"

text \<open>The 16 bytes of an \<open>adc_reading\<close> in memory.\<close>

definition reading_bytes :: "adc_reading \<Rightarrow> byte list" where
  "reading_bytes r = le_bytes 8 (unat (adc_dat r)) @ le_bytes 8 (unat (adc_t r))"

definition store_reading :: "nat \<Rightarrow> 'a worker_visitor_scheme \<Rightarrow> error + 'a worker_visitor_scheme" where
  "store_reading i s =
     (case deref (heap s) (ti_buffer (ti_at i s)) of
        Inl e \<Rightarrow> Inl e
      | Inr b \<Rightarrow>
          (case add_data b (reading_bytes (adc_data s)) of
             Inl e \<Rightarrow> Inl e
           | Inr b' \<Rightarrow> Inr (s\<lparr>heap := (heap s)[the (ti_buffer (ti_at i s)) := b']\<rparr>)))"

text \<open>The two assignments of a send, with \<open>bw\<close> the ring's counter, and the copy to the log file.\<close>

definition nqi_for :: "network_queue_item \<Rightarrow> size_t \<Rightarrow> timed_item \<Rightarrow> network_queue_item" where
  "nqi_for item bw ti = item\<lparr>nqi_action := nq_send, nqi_nbytes := bw - nbytes_last_send ti,
     total_bytes := nbytes_last_send ti, nqi_data0 := of_nat (wq_code (ti_action ti)), nqi_buff := ti_buffer ti\<rparr>"

definition fill_nq_item :: "nat \<Rightarrow> size_t \<Rightarrow> 'a worker_visitor_scheme \<Rightarrow> error + 'a worker_visitor_scheme" where
  "fill_nq_item i bw s = Inr (s\<lparr>nq_item := nqi_for (nq_item s) bw (ti_at i s)\<rparr>)"

definition log_nq_item :: "env \<Rightarrow> 'a worker_visitor_scheme \<Rightarrow> error + 'a worker_visitor_scheme" where
  "log_nq_item E s =
     (case write_from_nqi E (heap s) (nq_item s) (trace s) of
        Inl e \<Rightarrow> Inl e | Inr (r, tr) \<Rightarrow> Inr (s\<lparr>trace := tr\<rparr>))"

definition send_data :: "env \<Rightarrow> nat \<Rightarrow> 'a worker_visitor_scheme \<Rightarrow> error + 'a worker_visitor_scheme" where
  "send_data E i s =
     (case deref (heap s) (ti_buffer (ti_at i s)) of
        Inl e \<Rightarrow> Inl e
      | Inr b \<Rightarrow>
          (let bw = bytes_written b
           in exec
                [fill_nq_item i bw,
                 set_ti i (\<lambda>s ti. ti\<lparr>nbytes_last_send := bw, last_send := now s\<rparr>),
                 when_s (\<lambda>s. connected (nw s) \<and> nqi_nbytes (nq_item s) > 0) [\<lambda>s. push_qn (nq_item s) s],
                 log_nq_item E] s))"

definition worker_visitTimed ::
    "env \<Rightarrow> config \<Rightarrow> work_queue_item \<Rightarrow> 'a worker_visitor_scheme \<Rightarrow> error + 'a worker_visitor_scheme" where
  "worker_visitTimed E C item =
     exec
       [read_clock E,
        with_ti item (\<lambda>i. exec
          [set_ti i (\<lambda>s ti. ti\<lparr>scheduled := now s\<rparr>),
           when_s (\<lambda>s. ti_buffer (ti_at i s) \<noteq> None)
             [read_adc E i,
              when_s (\<lambda>s. ti_action (ti_at i s) = pt_comb \<and> pressure_shutoff C) [check_pressure E C],
              assign (\<lambda>s. s\<lparr>adc_data := (adc_data s)\<lparr>adc_t := now s\<rparr>\<rparr>),
              store_reading i,
              when_s (\<lambda>s. now s - last_send (ti_at i s) > word_of_int SEND_TIME) [send_data E i]]])]"

definition worker_visitIgn ::
    "env \<Rightarrow> config \<Rightarrow> work_queue_item \<Rightarrow> 'a worker_visitor_scheme \<Rightarrow> error + 'a worker_visitor_scheme" where
  "worker_visitIgn E C item =
     exec
       [read_clock E,
        when_s (\<lambda>s. ignition_on C) [gpio IGN_START HIGH],
        on_list (til_set_delay ign2 (word_of_int (preignite_us C))),
        enable_now ign2,
        on_list (til_set_delay ign3 (word_of_int (hotflow_us C)))]"

definition visitNone :: "env \<Rightarrow> work_queue_item \<Rightarrow> 'a worker_visitor_scheme \<Rightarrow> error + 'a worker_visitor_scheme" where
  "visitNone E item = exec [read_clock E, \<lambda>s. check_ti_list (now s) s]"

definition visitDefault :: "work_queue_item \<Rightarrow> 'a worker_visitor_scheme \<Rightarrow> error + 'a worker_visitor_scheme" where
  "visitDefault item s = Inr s"

definition visit ::
    "env \<Rightarrow> (work_queue_item \<Rightarrow> 'a worker_visitor_scheme \<Rightarrow> error + 'a worker_visitor_scheme)
     \<Rightarrow> (work_queue_item \<Rightarrow> 'a worker_visitor_scheme \<Rightarrow> error + 'a worker_visitor_scheme)
     \<Rightarrow> (work_queue_item \<Rightarrow> 'a worker_visitor_scheme \<Rightarrow> error + 'a worker_visitor_scheme)
     \<Rightarrow> work_queue_item \<Rightarrow> 'a worker_visitor_scheme \<Rightarrow> error + 'a worker_visitor_scheme" where
  "visit E visitProc visitTimed visitIgn item =
     (case wqi_action item of
        wq_process \<Rightarrow> visitProc item
      | wq_timed \<Rightarrow> visitTimed item
      | ign1 \<Rightarrow> visitIgn item
      | wq_none \<Rightarrow> visitNone E item
      | _ \<Rightarrow> visitDefault item)"

text \<open>The constructor; \<open>p\<close> is the process so far, \<open>junk\<close> the contents of the new rings.\<close>

definition worker_visitor_new ::
    "config \<Rightarrow> (nat \<Rightarrow> nat \<Rightarrow> byte) \<Rightarrow> process \<Rightarrow> error + worker_visitor" where
  "worker_visitor_new C junk p =
     (case timed_item_list_new TI_COUNT (push_bit 17 12) junk (heap p) of
        Inl e \<Rightarrow> Inl e
      | Inr (til, hp) \<Rightarrow>
          exec
            [on_list (til_set_delay ign2 (word_of_int (preignite_us C))),
             on_list (til_set_delay ign3 (word_of_int (hotflow_us C))),
             on_list (til_set_delay gitvc (word_of_int (gitvc_wait_time C)))]
            (process.extend (p\<lparr>heap := hp\<rparr>)
               (worker_visitor.fields null_nqi \<lparr>adc_dat = 0, adc_t = 0\<rparr> 0 til 0 700 False)))"

section \<open>The invariant\<close>

text \<open>
  Each sensor has a ring of its own, the ten of them in a row, and the stages of a burn have none;
  the channels are the constructor's.
\<close>

definition wiring_ok :: "circular_buffer list \<Rightarrow> timed_item list \<Rightarrow> bool" where
  "wiring_ok hp ts \<longleftrightarrow>
     (\<exists>h. h + 10 \<le> length hp \<and> map ti_buffer ts = map Some [h..<h + 10] @ replicate 3 None)
     \<and> map adc_info ts = map adc_info (temp_ti_list 0)"

definition vis_wf :: "'a worker_visitor_scheme \<Rightarrow> bool" where
  "vis_wf s \<longleftrightarrow> queues_ok s \<and> heap_wf (heap s) \<and> til_wf (ti_list s)
     \<and> wiring_ok (heap s) (tis (ti_list s))"

text \<open>Running for the item at index \<open>i\<close>.\<close>

definition at_item :: "nat \<Rightarrow> 'a worker_visitor_scheme \<Rightarrow> bool" where
  "at_item i s \<longleftrightarrow> vis_wf s \<and> i < 13"

definition at_sensor :: "nat \<Rightarrow> 'a worker_visitor_scheme \<Rightarrow> bool" where
  "at_sensor i s \<longleftrightarrow> vis_wf s \<and> i < 10"

lemmas vis_wf_defs = vis_wf_def at_item_def at_sensor_def queues_ok_def

lemma wiring_ok_sensor:
  assumes "wiring_ok hp ts" and "i < 10"
  shows "\<exists>a < length hp. ti_buffer (ts ! i) = Some a"
proof -
  obtain h where h: "h + 10 \<le> length hp" "map ti_buffer ts = map Some [h..<h + 10] @ replicate 3 None"
    using assms(1) by (auto simp: wiring_ok_def)
  then have "length ts = 13" by (auto dest: arg_cong [where f = length])
  then have "ti_buffer (ts ! i) = map ti_buffer ts ! i" using assms(2) by simp
  with h assms(2) show ?thesis by (simp add: nth_append)
qed

lemma wiring_ok_stage: "wiring_ok hp ts \<Longrightarrow> 10 \<le> i \<Longrightarrow> i < 13 \<Longrightarrow> ti_buffer (ts ! i) = None"
proof -
  assume b: "wiring_ok hp ts" and i: "10 \<le> i" "i < 13"
  then obtain h where h: "map ti_buffer ts = map Some [h..<h + 10] @ replicate 3 None"
    by (auto simp: wiring_ok_def)
  then have "length ts = 13" by (auto dest: arg_cong [where f = length])
  then have "ti_buffer (ts ! i) = map ti_buffer ts ! i" using i by simp
  with h i show ?thesis by (simp add: nth_append)
qed

lemma wiring_ok_inj:
  assumes "wiring_ok hp ts" and "i < 10" and "j < 10" and "ti_buffer (ts ! i) = ti_buffer (ts ! j)"
  shows "i = j"
proof -
  obtain h where h: "map ti_buffer ts = map Some [h..<h + 10] @ replicate 3 None"
    using assms(1) by (auto simp: wiring_ok_def)
  then have "length ts = 13" by (auto dest: arg_cong [where f = length])
  then have "map ti_buffer ts ! i = map ti_buffer ts ! j" using assms by simp
  with h assms(2,3) show ?thesis by (simp add: nth_append)
qed

lemma wiring_ok_update:
  assumes "wiring_ok hp ts" and "\<And>x. ti_buffer (f x) = ti_buffer x \<and> adc_info (f x) = adc_info x"
    and "length hp \<le> length hp'"
  shows "wiring_ok hp' (ts[i := f (ts ! i)])"
proof -
  have "map ti_buffer (ts[i := f (ts ! i)]) = map ti_buffer ts" "map adc_info (ts[i := f (ts ! i)]) = map adc_info ts"
    using assms(2) by (metis list_update_id map_update)+
  moreover obtain h where "h + 10 \<le> length hp" "map ti_buffer ts = map Some [h..<h + 10] @ replicate 3 None"
    using assms(1) by (auto simp: wiring_ok_def)
  ultimately show ?thesis using assms(1,3) unfolding wiring_ok_def by (intro conjI exI [of _ h]) simp_all
qed

text \<open>What an update of an item keeps.\<close>

definition harmless :: "(timed_item \<Rightarrow> timed_item) \<Rightarrow> bool" where
  "harmless f \<longleftrightarrow> (\<forall>x. ti_action (f x) = ti_action x \<and> ti_buffer (f x) = ti_buffer x \<and> adc_info (f x) = adc_info x)"

lemma vis_wf_update_item:
  assumes "vis_wf s" and "harmless f"
  shows "vis_wf (s\<lparr>ti_list := (ti_list s)\<lparr>tis := (tis (ti_list s))[i := f (tis (ti_list s) ! i)]\<rparr>\<rparr>)"
  using assms til_wf_update [of "ti_list s" f i] wiring_ok_update [of "heap s" "tis (ti_list s)" f "heap s" i]
  by (simp add: vis_wf_defs harmless_def)

lemma vis_wf_simps [simp]:
  "vis_wf (s\<lparr>trace := tr\<rparr>) = vis_wf s" "vis_wf (s\<lparr>now := u\<rparr>) = vis_wf s"
  "vis_wf (s\<lparr>adc_data := d\<rparr>) = vis_wf s" "vis_wf (s\<lparr>nq_item := x\<rparr>) = vis_wf s"
  "vis_wf (s\<lparr>start_time_nitr := u\<rparr>) = vis_wf s" "vis_wf (s\<lparr>pressure_avg := r\<rparr>) = vis_wf s"
  "vis_wf (s\<lparr>burn_on := b\<rparr>) = vis_wf s"
  by (simp_all add: vis_wf_defs)

lemma vis_wf_enqueue [simp]: "vis_wf (s\<lparr>qw := enqueue x (qw s)\<rparr>) \<longleftrightarrow> vis_wf s \<and> wqi_ok x"
  "vis_wf (s\<lparr>qn := enqueue y (qn s)\<rparr>) \<longleftrightarrow> vis_wf s \<and> nqi_ok (length (heap s)) y"
  by (auto simp: vis_wf_defs)

lemma ti_at_simps [simp]:
  "ti_at i (s\<lparr>trace := tr\<rparr>) = ti_at i s" "ti_at i (s\<lparr>now := u\<rparr>) = ti_at i s"
  "ti_at i (s\<lparr>adc_data := d\<rparr>) = ti_at i s" "ti_at i (s\<lparr>nq_item := x\<rparr>) = ti_at i s"
  "ti_at i (s\<lparr>pressure_avg := r\<rparr>) = ti_at i s" "ti_at i (s\<lparr>burn_on := b\<rparr>) = ti_at i s"
  "ti_at i (s\<lparr>heap := hp\<rparr>) = ti_at i s" "ti_at i (s\<lparr>qn := qs\<rparr>) = ti_at i s"
  by (simp_all add: ti_at_def)

lemma vis_wf_length: "vis_wf s \<Longrightarrow> length (tis (ti_list s)) = 13"
  by (simp add: vis_wf_def til_wf_length)

lemma at_sensor_ring:
  assumes "at_sensor i s"
  obtains a where "ti_buffer (ti_at i s) = Some a" "a < length (heap s)" "cb_wf (heap s ! a)"
    "deref (heap s) (ti_buffer (ti_at i s)) = Inr (heap s ! a)"
  using assms wiring_ok_sensor [of "heap s" "tis (ti_list s)" i]
  by (auto simp: at_sensor_def vis_wf_def ti_at_def deref_def heap_wf_nth)

lemma vis_wf_ring:
  assumes "vis_wf s" and "cb_wf b"
  shows "vis_wf (s\<lparr>heap := (heap s)[a := b]\<rparr>)"
  using assms by (auto simp: vis_wf_defs heap_wf_update wiring_ok_def)

section \<open>The handlers keep the invariant\<close>

lemma keeps_at [keeps]:
  assumes "ensures vis_wf c vis_wf"
  shows "ensures (at_item i) c (at_item i)" and "ensures (at_sensor i) c (at_sensor i)"
  using assms by (auto simp: ensures_def at_item_def at_sensor_def)

lemma keeps_statements:
  "ensures vis_wf (gpio p v) vis_wf"
  "ensures vis_wf (read_clock E) vis_wf"
  "ensures vis_wf (read_adc E i) vis_wf"
  "ensures vis_wf (update_pressure E C) vis_wf"
  "ensures vis_wf (fill_nq_item i bw) vis_wf"
  "wqi_ok x \<Longrightarrow> ensures vis_wf (push_qw x) vis_wf"
  by (auto simp: ensures_def process_stmts read_clock_def read_adc_def update_pressure_def
    fill_nq_item_def Let_def split: prod.splits)

lemma keeps_assign [keeps]:
  "ensures vis_wf (assign (burn_on_update f)) vis_wf"
  "ensures vis_wf (assign (\<lambda>s. s\<lparr>adc_data := g s\<rparr>)) vis_wf"
  "ensures vis_wf (assign (\<lambda>s. s\<lparr>start_time_nitr := h s\<rparr>)) vis_wf"
  by (auto simp: vis_wf_defs intro!: ensures_assign)

lemma keeps_set_ti [keeps]:
  assumes "\<And>s. harmless (f s)"
  shows "ensures vis_wf (set_ti i f) vis_wf"
  using vis_wf_update_item [OF _ assms] by (auto simp: ensures_def set_ti_def ti_at_def)

lemma keeps_til_update:
  assumes "action_index a \<noteq> None" and "\<And>s. harmless (f s)"
  shows "ensures vis_wf (\<lambda>s. on_list (til_update a (f s)) s) vis_wf"
proof (rule ensuresI)
  fix s :: "'a worker_visitor_scheme"
  assume s: "vis_wf s"
  then have "til_wf (ti_list s)" by (simp add: vis_wf_def)
  from til_update_wf(1) [OF this] assms obtain i where
    "til_update a (f s) (ti_list s) = Inr ((ti_list s)\<lparr>tis := (tis (ti_list s))[i := f s (tis (ti_list s) ! i)]\<rparr>)"
    by (auto simp: harmless_def)
  with vis_wf_update_item [OF s assms(2), of i] show "\<exists>u. on_list (til_update a (f s)) s = Inr u \<and> vis_wf u"
    by (simp add: on_list_def)
qed

lemma keeps_on_list [keeps]:
  assumes "action_index a \<noteq> None"
  shows "ensures vis_wf (on_list (til_set_delay a d)) vis_wf"
    and "ensures vis_wf (on_list (til_disable a)) vis_wf"
    and "ensures vis_wf (enable_now a) vis_wf"
  using keeps_til_update [OF assms, of "\<lambda>s x. x\<lparr>time_delay := d\<rparr>"]
    keeps_til_update [OF assms, of "\<lambda>s. ti_disable"] keeps_til_update [OF assms, of "\<lambda>s. ti_enable (now s)"]
  by (simp_all add: til_set_delay_def til_disable_def til_enable_def enable_now_def [abs_def]
    harmless_def ti_enable_def ti_disable_def cong: if_cong)

declare keeps_statements [keeps]

text \<open>The loop over the items queues the due ones, in order.\<close>

lemma item_actions_not_none: "i < 13 \<Longrightarrow> item_actions ! i \<noteq> wq_none"
  using action_index_nth [of i] by auto

lemma check_ti_list_from_eq:
  assumes "til_wf (ti_list s)" and "i \<le> 13"
  shows "check_ti_list_from u i i s = Inr (s\<lparr>qw := (qw s)\<lparr>q := q (qw s)
           @ map timed_wqi (filter (\<lambda>j. due u (ti_at j s)) [i..<13])\<rparr>\<rparr>)"
  using assms
proof (induction "13 - i" arbitrary: i s)
  case 0
  then have "i = 13" by simp
  then show ?case by (subst check_ti_list_from.simps) (simp add: TI_COUNT_def)
next
  case (Suc k)
  then have i: "i < 13" by simp
  have "ti_action (ti_at i s) \<noteq> wq_none" "i < length (tis (ti_list s))"
    using til_wf_nth [OF Suc.prems(1) i] til_wf_length [OF Suc.prems(1)] item_actions_not_none [OF i] i
    by (simp_all add: ti_at_def)
  then have "check_ti_list_from u i i s =
      (if due u (ti_at i s)
       then check_ti_list_from u (i + 1) (i + 1) (s\<lparr>qw := enqueue (timed_wqi i) (qw s)\<rparr>)
       else check_ti_list_from u (i + 1) (i + 1) s)"
    using i by (subst check_ti_list_from.simps) (simp add: TI_COUNT_def MAX_TIMED_LIST_LEN_def)
  moreover have "[i..<13] = i # [i + 1..<13]" using i by (simp add: upt_conv_Cons)
  moreover have "13 - (i + 1) = k" "i + 1 \<le> 13" using Suc.hyps(2) i by simp_all
  ultimately show ?case
    using Suc.hyps(1) [of "i + 1" s] Suc.hyps(1) [of "i + 1" "s\<lparr>qw := enqueue (timed_wqi i) (qw s)\<rparr>"]
      Suc.prems(1) by (simp add: enqueue_def ti_at_def)
qed

lemma check_ti_list_eq:
  assumes "vis_wf s"
  shows "check_ti_list u s = Inr (s\<lparr>qw := (qw s)\<lparr>q := q (qw s)
           @ map timed_wqi (filter (\<lambda>j. due u (ti_at j s)) [0..<13])\<rparr>\<rparr>)"
  using assms check_ti_list_from_eq [of s 0 u] by (simp add: check_ti_list_def vis_wf_def)

lemma timed_wqi_simps [simp]:
  "wqi_action (timed_wqi i) = wq_timed" "extra_datap (timed_wqi i) = Some i"
  by (simp_all add: timed_wqi_def)

lemma keeps_check_ti_list [keeps]: "ensures vis_wf (\<lambda>s. check_ti_list (g s) s) vis_wf"
proof (rule ensuresI)
  fix s :: "'a worker_visitor_scheme"
  assume s: "vis_wf s"
  have "list_all wqi_ok (map timed_wqi (filter P [0..<13]))" for P
    by (auto simp: list_all_iff wqi_ok_def)
  with s show "\<exists>u. check_ti_list (g s) s = Inr u \<and> vis_wf u"
    by (simp add: check_ti_list_eq) (simp add: vis_wf_defs)
qed

lemma keeps_check_pressure [keeps]: "ensures vis_wf (check_pressure E C) vis_wf"
  unfolding check_pressure_def by (intro keeps_rules keeps)

text \<open>Reading and sending, for a sensor.\<close>

lemma store_reading_eq:
  assumes "at_sensor i s" and "ti_buffer (ti_at i s) = Some a"
  shows "\<exists>b. add_data (heap s ! a) (reading_bytes (adc_data s)) = Inr b \<and> cb_wf b
    \<and> nbytes b = nbytes (heap s ! a) \<and> store_reading i s = Inr (s\<lparr>heap := (heap s)[a := b]\<rparr>)"
proof -
  from assms have d: "deref (heap s) (ti_buffer (ti_at i s)) = Inr (heap s ! a)" "cb_wf (heap s ! a)"
    by (auto elim!: at_sensor_ring)
  from add_data_wf [OF this(2)] obtain b where
    "add_data (heap s ! a) (reading_bytes (adc_data s)) = Inr b" "cb_wf b" "nbytes b = nbytes (heap s ! a)"
    by blast
  with d(1) assms(2) show ?thesis by (simp add: store_reading_def)
qed

lemma keeps_store_reading [keeps]: "ensures (at_sensor i) (store_reading i) (at_sensor i)"
proof (rule ensuresI)
  fix s :: "'a worker_visitor_scheme"
  assume s: "at_sensor i s"
  then obtain a where "ti_buffer (ti_at i s) = Some a" by (rule at_sensor_ring)
  with store_reading_eq [OF s] s show "\<exists>u. store_reading i s = Inr u \<and> at_sensor i u"
    by (auto simp: at_sensor_def vis_wf_ring)
qed

lemma sensor_code: "i < 10 \<Longrightarrow> send_code_for (item_actions ! i) \<noteq> None"
  by (simp add: item_actions_def less_Suc_eq numeral_eq_Suc) (elim disjE; simp)

lemma ti_action_nth: "vis_wf s \<Longrightarrow> i < 13 \<Longrightarrow> ti_action (ti_at i s) = item_actions ! i"
  by (simp add: ti_at_def vis_wf_def til_wf_nth)

lemma nqi_for_ok:
  assumes "at_sensor i s"
  shows "nqi_ok (length (heap s)) (nqi_for item bw (ti_at i s))"
proof -
  obtain a where "ti_buffer (ti_at i s) = Some a" "a < length (heap s)"
    using assms by (rule at_sensor_ring)
  moreover have "send_code_for (ti_action (ti_at i s)) \<noteq> None"
    using assms by (simp add: at_sensor_def ti_action_nth sensor_code)
  ultimately show ?thesis by (auto simp: nqi_ok_def nqi_for_def)
qed

text \<open>
  Sending: the item for the bytes since the last send is filled in, queued if someone is
  connected and there are any, and its bytes dumped in the sensor's log file in any case.
\<close>

definition sent :: "nat \<Rightarrow> size_t \<Rightarrow> 'a worker_visitor_scheme \<Rightarrow> 'a worker_visitor_scheme" where
  "sent i bw s =
     (let item = nqi_for (nq_item s) bw (ti_at i s)
      in s\<lparr>nq_item := item,
           ti_list := (ti_list s)\<lparr>tis := (tis (ti_list s))[i := (ti_at i s)\<lparr>nbytes_last_send := bw, last_send := now s\<rparr>]\<rparr>,
           qn := (if connected (nw s) \<and> nqi_nbytes item > 0 then enqueue item (qn s) else qn s)\<rparr>)"

lemma send_data_eq:
  assumes "at_sensor i s" and "ti_buffer (ti_at i s) = Some a" and bw: "bw = bytes_written (heap s ! a)"
  shows "\<exists>r tr'. send_data E i s = Inr ((sent i bw s)\<lparr>trace := tr'\<rparr>)
    \<and> write_from_nqi E (heap s) (nqi_for (nq_item s) bw (ti_at i s)) (trace s) = Inr (r, tr')
    \<and> quiet_after (trace s) tr'"
proof -
  have d: "deref (heap s) (ti_buffer (ti_at i s)) = Inr (heap s ! a)" and a: "a < length (heap s)" "cb_wf (heap s ! a)"
    using assms by (auto elim!: at_sensor_ring)
  let ?item = "nqi_for (nq_item s) bw (ti_at i s)"
  have "nqi_buff ?item = Some a" using assms(2) by (simp add: nqi_for_def)
  then obtain r tr' where w: "write_from_nqi E (heap s) ?item (trace s) = Inr (r, tr')" "quiet_after (trace s) tr'"
    using write_buff_returns [of "nqi_buff ?item" "heap s" E] a by (fastforce simp: write_from_nqi_def)
  then have "send_data E i s = Inr ((sent i bw s)\<lparr>trace := tr'\<rparr>)"
    by (simp add: send_data_def d bw fill_nq_item_def set_ti_def when_s_def push_qn_def log_nq_item_def
        sent_def Let_def)
  with w show ?thesis by blast
qed

lemma vis_wf_sent: "at_sensor i s \<Longrightarrow> vis_wf (sent i bw s)"
proof -
  assume s: "at_sensor i s"
  then have wf: "vis_wf s" by (simp add: at_sensor_def)
  have "vis_wf (s\<lparr>ti_list := (ti_list s)\<lparr>tis := (tis (ti_list s))
      [i := (\<lambda>x. x\<lparr>nbytes_last_send := bw, last_send := now s\<rparr>) (tis (ti_list s) ! i)]\<rparr>\<rparr>)"
    by (rule vis_wf_update_item [OF wf]) (simp add: harmless_def)
  then show ?thesis
    using nqi_for_ok [OF s, of "nq_item s" bw]
    by (simp add: sent_def Let_def ti_at_def) (simp add: vis_wf_defs)
qed

lemma keeps_send_data [keeps]: "ensures (at_sensor i) (send_data E i) (at_sensor i)"
proof (rule ensuresI)
  fix s :: "'a worker_visitor_scheme"
  assume s: "at_sensor i s"
  then obtain a where "ti_buffer (ti_at i s) = Some a" by (rule at_sensor_ring)
  from send_data_eq [OF s this refl, of E] vis_wf_sent [OF s] s
  show "\<exists>u. send_data E i s = Inr u \<and> at_sensor i u" by (auto simp: at_sensor_def)
qed

text \<open>An item of the list is a sensor when its buffer is there.\<close>

lemma at_item_sensor: "at_item i s \<and> ti_buffer (ti_at i s) \<noteq> None \<longleftrightarrow> at_sensor i s"
proof -
  have "at_item i s \<Longrightarrow> i < 10 \<or> ti_buffer (ti_at i s) = None"
    using wiring_ok_stage [of "heap s" "tis (ti_list s)" i]
    by (cases "i < 10") (simp_all add: at_item_def vis_wf_def ti_at_def)
  moreover have "at_sensor i s \<Longrightarrow> ti_buffer (ti_at i s) \<noteq> None" by (auto elim: at_sensor_ring)
  ultimately show ?thesis by (auto simp: at_item_def at_sensor_def)
qed

lemma ensures_when_sensor:
  assumes "ensures (at_sensor i) (exec cs) (at_sensor i)"
  shows "ensures (at_item i) (when_s (\<lambda>s. ti_buffer (ti_at i s) \<noteq> None) cs) (at_item i)"
proof (rule ensures_when)
  show "ensures (\<lambda>s. at_item i s \<and> ti_buffer (ti_at i s) \<noteq> None) (exec cs) (at_item i)"
    unfolding at_item_sensor by (rule ensures_conseq [OF assms]) (auto simp: at_item_def at_sensor_def)
qed

lemma ensures_with_ti:
  assumes "wqi_ok item" and "wqi_action item = wq_timed"
    and "\<And>i. extra_datap item = Some i \<Longrightarrow> i < 13 \<Longrightarrow> ensures (at_item i) (body i) (at_item i)"
  shows "ensures vis_wf (with_ti item body) vis_wf"
proof (rule ensuresI)
  fix s :: "'a worker_visitor_scheme"
  assume s: "vis_wf s"
  obtain i where i: "extra_datap item = Some i" "i < 13" using assms(1,2) by (auto simp: wqi_ok_def)
  with s have "at_item i s" by (simp add: at_item_def)
  from ensuresE [OF assms(3) [OF i] this] obtain u where "body i s = Inr u" "vis_wf u"
    by (auto simp: at_item_def)
  with i s show "\<exists>u. with_ti item body s = Inr u \<and> vis_wf u"
    by (auto simp: with_ti_def vis_wf_length)
qed

lemma keeps_worker_visitTimed [keeps]:
  assumes "wqi_ok item" and "wqi_action item = wq_timed"
  shows "ensures vis_wf (worker_visitTimed E C item) vis_wf"
  unfolding worker_visitTimed_def
  by (intro keeps_rules keeps ensures_with_ti ensures_when_sensor assms) (simp_all add: harmless_def)

lemma keeps_worker_visitIgn [keeps]: "ensures vis_wf (worker_visitIgn E C item) vis_wf"
  unfolding worker_visitIgn_def by (intro keeps_rules keeps) simp_all

lemma keeps_visitNone [keeps]: "ensures vis_wf (visitNone E item) vis_wf"
  unfolding visitNone_def by (intro keeps_rules keeps)

lemma keeps_worker_visitProc [keeps]: "ensures vis_wf (worker_visitProc item) vis_wf"
  unfolding worker_visitProc_def
  by (auto split: option.splits send_code.splits simp: wqi_ok_def intro!: keeps_rules keeps)

section \<open>What the base class leaves alone\<close>

text \<open>No statement of the base class touches the members of a derived class.\<close>

lemma preserves_with_ti [untouched]:
  "(\<And>i. preserves f (body i)) \<Longrightarrow> preserves f (with_ti item body)"
  by (auto simp: preserves_def with_ti_def split: option.splits if_splits)

lemma preserves_check_ti_list_from:
  "check_ti_list_from u i k s = Inr s' \<Longrightarrow> worker_visitor.more s' = worker_visitor.more s"
proof (induction u i k s rule: check_ti_list_from.induct)
  case (1 u i k s)
  show ?case
    using "1.prems" "1.IH"
    by (subst (asm) check_ti_list_from.simps) (simp split: if_splits)
qed

lemma preserves_more [untouched]:
  "preserves worker_visitor.more (gpio p v)" "preserves worker_visitor.more (push_qw x)"
  "preserves worker_visitor.more (push_qn y)" "preserves worker_visitor.more (read_clock E)"
  "preserves worker_visitor.more (on_list g)" "preserves worker_visitor.more (enable_now a)"
  "preserves worker_visitor.more (set_ti i h)" "preserves worker_visitor.more (check_ti_list u)"
  "preserves worker_visitor.more (update_pressure E C)" "preserves worker_visitor.more (read_adc E i)"
  "preserves worker_visitor.more (store_reading i)" "preserves worker_visitor.more (fill_nq_item i bw)"
  "preserves worker_visitor.more (log_nq_item E)" "preserves worker_visitor.more (visitDefault item)"
  by (auto simp: preserves_def process_stmts read_clock_def on_list_def enable_now_def set_ti_def
    check_ti_list_def preserves_check_ti_list_from update_pressure_def read_adc_def store_reading_def
    fill_nq_item_def log_nq_item_def visitDefault_def split: prod.splits sum.splits)

lemma preserves_more_at [untouched]:
  "preserves worker_visitor.more (\<lambda>s. check_ti_list (g s) s)" "preserves worker_visitor.more (\<lambda>s. push_qn (y s) s)"
  by (auto simp: preserves_def check_ti_list_def preserves_check_ti_list_from push_qn_def)

lemma preserves_more_assign [untouched]:
  "preserves worker_visitor.more (assign (burn_on_update f))"
  "preserves worker_visitor.more (assign (\<lambda>s. s\<lparr>adc_data := g s\<rparr>))"
  "preserves worker_visitor.more (assign (\<lambda>s. s\<lparr>start_time_nitr := h s\<rparr>))"
  by (auto simp: preserves_def assign_def)

lemma preserves_more_send_data [untouched]: "preserves worker_visitor.more (send_data E i)"
proof -
  have "preserves worker_visitor.more
      (exec [fill_nq_item i bw, set_ti i (\<lambda>s ti. ti\<lparr>nbytes_last_send := bw, last_send := now s\<rparr>),
        when_s (\<lambda>s. connected (nw s) \<and> nqi_nbytes (nq_item s) > 0) [\<lambda>s. push_qn (nq_item s) s],
        log_nq_item E])" for bw
    by (intro preserves_rules untouched)
  from preservesD [OF this] show ?thesis
    unfolding preserves_def send_data_def Let_def by (auto simp del: exec.simps split: sum.splits)
qed

lemma preserves_more_handlers [untouched]:
  "preserves worker_visitor.more (check_pressure E C)"
  "preserves worker_visitor.more (worker_visitTimed E C item)"
  "preserves worker_visitor.more (worker_visitIgn E C item)"
  "preserves worker_visitor.more (visitNone E item)"
  unfolding check_pressure_def worker_visitTimed_def worker_visitIgn_def visitNone_def
  by (intro preserves_rules untouched)+

lemma preserves_more_visitProc [untouched]: "preserves worker_visitor.more (worker_visitProc item)"
  unfolding worker_visitProc_def
  by (auto split: option.splits send_code.splits intro!: preserves_rules untouched)

text \<open>Only a command and \<open>check_ti_list\<close> touch the work queue.\<close>

lemma preserves_qw [untouched]:
  "preserves qw (gpio p v)" "preserves qw (push_qn y)" "preserves qw (read_clock E)"
  "preserves qw (on_list g)" "preserves qw (enable_now a)" "preserves qw (set_ti i h)"
  "preserves qw (update_pressure E C)" "preserves qw (read_adc E i)"
  "preserves qw (store_reading i)" "preserves qw (fill_nq_item i bw)" "preserves qw (log_nq_item E)"
  "preserves qw (\<lambda>s. push_qn (z s) s)" "preserves qw (assign (burn_on_update f))"
  "preserves qw (assign (\<lambda>s. s\<lparr>adc_data := d s\<rparr>))" "preserves qw (assign (\<lambda>s. s\<lparr>start_time_nitr := w s\<rparr>))"
  by (auto simp: preserves_def process_stmts read_clock_def on_list_def enable_now_def set_ti_def
    update_pressure_def read_adc_def store_reading_def fill_nq_item_def log_nq_item_def assign_def
    split: prod.splits sum.splits)

lemma preserves_qw_send_data [untouched]: "preserves qw (send_data E i)"
proof -
  have "preserves qw
      (exec [fill_nq_item i bw, set_ti i (\<lambda>s ti. ti\<lparr>nbytes_last_send := bw, last_send := now s\<rparr>),
        when_s (\<lambda>s. connected (nw s) \<and> nqi_nbytes (nq_item s) > 0) [\<lambda>s. push_qn (nq_item s) s],
        log_nq_item E])" for bw
    by (intro preserves_rules untouched)
  from preservesD [OF this] show ?thesis
    unfolding preserves_def send_data_def Let_def by (auto simp del: exec.simps split: sum.splits)
qed

lemma preserves_qw_handlers [untouched]:
  "preserves qw (check_pressure E C)" "preserves qw (worker_visitTimed E C item)"
  "preserves qw (worker_visitIgn E C item)"
  unfolding check_pressure_def worker_visitTimed_def worker_visitIgn_def
  by (intro preserves_rules untouched)+

section \<open>A sample state\<close>

text \<open>A small concrete visitor for the witnesses: the table of the constructor over rings of 64 bytes.\<close>

definition sample_til :: timed_item_list where
  "sample_til = \<lparr>til_length = 13, buff_size = 64, actionMap = action_index, tis = temp_ti_list 0\<rparr>"

definition sample_config :: config where
  "sample_config = \<lparr>engine_type = 0, time_between_gitvc = 1000, gitvc_wait_time = 2000, pressure_slope = 1,
     pressure_yint = 0, pressure_min = 300, pressure_max = 800, preignite_us = 500000, hotflow_us = 3000000,
     ignition_on = True, pressure_shutoff = True, use_gitvc = True, gitvc_times = [700, 800]\<rparr>"

definition sample_visitor :: worker_visitor where
  "sample_visitor = process.extend sample_process
     (worker_visitor.fields null_nqi \<lparr>adc_dat = 0, adc_t = 0\<rparr> 0 sample_til 0 700 False)"

lemma sample_visitor_fields [simp]:
  "heap sample_visitor = replicate 10 sample_ring" "ti_list sample_visitor = sample_til"
  "qn sample_visitor = safe_queue_new null_nqi" "qw sample_visitor = safe_queue_new null_wqi"
  "nw sample_visitor = sample_network" "trace sample_visitor = []" "base_time sample_visitor = 0"
  "burn_on sample_visitor = False" "start_time_nitr sample_visitor = 0"
  "pressure_avg sample_visitor = 700" "nq_item sample_visitor = null_nqi"
  by (simp_all add: sample_visitor_def sample_process_def process.defs worker_visitor.defs)

lemma temp_ti_list_wf:
  assumes "h + 10 \<le> length hp" and "actionMap l = action_index" and "tis l = temp_ti_list h"
  shows "til_wf l" and "wiring_ok hp (tis l)"
proof -
  show "til_wf l" using assms by (simp add: til_wf_def temp_ti_list_def timed_item_new_def item_actions_def)
  have "map ti_buffer (temp_ti_list h) = map Some [h..<h + 10] @ replicate 3 None"
    "map adc_info (temp_ti_list h) = map adc_info (temp_ti_list 0)"
    by (simp_all add: temp_ti_list_def timed_item_new_def upt_rec numeral_3_eq_3)
  with assms show "wiring_ok hp (tis l)" by (auto simp: wiring_ok_def)
qed

lemma sample_visitor_ring [simp]: "i < 10 \<Longrightarrow> ti_buffer (tis sample_til ! i) = Some i"
  by (simp add: sample_til_def temp_ti_list_def timed_item_new_def less_Suc_eq numeral_eq_Suc)
    (elim disjE; simp)

lemma sample_visitor_wf: "vis_wf sample_visitor"
  using temp_ti_list_wf [of 0 "heap sample_visitor" sample_til]
  by (simp add: vis_wf_defs heap_wf_def sample_til_def sample_ring_def cb_wf_def list_all_iff)

end
