(* ===== verification/Initialization.thy ===== *)
theory Initialization
  imports AdcBlock
begin

text \<open>
  \<open>src/final/initialization.cpp\<close>: the power-on state of the pins and of the SPI unit. The same
  \<open>initialize_pins\<close> is the program's \<open>atexit\<close> handler.
\<close>

definition initialize_pins :: "event list \<Rightarrow> event list" where
  "initialize_pins tr = tr @
     [Gpio_fsel_outp ADC_0_CS, Gpio_write ADC_0_CS HIGH,
      Gpio_fsel_outp ADC_1_CS, Gpio_write ADC_1_CS HIGH,
      Gpio_fsel_outp ADC_2_CS, Gpio_write ADC_2_CS HIGH,
      Gpio_fsel_outp MAIN_VALVE, Gpio_write MAIN_VALVE LOW,
      Gpio_fsel_outp WATER_VALVE, Gpio_write WATER_VALVE LOW,
      Gpio_fsel_outp VALVE_3, Gpio_write VALVE_3 LOW,
      Gpio_fsel_outp GITVC_VALVE, Gpio_write GITVC_VALVE HIGH,
      Gpio_fsel_outp IGN_START, Gpio_write IGN_START LOW]"

definition titan_initialize_pins :: "event list \<Rightarrow> event list" where
  "titan_initialize_pins tr = tr @
     [Gpio_fsel_outp ADC_0_CS, Gpio_write ADC_0_CS HIGH,
      Gpio_fsel_outp ADC_1_CS, Gpio_write ADC_1_CS HIGH,
      Gpio_fsel_outp ADC_2_CS, Gpio_write ADC_2_CS HIGH,
      Gpio_fsel_outp MAIN_VALVE, Gpio_write MAIN_VALVE LOW,
      Gpio_fsel_outp VENT, Gpio_write VENT LOW,
      Gpio_fsel_outp TANK, Gpio_write TANK HIGH,
      Gpio_fsel_outp GITVC_VALVE, Gpio_write GITVC_VALVE HIGH,
      Gpio_fsel_outp IGN_START, Gpio_write IGN_START LOW]"

definition initialize_spi :: "env \<Rightarrow> event list \<Rightarrow> int \<times> event list" where
  "initialize_spi E tr =
     (let ok = env_bcm E tr; tr = tr @ [Spi_begin ok]
      in if \<not> ok then (1, tr @ [Stderr ''bcm2835_spi_begin failed. Are you running as root?''])
         else (0, tr @
           [Spi_chipSelect BCM2835_SPI_CS_NONE, Spi_set Spi_bit_order_msbfirst,
            Spi_set Spi_data_mode3, Spi_set Spi_clock_divider_1024,
            Spi_set (Spi_chip_select_polarity BCM2835_SPI_CS0 LOW),
            Spi_set (Spi_chip_select_polarity BCM2835_SPI_CS1 LOW)]))"

section \<open>The safe state\<close>

text \<open>
  Valves closed, igniter off and every ADC deselected. On Titan the water pin is the vent,
  open when low, and the GITVC pin the tank valve, closed when high.
\<close>

definition safe_pins :: "event list \<Rightarrow> bool" where
  "safe_pins tr \<longleftrightarrow>
     pin_level tr MAIN_VALVE = Some LOW \<and> pin_level tr IGN_START = Some LOW
     \<and> pin_level tr GITVC_VALVE = Some HIGH \<and> pin_level tr WATER_VALVE = Some LOW
     \<and> pin_level tr ADC_0_CS = Some HIGH \<and> pin_level tr ADC_1_CS = Some HIGH
     \<and> pin_level tr ADC_2_CS = Some HIGH"

text \<open>The pins that either initialisation drives, and the levels it leaves them at.\<close>

definition init_pins :: "RPiGPIOPin list" where
  "init_pins = [ADC_0_CS, ADC_1_CS, ADC_2_CS, MAIN_VALVE, WATER_VALVE, GITVC_VALVE, IGN_START]"

definition safe_level :: "RPiGPIOPin \<Rightarrow> gpio_level" where
  "safe_level p = (if p \<in> {MAIN_VALVE, WATER_VALVE, IGN_START} then LOW else HIGH)"

lemma safe_pins_iff: "safe_pins tr \<longleftrightarrow> (\<forall>p \<in> set init_pins. pin_level tr p = Some (safe_level p))"
  by (auto simp: safe_pins_def init_pins_def safe_level_def pin_defs)

text \<open>Calls that leave a pin alone or at that level.\<close>

definition only_shuts :: "event list \<Rightarrow> event list \<Rightarrow> bool" where
  "only_shuts tr tr' \<longleftrightarrow> (\<forall>p. pin_level tr' p = pin_level tr p \<or> pin_level tr' p = Some (safe_level p))"

lemma only_shutsI: "(\<And>p. pin_level tr' p = pin_level tr p \<or> pin_level tr' p = Some (safe_level p)) \<Longrightarrow> only_shuts tr tr'"
  by (simp add: only_shuts_def)

lemma only_shuts_trans: "only_shuts a b \<Longrightarrow> only_shuts b c \<Longrightarrow> only_shuts a c"
  unfolding only_shuts_def by metis

lemma pin_level_init:
  "pin_level (initialize_pins tr) p =
     (case p of GPIO_0 \<Rightarrow> pin_level tr p
      | RPI_V2_GPIO_P1_11 \<Rightarrow> Some LOW | RPI_V2_GPIO_P1_13 \<Rightarrow> Some LOW | RPI_V2_GPIO_P1_15 \<Rightarrow> Some LOW
      | _ \<Rightarrow> Some HIGH)"
  by (cases p) (simp_all add: initialize_pins_def pin_defs pin_level_def)

lemma pin_level_titan_init: "pin_level (titan_initialize_pins tr) = pin_level (initialize_pins tr)"
proof
  fix p
  show "pin_level (titan_initialize_pins tr) p = pin_level (initialize_pins tr) p"
    by (cases p) (simp_all add: initialize_pins_def titan_initialize_pins_def pin_defs pin_level_def)
qed

text \<open>
  Whatever happened before, either pin initialisation ends in the safe state, without ever
  driving the main valve or the igniter high on the way, and the two leave every pin at the
  same level, so that running Luna's as the exit handler is right for Titan too.
\<close>

theorem initialization_safe:
  "safe_pins (initialize_pins tr) \<and> safe_pins (titan_initialize_pins tr)
   \<and> pin_level (titan_initialize_pins tr) = pin_level (initialize_pins tr)
   \<and> (\<exists>us. initialize_pins tr = tr @ us
        \<and> Gpio_write MAIN_VALVE HIGH \<notin> set us \<and> Gpio_write IGN_START HIGH \<notin> set us)
   \<and> (\<exists>us. titan_initialize_pins tr = tr @ us
        \<and> Gpio_write MAIN_VALVE HIGH \<notin> set us \<and> Gpio_write IGN_START HIGH \<notin> set us)"
proof (intro conjI)
  show "safe_pins (initialize_pins tr)" "safe_pins (titan_initialize_pins tr)"
    by (simp_all add: safe_pins_def pin_level_titan_init pin_level_init pin_defs)
  show "pin_level (titan_initialize_pins tr) = pin_level (initialize_pins tr)"
    by (rule pin_level_titan_init)
qed (simp_all add: initialize_pins_def titan_initialize_pins_def pin_defs)

end
