(* ===== verification/SensorVisit.thy ===== *)
theory SensorVisit
  imports WorkerVisitor Initialization
begin

text \<open>
  What \<open>worker_visitTimed\<close> does for a sensor, branch by branch: one reading into the sensor's ring,
  the pressure shutoff, and the periodic send.
\<close>

section \<open>The visit in closed form\<close>

lemma exec_single: "exec [c] s = c s"
  by (simp split: sum.splits)

lemma exec_two: "exec [c, d] s = (case c s of Inl e \<Rightarrow> Inl e | Inr u \<Rightarrow> d u)"
  by (simp split: sum.splits)

definition shut_down :: "'a worker_visitor_scheme \<Rightarrow> 'a worker_visitor_scheme" where
  "shut_down s =
     s\<lparr>trace := gpio_write GITVC_VALVE HIGH (gpio_write IGN_START LOW (gpio_write MAIN_VALVE LOW (trace s))),
       burn_on := False\<rparr>"

definition tripped :: "config \<Rightarrow> 'a worker_visitor_scheme \<Rightarrow> bool" where
  "tripped C s \<longleftrightarrow> out_of_band C s \<and> now s - start_time_nitr s > 1000000"

definition pressure_step :: "env \<Rightarrow> config \<Rightarrow> 'a worker_visitor_scheme \<Rightarrow> 'a worker_visitor_scheme" where
  "pressure_step E C s =
     (let s1 = s\<lparr>pressure_avg := new_pressure E C (adc_dat (adc_data s)) (pressure_avg s)\<rparr>
      in if tripped C s1 then shut_down s1 else s1)"

lemma check_pressure_eq: "check_pressure E C s = Inr (pressure_step E C s)"
  by (simp add: check_pressure_def update_pressure_def when_s_def gpio_def assign_def pressure_step_def
      tripped_def shut_down_def)

definition sampled ::
    "env \<Rightarrow> config \<Rightarrow> nat \<Rightarrow> 16 word \<Rightarrow> event list \<Rightarrow> 'a worker_visitor_scheme \<Rightarrow> 'a worker_visitor_scheme" where
  "sampled E C i v tr s =
     (let s1 = s\<lparr>ti_list := (ti_list s)\<lparr>tis := (tis (ti_list s))[i := (ti_at i s)\<lparr>scheduled := now s\<rparr>]\<rparr>,
                 adc_data := (adc_data s)\<lparr>adc_dat := ucast v\<rparr>, trace := tr\<rparr>;
          s2 = (if ti_action (ti_at i s) = pt_comb \<and> pressure_shutoff C then pressure_step E C s1 else s1)
      in s2\<lparr>adc_data := \<lparr>adc_dat = ucast v, adc_t = now s\<rparr>\<rparr>)"

lemma sampled_fields [simp]:
  "heap (sampled E C i v tr s) = heap s" "qn (sampled E C i v tr s) = qn s"
  "qw (sampled E C i v tr s) = qw s" "nw (sampled E C i v tr s) = nw s"
  "now (sampled E C i v tr s) = now s" "nq_item (sampled E C i v tr s) = nq_item s"
  "start_time_nitr (sampled E C i v tr s) = start_time_nitr s"
  "base_time (sampled E C i v tr s) = base_time s"
  "ti_list (sampled E C i v tr s) = (ti_list s)\<lparr>tis := (tis (ti_list s))[i := (ti_at i s)\<lparr>scheduled := now s\<rparr>]\<rparr>"
  "adc_data (sampled E C i v tr s) = \<lparr>adc_dat = ucast v, adc_t = now s\<rparr>"
  by (simp_all add: sampled_def pressure_step_def shut_down_def Let_def)

lemma at_sensor_sampled:
  assumes "at_sensor i s"
  shows "at_sensor i (sampled E C i v tr s)"
proof -
  have "vis_wf (s\<lparr>ti_list := (ti_list s)\<lparr>tis := (tis (ti_list s))
      [i := (\<lambda>x. x\<lparr>scheduled := now s\<rparr>) (tis (ti_list s) ! i)]\<rparr>\<rparr>)"
    using assms by (intro vis_wf_update_item) (simp_all add: at_sensor_def harmless_def)
  then show ?thesis using assms by (simp add: vis_wf_defs ti_at_def)
qed

lemma ti_at_sampled:
  "at_sensor i s \<Longrightarrow> ti_at i (sampled E C i v tr s) = (ti_at i s)\<lparr>scheduled := now s\<rparr>"
  using vis_wf_length [of s] by (simp add: ti_at_def at_sensor_def)

lemma sample_eq:
  assumes s: "at_sensor i s" and a: "ti_buffer (ti_at i s) = Some a"
    and r: "read_item E (adc_info (ti_at i s)) (trace s) = (v, tr)"
  shows "\<exists>b. add_data (heap s ! a) (reading_bytes \<lparr>adc_dat = ucast v, adc_t = now s\<rparr>) = Inr b \<and> cb_wf b
    \<and> nbytes b = nbytes (heap s ! a)
    \<and> exec [read_adc E i,
            when_s (\<lambda>s. ti_action (ti_at i s) = pt_comb \<and> pressure_shutoff C) [check_pressure E C],
            assign (\<lambda>s. s\<lparr>adc_data := (adc_data s)\<lparr>adc_t := now s\<rparr>\<rparr>),
            store_reading i]
         (s\<lparr>ti_list := (ti_list s)\<lparr>tis := (tis (ti_list s))[i := (ti_at i s)\<lparr>scheduled := now s\<rparr>]\<rparr>\<rparr>)
       = Inr ((sampled E C i v tr s)\<lparr>heap := (heap s)[a := b]\<rparr>)"
proof -
  let ?s1 = "s\<lparr>ti_list := (ti_list s)\<lparr>tis := (tis (ti_list s))[i := (ti_at i s)\<lparr>scheduled := now s\<rparr>]\<rparr>\<rparr>"
  have ti1: "ti_at i ?s1 = (ti_at i s)\<lparr>scheduled := now s\<rparr>"
    using s vis_wf_length [of s] by (simp add: ti_at_def at_sensor_def)
  have pre: "exec [read_adc E i,
            when_s (\<lambda>s. ti_action (ti_at i s) = pt_comb \<and> pressure_shutoff C) [check_pressure E C],
            assign (\<lambda>s. s\<lparr>adc_data := (adc_data s)\<lparr>adc_t := now s\<rparr>\<rparr>)] ?s1 = Inr (sampled E C i v tr s)"
    by (simp add: read_adc_def ti1 r when_s_def check_pressure_eq assign_def sampled_def Let_def
        pressure_step_def shut_down_def)
  have "ti_buffer (ti_at i (sampled E C i v tr s)) = Some a"
    using a by (simp add: ti_at_sampled [OF s])
  from store_reading_eq [OF at_sensor_sampled [OF s] this] obtain b where
    b: "add_data (heap s ! a) (reading_bytes \<lparr>adc_dat = ucast v, adc_t = now s\<rparr>) = Inr b" "cb_wf b"
    "nbytes b = nbytes (heap s ! a)"
    and st: "store_reading i (sampled E C i v tr s) = Inr ((sampled E C i v tr s)\<lparr>heap := (heap s)[a := b]\<rparr>)"
    by auto
  show ?thesis
    using exec_append [of "[read_adc E i,
            when_s (\<lambda>s. ti_action (ti_at i s) = pt_comb \<and> pressure_shutoff C) [check_pressure E C],
            assign (\<lambda>s. s\<lparr>adc_data := (adc_data s)\<lparr>adc_t := now s\<rparr>\<rparr>)]" "[store_reading i]" ?s1] pre st b
    by (intro exI [of _ b]) simp
qed

lemma visitTimed_reading:
  assumes wf: "vis_wf s" and item: "extra_datap item = Some i" "i < 10"
    and u: "get_time E (base_time s) (trace s) = (u, tr0)"
    and a: "ti_buffer (ti_at i s) = Some a"
    and r: "read_item E (adc_info (ti_at i s)) tr0 = (v, tr)"
  obtains b s1 where
    "add_data (heap s ! a) (reading_bytes \<lparr>adc_dat = ucast v, adc_t = u\<rparr>) = Inr b" "cb_wf b"
    "nbytes b = nbytes (heap s ! a)"
    "s1 = (sampled E C i v tr (s\<lparr>now := u, trace := tr0\<rparr>))\<lparr>heap := (heap s)[a := b]\<rparr>"
    "at_sensor i s1" "ti_at i s1 = (ti_at i s)\<lparr>scheduled := u\<rparr>" "heap s1 ! a = b"
    "worker_visitTimed E C item s = when_s (\<lambda>s. now s - last_send (ti_at i s) > word_of_int SEND_TIME) [send_data E i] s1"
proof -
  define s0 where "s0 = s\<lparr>now := u, trace := tr0\<rparr>"
  have s0: "at_sensor i s0" "ti_at i s0 = ti_at i s" "now s0 = u"
    using wf item(2) by (simp_all add: at_sensor_def s0_def)
  obtain b where b: "add_data (heap s ! a) (reading_bytes \<lparr>adc_dat = ucast v, adc_t = u\<rparr>) = Inr b" "cb_wf b"
    "nbytes b = nbytes (heap s ! a)"
    and st: "exec [read_adc E i,
            when_s (\<lambda>s. ti_action (ti_at i s) = pt_comb \<and> pressure_shutoff C) [check_pressure E C],
            assign (\<lambda>s. s\<lparr>adc_data := (adc_data s)\<lparr>adc_t := now s\<rparr>\<rparr>), store_reading i]
         (s0\<lparr>ti_list := (ti_list s0)\<lparr>tis := (tis (ti_list s0))[i := (ti_at i s0)\<lparr>scheduled := now s0\<rparr>]\<rparr>\<rparr>)
       = Inr ((sampled E C i v tr s0)\<lparr>heap := (heap s)[a := b]\<rparr>)"
    using sample_eq [of i s0 a E v tr C] a r s0 by (auto simp: s0_def)
  define s1 where "s1 = (sampled E C i v tr s0)\<lparr>heap := (heap s)[a := b]\<rparr>"
  have ti1: "ti_at i s1 = (ti_at i s)\<lparr>scheduled := u\<rparr>"
    using ti_at_sampled [OF s0(1)] s0 by (simp add: s1_def)
  have wf1: "at_sensor i s1"
    using at_sensor_sampled [OF s0(1)] vis_wf_ring [OF _ b(2), of "sampled E C i v tr s0" a]
    by (simp add: s1_def at_sensor_def s0_def)
  have a1: "a < length (heap s)" using wf a item wiring_ok_sensor [of "heap s" "tis (ti_list s)" i]
    by (auto simp: vis_wf_def ti_at_def)
  define s0' where "s0' = s0\<lparr>ti_list := (ti_list s0)\<lparr>tis := (tis (ti_list s0))
      [i := (ti_at i s0)\<lparr>scheduled := now s0\<rparr>]\<rparr>\<rparr>"
  have i: "i < length (tis (ti_list s0))" "ti_at i s0' = (ti_at i s)\<lparr>scheduled := u\<rparr>"
    using vis_wf_length [OF wf] item(2) s0(2,3) by (simp_all add: s0_def s0'_def ti_at_def)
  have "worker_visitTimed E C item s = exec
        ([read_adc E i,
          when_s (\<lambda>s. ti_action (ti_at i s) = pt_comb \<and> pressure_shutoff C) [check_pressure E C],
          assign (\<lambda>s. s\<lparr>adc_data := (adc_data s)\<lparr>adc_t := now s\<rparr>\<rparr>), store_reading i]
         @ [when_s (\<lambda>s. now s - last_send (ti_at i s) > word_of_int SEND_TIME) [send_data E i]]) s0'"
    using i a item(1)
    by (simp add: worker_visitTimed_def exec_two exec_single read_clock_def u with_ti_def set_ti_def
        when_s_def [where b = "\<lambda>s. \<exists>y. ti_buffer (ti_at i s) = Some y"] s0_def [symmetric] s0'_def [symmetric]
        del: exec.simps)
  then have head: "worker_visitTimed E C item s
      = when_s (\<lambda>s. now s - last_send (ti_at i s) > word_of_int SEND_TIME) [send_data E i] s1"
    unfolding exec_append by (simp only: st [folded s0'_def] sum.case exec_single s1_def [symmetric])
  have ring: "heap s1 ! a = b" using a1 by (simp add: s1_def)
  have s1: "s1 = (sampled E C i v tr (s\<lparr>now := u, trace := tr0\<rparr>))\<lparr>heap := (heap s)[a := b]\<rparr>"
    by (simp add: s1_def s0_def)
  show thesis by (rule that [OF b s1 wf1 ti1 ring head])
qed

lemma visitTimed_sensor:
  assumes wf: "vis_wf s" and item: "extra_datap item = Some i" "i < 10"
    and u: "get_time E (base_time s) (trace s) = (u, tr0)"
    and a: "ti_buffer (ti_at i s) = Some a"
    and r: "read_item E (adc_info (ti_at i s)) tr0 = (v, tr)"
  obtains b s1 where
    "add_data (heap s ! a) (reading_bytes \<lparr>adc_dat = ucast v, adc_t = u\<rparr>) = Inr b" "cb_wf b"
    "nbytes b = nbytes (heap s ! a)"
    "s1 = (sampled E C i v tr (s\<lparr>now := u, trace := tr0\<rparr>))\<lparr>heap := (heap s)[a := b]\<rparr>" "vis_wf s1"
    "u - last_send (ti_at i s) \<le> 500000 \<Longrightarrow> worker_visitTimed E C item s = Inr s1"
    "u - last_send (ti_at i s) > 500000 \<Longrightarrow> \<exists>r tr'.
        worker_visitTimed E C item s = Inr ((sent i (bytes_written b) s1)\<lparr>trace := tr'\<rparr>)
        \<and> write_from_nqi E (heap s1) (nqi_for (nq_item s) (bytes_written b) (ti_at i s)) (trace s1) = Inr (r, tr')
        \<and> quiet_after (trace s1) tr'"
proof -
  from visitTimed_reading [OF wf item u a r, where C = C] obtain b s1 where
    b: "add_data (heap s ! a) (reading_bytes \<lparr>adc_dat = ucast v, adc_t = u\<rparr>) = Inr b" "cb_wf b"
      "nbytes b = nbytes (heap s ! a)"
    and s1: "s1 = (sampled E C i v tr (s\<lparr>now := u, trace := tr0\<rparr>))\<lparr>heap := (heap s)[a := b]\<rparr>"
    and wf1: "at_sensor i s1" and ti1: "ti_at i s1 = (ti_at i s)\<lparr>scheduled := u\<rparr>" and ring: "heap s1 ! a = b"
    and head: "worker_visitTimed E C item s
      = when_s (\<lambda>s. now s - last_send (ti_at i s) > word_of_int SEND_TIME) [send_data E i] s1" .
  have same: "last_send (ti_at i s1) = last_send (ti_at i s)" "ti_buffer (ti_at i s1) = Some a"
    "nqi_for x bw (ti_at i s1) = nqi_for x bw (ti_at i s)" for x bw
    using a by (simp_all add: ti1 nqi_for_def)
  have same': "now s1 = u" "nq_item s1 = nq_item s" by (simp_all add: s1)
  show thesis
  proof (rule that [OF b s1])
    show "vis_wf s1" using wf1 by (simp add: at_sensor_def)
    show "worker_visitTimed E C item s = Inr s1" if "u - last_send (ti_at i s) \<le> 500000"
      using leD [OF that] by (simp add: head when_s_def same same' SEND_TIME_def)
    show "\<exists>r tr'. worker_visitTimed E C item s = Inr ((sent i (bytes_written b) s1)\<lparr>trace := tr'\<rparr>)
        \<and> write_from_nqi E (heap s1) (nqi_for (nq_item s) (bytes_written b) (ti_at i s)) (trace s1) = Inr (r, tr')
        \<and> quiet_after (trace s1) tr'" if "u - last_send (ti_at i s) > 500000"
      using that send_data_eq [OF wf1 same(2) refl, of E]
      by (simp add: head when_s_def ring same same' SEND_TIME_def exec_single del: exec.simps)
  qed
qed

text \<open>A stage of a burn has no ring: the base class only restarts its delay.\<close>

lemma visitTimed_stage:
  assumes "vis_wf s" and "extra_datap item = Some i" and "10 \<le> i" and "i < 13"
    and "get_time E (base_time s) (trace s) = (u, tr0)"
  shows "worker_visitTimed E C item s =
    Inr (s\<lparr>now := u, trace := tr0,
           ti_list := (ti_list s)\<lparr>tis := (tis (ti_list s))[i := (ti_at i s)\<lparr>scheduled := u\<rparr>]\<rparr>\<rparr>)"
proof -
  have "ti_buffer (tis (ti_list s) ! i) = None"
    using assms(1,3,4) wiring_ok_stage by (auto simp: vis_wf_def)
  then show ?thesis
    using assms vis_wf_length [OF assms(1)]
    by (simp add: worker_visitTimed_def read_clock_def with_ti_def set_ti_def ti_at_def when_s_def)
qed

section \<open>What reaches the outside\<close>

text \<open>The sensors' chip selects are no valves.\<close>

definition valve_pins :: "RPiGPIOPin list" where
  "valve_pins = [MAIN_VALVE, WATER_VALVE, GITVC_VALVE, IGN_START]"

lemma sensor_pin:
  assumes "wiring_ok hp ts" and "i < 10"
  shows "pin (adc_info (ts ! i)) \<in> {ADC_1_CS, ADC_2_CS}"
proof -
  have m: "map adc_info ts = map adc_info (temp_ti_list 0)" using assms(1) by (simp add: wiring_ok_def)
  then have "length ts = 13" by (auto simp: temp_ti_list_def dest: arg_cong [where f = length])
  then have "adc_info (ts ! i) = map adc_info ts ! i" using assms(2) by simp
  also have "\<dots> = map adc_info (temp_ti_list 0) ! i" by (simp only: m)
  finally have "adc_info (ts ! i) = map adc_info (temp_ti_list 0) ! i" .
  moreover have "list_all (\<lambda>i. pin (map adc_info (temp_ti_list 0) ! i) \<in> {ADC_1_CS, ADC_2_CS}) [0..<10]"
    by (simp add: temp_ti_list_def timed_item_new_def adc_info_new_def upt_rec LC_ADC_def PT_ADC_def TC_ADC_def)
  ultimately show ?thesis using assms(2) by (simp add: list_all_iff)
qed

lemma sensor_read_pins:
  assumes "vis_wf s" and "i < 10" and "p \<in> set valve_pins"
    and "read_item E (adc_info (ti_at i s)) tr = (v, tr')"
  shows "pin_level tr' p = pin_level tr p"
proof -
  have "pin (adc_info (ti_at i s)) \<in> {ADC_1_CS, ADC_2_CS}"
    using assms(1,2) sensor_pin by (auto simp: vis_wf_def ti_at_def)
  then have "p \<noteq> pin (adc_info (ti_at i s))" using assms(3) by (auto simp: valve_pins_def pin_defs)
  with read_item_pins [of E "adc_info (ti_at i s)" tr p] assms(4) show ?thesis by simp
qed

lemma sent_fields [simp]:
  "heap (sent i bw s) = heap s" "qw (sent i bw s) = qw s" "nw (sent i bw s) = nw s"
  "now (sent i bw s) = now s" "start_time_nitr (sent i bw s) = start_time_nitr s"
  "base_time (sent i bw s) = base_time s" "pressure_avg (sent i bw s) = pressure_avg s"
  "burn_on (sent i bw s) = burn_on s" "adc_data (sent i bw s) = adc_data s"
  by (simp_all add: sent_def Let_def)

lemma length_reading_bytes [simp]: "length (reading_bytes r) = 16"
  by (simp add: reading_bytes_def)

text \<open>What a sensor's visit can do to the valves: nothing, or the shutoff, when it is due.\<close>

definition valves_kept :: "event list \<Rightarrow> event list \<Rightarrow> bool" where
  "valves_kept tr tr' \<longleftrightarrow> (\<forall>p \<in> set valve_pins. pin_level tr' p = pin_level tr p)"

definition valves_shut :: "event list \<Rightarrow> event list \<Rightarrow> bool" where
  "valves_shut tr tr' \<longleftrightarrow> pin_level tr' MAIN_VALVE = Some LOW \<and> pin_level tr' IGN_START = Some LOW
     \<and> pin_level tr' GITVC_VALVE = Some HIGH \<and> pin_level tr' WATER_VALVE = pin_level tr WATER_VALVE"

definition shutoff_due :: "config \<Rightarrow> rat \<Rightarrow> timestamp_t \<Rightarrow> timestamp_t \<Rightarrow> bool" where
  "shutoff_due C p since u \<longleftrightarrow> pressure_shutoff C
     \<and> (p > of_int (pressure_max C) \<or> p < of_int (pressure_min C)) \<and> u - since > 1000000"

lemma visitTimed_valves:
  assumes wf: "vis_wf s" and item: "extra_datap item = Some i" "i < 10"
    and out: "worker_visitTimed E C item s = Inr s'"
  shows "(valves_kept (trace s) (trace s') \<and> burn_on s' = burn_on s
    \<or> valves_shut (trace s) (trace s') \<and> burn_on s \<and> \<not> burn_on s'
      \<and> shutoff_due C (pressure_avg s') (start_time_nitr s) (now s'))
    \<and> (\<forall>j. j \<noteq> i \<longrightarrow> ti_at j s' = ti_at j s) \<and> start_time_nitr s' = start_time_nitr s"
proof -
  obtain u tr0 where u: "get_time E (base_time s) (trace s) = (u, tr0)" by (meson surj_pair)
  obtain v tr where r: "read_item E (adc_info (ti_at i s)) tr0 = (v, tr)" by (meson surj_pair)
  obtain a where a: "ti_buffer (ti_at i s) = Some a"
    using at_sensor_ring [of i s] wf item(2) by (auto simp: at_sensor_def)
  obtain b s1 where
    s1: "s1 = (sampled E C i v tr (s\<lparr>now := u, trace := tr0\<rparr>))\<lparr>heap := (heap s)[a := b]\<rparr>"
    and skip: "u - last_send (ti_at i s) \<le> 500000 \<Longrightarrow> worker_visitTimed E C item s = Inr s1"
    and send: "u - last_send (ti_at i s) > 500000 \<Longrightarrow> \<exists>r tr'.
      worker_visitTimed E C item s = Inr ((sent i (bytes_written b) s1)\<lparr>trace := tr'\<rparr>)
      \<and> quiet_after (trace s1) tr'"
    by (rule visitTimed_sensor [OF wf item u a r]) blast
  have s': "quiet_after (trace s1) (trace s') \<and> burn_on s' = burn_on s1 \<and> (\<forall>j. j \<noteq> i \<longrightarrow> ti_at j s' = ti_at j s1)
      \<and> start_time_nitr s' = start_time_nitr s1 \<and> pressure_avg s' = pressure_avg s1 \<and> now s' = now s1"
    using skip send out
    by (cases "u - last_send (ti_at i s) \<le> 500000") (auto simp: not_le sent_def ti_at_def Let_def)
  have "\<forall>j. j \<noteq> i \<longrightarrow> ti_at j s1 = ti_at j s" by (simp add: s1 ti_at_def)
  with s' have others: "\<forall>j. j \<noteq> i \<longrightarrow> ti_at j s' = ti_at j s" "start_time_nitr s' = start_time_nitr s"
    by (simp_all add: s1)
  have pins: "pin_level (trace s') p = pin_level (trace s1) p" for p
    using s' by (simp add: quiet_after_pin_level)
  have before: "pin_level tr p = pin_level (trace s) p" if "p \<in> set valve_pins" for p
    using sensor_read_pins [OF wf item(2) that r] quiet_after_pin_level [OF get_time_quiet [OF u]] by simp
  have "trace s1 = tr \<and> burn_on s1 = burn_on s \<or> burn_on s \<and> \<not> burn_on s1
      \<and> shutoff_due C (pressure_avg s1) (start_time_nitr s) (now s1)
      \<and> trace s1 = gpio_write GITVC_VALVE HIGH (gpio_write IGN_START LOW (gpio_write MAIN_VALVE LOW tr))"
    by (auto simp: s1 sampled_def pressure_step_def tripped_def out_of_band_def shut_down_def shutoff_due_def Let_def)
  then show ?thesis
    using s' pins before others
    by (elim disjE) (simp_all add: valves_kept_def valves_shut_def valve_pins_def pin_defs)
qed

text \<open>Every other pin too is left alone or at its safe level: the chip select that the reading used is high again.\<close>

lemma visitTimed_only_shuts:
  assumes wf: "vis_wf s" and item: "extra_datap item = Some i" "i < 10"
    and out: "worker_visitTimed E C item s = Inr s'"
  shows "only_shuts (trace s) (trace s')"
proof -
  obtain u tr0 where u: "get_time E (base_time s) (trace s) = (u, tr0)" by (meson surj_pair)
  obtain v tr where r: "read_item E (adc_info (ti_at i s)) tr0 = (v, tr)" by (meson surj_pair)
  obtain a where a: "ti_buffer (ti_at i s) = Some a"
    using at_sensor_ring [of i s] wf item(2) by (auto simp: at_sensor_def)
  obtain b s1 where
    s1: "s1 = (sampled E C i v tr (s\<lparr>now := u, trace := tr0\<rparr>))\<lparr>heap := (heap s)[a := b]\<rparr>"
    and skip: "u - last_send (ti_at i s) \<le> 500000 \<Longrightarrow> worker_visitTimed E C item s = Inr s1"
    and send: "u - last_send (ti_at i s) > 500000 \<Longrightarrow> \<exists>r tr'.
      worker_visitTimed E C item s = Inr ((sent i (bytes_written b) s1)\<lparr>trace := tr'\<rparr>)
      \<and> quiet_after (trace s1) tr'"
    by (rule visitTimed_sensor [OF wf item u a r]) blast
  have "quiet_after (trace s1) (trace s')"
    using skip send out by (cases "u - last_send (ti_at i s) \<le> 500000") (auto simp: not_le)
  then have last: "pin_level (trace s') p = pin_level (trace s1) p" for p by (rule quiet_after_pin_level)
  have "trace s1 = tr \<or> trace s1 = gpio_write GITVC_VALVE HIGH (gpio_write IGN_START LOW (gpio_write MAIN_VALVE LOW tr))"
    by (auto simp: s1 sampled_def pressure_step_def tripped_def shut_down_def Let_def)
  then have shut: "pin_level (trace s1) p = pin_level tr p \<or> pin_level (trace s1) p = Some (safe_level p)" for p
    by (auto simp: safe_level_def pin_defs)
  have "pin (adc_info (ti_at i s)) \<in> {ADC_1_CS, ADC_2_CS}"
    using wf item(2) sensor_pin by (auto simp: vis_wf_def ti_at_def)
  then have "safe_level (pin (adc_info (ti_at i s))) = HIGH" by (auto simp: safe_level_def pin_defs)
  then have "pin_level tr p = pin_level (trace s) p \<or> pin_level tr p = Some (safe_level p)" for p
    using read_item_pins [of E "adc_info (ti_at i s)" tr0 p] r quiet_after_pin_level [OF get_time_quiet [OF u], of p]
    by (simp split: if_splits)
  with last shut show ?thesis by (intro only_shutsI) metis
qed

text \<open>
  C12. The pressure shutoff: a visit to the combustion chamber sensor updates the running
  average from the value read, and if that leaves the configured band while a burn is on, more
  than a second after it began, the main valve and the igniter are off and GITVC is closed when
  the visit returns, and the burn is over; otherwise no valve and no igniter changes.
\<close>

theorem pressure_shutoff_safe:
  assumes "vis_wf s" and "extra_datap item = Some 5" and "pressure_shutoff C"
  shows "\<exists>s' v. worker_visitTimed E C item s = Inr s' \<and> v = adc_dat (adc_data s')
    \<and> now s' = fst (get_time E (base_time s) (trace s))
    \<and> pressure_avg s' = new_pressure E C v (pressure_avg s)
    \<and> (if (pressure_avg s' > of_int (pressure_max C) \<or> pressure_avg s' < of_int (pressure_min C))
           \<and> burn_on s \<and> now s' - start_time_nitr s > 1000000
       then pin_level (trace s') MAIN_VALVE = Some LOW \<and> pin_level (trace s') IGN_START = Some LOW
         \<and> pin_level (trace s') GITVC_VALVE = Some HIGH \<and> \<not> burn_on s'
       else (\<forall>p \<in> set valve_pins. pin_level (trace s') p = pin_level (trace s) p) \<and> burn_on s' = burn_on s)"
proof -
  obtain u tr0 where u: "get_time E (base_time s) (trace s) = (u, tr0)" by (meson surj_pair)
  obtain v tr where r: "read_item E (adc_info (ti_at 5 s)) tr0 = (v, tr)" by (meson surj_pair)
  obtain a where a: "ti_buffer (ti_at 5 s) = Some a"
    using at_sensor_ring [of 5 s] assms(1) by (auto simp: at_sensor_def)
  obtain b s1 where
    s1: "s1 = (sampled E C 5 v tr (s\<lparr>now := u, trace := tr0\<rparr>))\<lparr>heap := (heap s)[a := b]\<rparr>"
    and skip: "u - last_send (ti_at 5 s) \<le> 500000 \<Longrightarrow> worker_visitTimed E C item s = Inr s1"
    and send: "u - last_send (ti_at 5 s) > 500000 \<Longrightarrow> \<exists>r tr'.
      worker_visitTimed E C item s = Inr ((sent 5 (bytes_written b) s1)\<lparr>trace := tr'\<rparr>)
      \<and> quiet_after (trace s1) tr'"
    by (rule visitTimed_sensor [OF assms(1,2) _ u a r]) (simp, blast)
  obtain bw tr' s' where out: "worker_visitTimed E C item s = Inr s'" and q: "quiet_after (trace s1) tr'"
    and s': "s' = s1 \<and> tr' = trace s1 \<or> s' = (sent 5 bw s1)\<lparr>trace := tr'\<rparr>"
    using skip send by (cases "u - last_send (ti_at 5 s) \<le> 500000") (auto simp: not_le)
  have pins: "pin_level tr' p = pin_level (trace s1) p" for p
    using q by (rule quiet_after_pin_level)
  have before: "pin_level tr p = pin_level (trace s) p" if "p \<in> set valve_pins" for p
    using sensor_read_pins [OF assms(1) _ that r] quiet_after_pin_level [OF get_time_quiet [OF u]] by simp
  have "ti_action (ti_at 5 s) = pt_comb"
    using assms(1) by (simp add: ti_action_nth item_actions_def)
  then have eq: "trace s1 = trace (pressure_step E C (s\<lparr>now := u, adc_data := (adc_data s)\<lparr>adc_dat := ucast v\<rparr>, trace := tr\<rparr>))"
    "pressure_avg s1 = new_pressure E C (ucast v) (pressure_avg s)"
    "burn_on s1 = burn_on (pressure_step E C (s\<lparr>now := u, adc_data := (adc_data s)\<lparr>adc_dat := ucast v\<rparr>, trace := tr\<rparr>))"
    using assms(3) by (auto simp: s1 sampled_def pressure_step_def tripped_def out_of_band_def shut_down_def Let_def)
  have s'f: "trace s' = tr'" "pressure_avg s' = pressure_avg s1" "burn_on s' = burn_on s1" "now s' = u"
    "adc_dat (adc_data s') = ucast v"
    using s' by (auto simp: s1)
  show ?thesis
    using out before
    by (intro exI [of _ s'] exI [of _ "ucast v"])
      (simp add: s'f u eq pins pressure_step_def tripped_def out_of_band_def shut_down_def Let_def pin_defs)
qed

theorem pressure_shutoff_safe_witness:
  "\<exists>s'. worker_visitTimed sample_env (sample_config\<lparr>pressure_max := 600\<rparr>) (timed_wqi 5)
       (sample_visitor\<lparr>burn_on := True, trace := [Bcm_init True, Spi_begin True]\<rparr>) = Inr s'
     \<and> pin_level (trace s') MAIN_VALVE = Some LOW \<and> pin_level (trace s') IGN_START = Some LOW"
proof -
  let ?s = "sample_visitor\<lparr>burn_on := True, trace := [Bcm_init True, Spi_begin True]\<rparr>"
  have wf: "vis_wf ?s" by (simp add: sample_visitor_wf)
  have "new_pressure sample_env (sample_config\<lparr>pressure_max := 600\<rparr>) v 700 > 600" for v
  proof -
    have "(0 :: rat) \<le> of_nat (unat v)" by (rule of_nat_0_le_iff)
    then show ?thesis
      by (simp add: new_pressure_def sample_env_def sample_config_def add_pos_nonneg)
  qed
  with pressure_shutoff_safe [OF wf, of "timed_wqi 5" "sample_config\<lparr>pressure_max := 600\<rparr>" sample_env]
  show ?thesis
    by (auto simp: sample_config_def get_time_def gettimeofday_def sample_env_def Let_def)
qed

end
