(* ===== verification/MainWorker.thy ===== *)
theory MainWorker
  imports SensorVisit
begin

text \<open>
  \<open>src/final/main_worker.cpp\<close>: the loop of the worker thread, over any engine's visitor, and what
  it sends: the byte ranges that one sensor's send items announce follow one another.
\<close>

section \<open>The loop\<close>

text \<open>
  The loop never ends: \<open>worker_method wqv n\<close> are its first \<open>n\<close> rounds. \<open>wqv\<close> is the \<open>visit\<close> of the
  visitor object the worker was given.
\<close>

definition worker_step ::
    "(work_queue_item \<Rightarrow> 'a process_scheme \<Rightarrow> error + 'a process_scheme)
     \<Rightarrow> 'a process_scheme \<Rightarrow> error + 'a process_scheme" where
  "worker_step wqv s = (case poll (qw s) of (item, qw') \<Rightarrow> wqv item (s\<lparr>qw := qw'\<rparr>))"

primrec worker_method ::
    "(work_queue_item \<Rightarrow> 'a process_scheme \<Rightarrow> error + 'a process_scheme) \<Rightarrow> nat
     \<Rightarrow> 'a process_scheme \<Rightarrow> error + 'a process_scheme" where
  "worker_method wqv 0 s = Inr s"
| "worker_method wqv (Suc n) s =
     (case worker_step wqv s of Inl e \<Rightarrow> Inl e | Inr s' \<Rightarrow> worker_method wqv n s')"

section \<open>Ranges sent\<close>

text \<open>The ranges of the items follow one another from stream offset \<open>k\<close> to \<open>k'\<close>.\<close>

fun tiles :: "size_t \<Rightarrow> network_queue_item list \<Rightarrow> size_t \<Rightarrow> bool" where
  "tiles k [] k' \<longleftrightarrow> k = k'"
| "tiles k (x # xs) k' \<longleftrightarrow> total_bytes x = k \<and> tiles (k + nqi_nbytes x) xs k'"

lemma tiles_append: "tiles k xs m \<Longrightarrow> tiles m ys k' \<Longrightarrow> tiles k (xs @ ys) k'"
  by (induction xs arbitrary: k) auto

text \<open>The part of the state that sending is about.\<close>

type_synonym send_state = "network_queue_item list \<times> network_worker \<times> (nat option \<times> size_t) list"

definition send_view :: "'a worker_visitor_scheme \<Rightarrow> send_state" where
  "send_view s = (q (qn s), nw s, map (\<lambda>x. (ti_buffer x, nbytes_last_send x)) (tis (ti_list s)))"

text \<open>
  From one state to a later one of the worker: items were only added to the network queue, and
  those for the ring of sensor \<open>j\<close> run from its old \<open>nbytes_last_send\<close> to its new one.
\<close>

fun sends_from :: "send_state \<Rightarrow> send_state \<Rightarrow> bool" where
  "sends_from (xs, n, ts) (xs', n', ts') \<longleftrightarrow>
     n' = n \<and> map fst ts' = map fst ts \<and>
     (\<exists>ys. xs' = xs @ ys \<and>
       (connected n \<longrightarrow> (\<forall>j < 10. tiles (snd (ts ! j)) (filter (\<lambda>y. nqi_buff y = fst (ts ! j)) ys) (snd (ts' ! j)))))"

lemma sends_from_refl: "sends_from v v"
  by (cases v) simp

lemma sends_from_trans:
  assumes "sends_from u v" and "sends_from v w" and "length (snd (snd u)) = 13"
  shows "sends_from u w"
proof -
  obtain xs n ts xs' ts' xs'' ts'' ys zs where
    u: "u = (xs, n, ts)" and v: "v = (xs', n, ts')" and w: "w = (xs'', n, ts'')"
    and f: "map fst ts' = map fst ts" "map fst ts'' = map fst ts"
    and q: "xs' = xs @ ys" "xs'' = xs' @ zs"
    and t: "connected n \<Longrightarrow> \<forall>j < 10. tiles (snd (ts ! j)) (filter (\<lambda>y. nqi_buff y = fst (ts ! j)) ys) (snd (ts' ! j))"
      "connected n \<Longrightarrow> \<forall>j < 10. tiles (snd (ts' ! j)) (filter (\<lambda>y. nqi_buff y = fst (ts' ! j)) zs) (snd (ts'' ! j))"
    using assms(1,2) by (cases u; cases v; cases w) auto
  have len: "length ts = 13" "length ts' = 13"
    using assms(3) f(1) u by (auto dest: arg_cong [where f = length])
  have "fst (ts' ! j) = fst (ts ! j)" if "j < 10" for j
    using arg_cong [OF f(1), of "\<lambda>xs. xs ! j"] that len by simp
  then show ?thesis using u w q f t by (auto intro: tiles_append)
qed

text \<open>Sending leaves what a sensor's own visit makes of its item.\<close>

lemma send_view_simps [simp]:
  "send_view (s\<lparr>trace := tr\<rparr>) = send_view s" "send_view (s\<lparr>now := u\<rparr>) = send_view s"
  "send_view (s\<lparr>adc_data := d\<rparr>) = send_view s" "send_view (s\<lparr>nq_item := x\<rparr>) = send_view s"
  "send_view (s\<lparr>start_time_nitr := u\<rparr>) = send_view s" "send_view (s\<lparr>pressure_avg := r\<rparr>) = send_view s"
  "send_view (burn_on_update f s) = send_view s" "send_view (s\<lparr>heap := hp\<rparr>) = send_view s"
  "send_view (s\<lparr>qw := qs\<rparr>) = send_view s"
  by (simp_all add: send_view_def)

lemma send_view_update_item:
  assumes "\<And>x. ti_buffer (f x) = ti_buffer x \<and> nbytes_last_send (f x) = nbytes_last_send x"
  shows "send_view (s\<lparr>ti_list := l\<lparr>tis := (tis (ti_list s))[i := f (tis (ti_list s) ! i)]\<rparr>\<rparr>) = send_view s"
proof -
  let ?g = "\<lambda>x. (ti_buffer x, nbytes_last_send x)"
  have "map ?g ((tis (ti_list s))[i := f (tis (ti_list s) ! i)]) = map ?g (tis (ti_list s))"
    using assms by (metis (no_types, lifting) list_update_id map_update)
  then show ?thesis by (simp add: send_view_def)
qed

lemma preserves_send_til_update:
  assumes "\<And>s x. ti_buffer (f s x) = ti_buffer x \<and> nbytes_last_send (f s x) = nbytes_last_send x"
  shows "preserves send_view (\<lambda>s. on_list (til_update a (f s)) s)"
  using send_view_update_item [of "f s" for s] assms
  by (auto simp: preserves_def on_list_def til_update_def split: sum.splits)

lemma preserves_send_list [untouched]:
  "preserves send_view (on_list (til_set_delay a d))" "preserves send_view (on_list (til_disable a))"
  "preserves send_view (enable_now a)"
  using preserves_send_til_update [of "\<lambda>s x. x\<lparr>time_delay := d\<rparr>" a]
    preserves_send_til_update [of "\<lambda>s. ti_disable" a] preserves_send_til_update [of "\<lambda>s. ti_enable (now s)" a]
  by (simp_all add: til_set_delay_def til_disable_def til_enable_def enable_now_def [abs_def]
    ti_enable_def ti_disable_def)

lemma preserves_send_set_ti [untouched]:
  "preserves send_view (set_ti i (\<lambda>s x. x\<lparr>scheduled := g s\<rparr>))"
  using send_view_update_item [where f = "\<lambda>x. x\<lparr>scheduled := u\<rparr>" for u]
  by (auto simp: preserves_def set_ti_def ti_at_def)

lemma preserves_send_check:
  "check_ti_list_from u i k s = Inr s' \<Longrightarrow> send_view s' = send_view s"
proof (induction u i k s rule: check_ti_list_from.induct)
  case (1 u i k s)
  show ?case
    using "1.prems" "1.IH" by (subst (asm) check_ti_list_from.simps) (simp split: if_splits)
qed

lemma preserves_send [untouched]:
  "preserves send_view (gpio p v)" "preserves send_view (push_qw x)" "preserves send_view (read_clock E)"
  "preserves send_view (\<lambda>s. check_ti_list (g s) s)" "preserves send_view (visitDefault item)"
  "preserves send_view (assign (burn_on_update f))"
  "preserves send_view (assign (\<lambda>s. s\<lparr>start_time_nitr := h s\<rparr>))"
  by (auto simp: preserves_def process_stmts read_clock_def check_ti_list_def preserves_send_check
    visitDefault_def assign_def split: prod.splits)

lemma preserves_send_handlers [untouched]:
  "preserves send_view (worker_visitIgn E C item)" "preserves send_view (visitNone E item)"
  unfolding worker_visitIgn_def visitNone_def by (intro preserves_rules untouched)+

lemma preserves_send_visitProc [untouched]: "preserves send_view (worker_visitProc item)"
  unfolding worker_visitProc_def
  by (auto split: option.splits send_code.splits intro!: preserves_rules untouched)

lemma send_view_nth:
  "vis_wf s \<Longrightarrow> j < 13 \<Longrightarrow> snd (snd (send_view s)) ! j = (ti_buffer (ti_at j s), nbytes_last_send (ti_at j s))"
  by (simp add: send_view_def ti_at_def vis_wf_length)

lemma send_view_sampled:
  assumes "at_sensor i s"
  shows "send_view (sampled E C i v tr s) = send_view s"
proof -
  have "send_view (sampled E C i v tr s) = send_view
      (s\<lparr>ti_list := (ti_list s)\<lparr>tis := (tis (ti_list s))[i := (\<lambda>x. x\<lparr>scheduled := now s\<rparr>) (tis (ti_list s) ! i)]\<rparr>\<rparr>)"
    by (simp add: send_view_def ti_at_def)
  also have "\<dots> = send_view s" by (rule send_view_update_item) simp
  finally show ?thesis .
qed

lemma sends_sent:
  assumes s: "at_sensor i s" and wf: "vis_wf s"
  shows "sends_from (send_view s) (send_view ((sent i bw s)\<lparr>trace := tr'\<rparr>))"
proof -
  let ?ts = "map (\<lambda>x. (ti_buffer x, nbytes_last_send x)) (tis (ti_list s))"
  let ?item = "nqi_for (nq_item s) bw (ti_at i s)"
  let ?ts' = "?ts[i := (ti_buffer (ti_at i s), bw)]"
  have len: "length (tis (ti_list s)) = 13" and i: "i < 10"
    using s by (auto simp: at_sensor_def vis_wf_length)
  let ?ys = "if connected (nw s) \<and> nqi_nbytes ?item > 0 then [?item] else []"
  have v': "send_view (sent i bw s) =
      (q (qn s) @ ?ys, nw s, ?ts')"
    by (simp add: send_view_def sent_def Let_def map_update)
  have "map fst ?ts' = map fst ?ts"
  proof (rule nth_equalityI)
    fix j assume "j < length (map fst ?ts')"
    then show "map fst ?ts' ! j = map fst ?ts ! j" using len by (cases "j = i") (auto simp: ti_at_def)
  qed simp
  moreover have "tiles (snd (?ts ! j)) (filter (\<lambda>y. nqi_buff y = fst (?ts ! j)) ?ys) (snd (?ts' ! j))"
    if "j < 10" "connected (nw s)" for j
  proof (cases "j = i")
    case True
    have "nqi_nbytes ?item = 0 \<or> nqi_nbytes ?item > 0" unfolding word_gt_0 by metis
    with True that len show ?thesis by (auto simp: nqi_for_def ti_at_def)
  next
    case False
    have "ti_buffer (ti_at i s) \<noteq> ti_buffer (tis (ti_list s) ! j)"
      using wiring_ok_inj [of "heap s" "tis (ti_list s)" i j] False i that wf
      by (auto simp: vis_wf_def ti_at_def)
    with False that len show ?thesis by (simp add: nqi_for_def)
  qed
  ultimately have "sends_from (q (qn s), nw s, ?ts) (q (qn s) @ ?ys, nw s, ?ts')"
    unfolding sends_from.simps by blast
  moreover have "send_view s = (q (qn s), nw s, ?ts)" by (simp add: send_view_def)
  ultimately show ?thesis by (simp only: v' send_view_simps)
qed

text \<open>One visit of the base class, for any item of the list.\<close>

lemma sends_visitTimed:
  assumes wf: "vis_wf s" and item: "wqi_ok item" "wqi_action item = wq_timed"
    and out: "worker_visitTimed E C item s = Inr s'"
  shows "sends_from (send_view s) (send_view s')"
proof -
  obtain i where i: "extra_datap item = Some i" "i < 13" using item by (auto simp: wqi_ok_def)
  obtain u tr0 where u: "get_time E (base_time s) (trace s) = (u, tr0)" by (meson surj_pair)
  show ?thesis
  proof (cases "i < 10")
    case False
    then have "s' = s\<lparr>now := u, trace := tr0, ti_list := (ti_list s)\<lparr>tis := (tis (ti_list s))
        [i := (\<lambda>x. x\<lparr>scheduled := u\<rparr>) (tis (ti_list s) ! i)]\<rparr>\<rparr>"
      using visitTimed_stage [OF wf i(1) _ i(2) u] out by (simp add: ti_at_def)
    then have "send_view s' = send_view (s\<lparr>ti_list := (ti_list s)\<lparr>tis := (tis (ti_list s))
        [i := (\<lambda>x. x\<lparr>scheduled := u\<rparr>) (tis (ti_list s) ! i)]\<rparr>\<rparr>)"
      by (simp add: send_view_def)
    also have "\<dots> = send_view s" by (rule send_view_update_item) simp
    finally show ?thesis by (simp add: sends_from_refl)
  next
    case True
    obtain a where a: "ti_buffer (ti_at i s) = Some a"
      using at_sensor_ring [of i s] wf True by (auto simp: at_sensor_def)
    obtain v tr where r: "read_item E (adc_info (ti_at i s)) tr0 = (v, tr)" by (meson surj_pair)
    obtain b s1 where
      s1: "s1 = (sampled E C i v tr (s\<lparr>now := u, trace := tr0\<rparr>))\<lparr>heap := (heap s)[a := b]\<rparr>" "vis_wf s1"
      and skip: "u - last_send (ti_at i s) \<le> 500000 \<Longrightarrow> worker_visitTimed E C item s = Inr s1"
      and send: "u - last_send (ti_at i s) > 500000 \<Longrightarrow> \<exists>r tr'.
        worker_visitTimed E C item s = Inr ((sent i (bytes_written b) s1)\<lparr>trace := tr'\<rparr>)"
      by (rule visitTimed_sensor [OF wf i(1) True u a r]) blast
    have "send_view s1 = send_view s"
      using send_view_sampled [of i "s\<lparr>now := u, trace := tr0\<rparr>" E C v tr] wf True by (simp add: s1(1) at_sensor_def)
    moreover have "sends_from (send_view s1) (send_view ((sent i (bytes_written b) s1)\<lparr>trace := tr'\<rparr>))" for tr'
      using sends_sent [of i s1] s1(2) True by (simp add: at_sensor_def)
    ultimately show ?thesis
      using skip send out sends_from_refl [of "send_view s"]
      by (cases "u - last_send (ti_at i s) \<le> 500000") (auto simp: not_le)
  qed
qed

text \<open>An invariant together with what was sent since \<open>v\<close>.\<close>

abbreviation sending :: "('a worker_visitor_scheme \<Rightarrow> bool) \<Rightarrow> send_state \<Rightarrow> 'a worker_visitor_scheme \<Rightarrow> bool" where
  "sending P v s \<equiv> P s \<and> sends_from v (send_view s)"

lemma keeps_sends:
  assumes "ensures P c P" and "preserves send_view c"
  shows "ensures (sending P v) c (sending P v)"
  using assms by (rule keeps_preserved) simp

lemma keeps_sends_visitTimed:
  assumes "ensures P (worker_visitTimed E C item) P" and "\<And>s. P s \<Longrightarrow> vis_wf s"
    and "wqi_ok item" and "wqi_action item = wq_timed" and "length (snd (snd v)) = 13"
  shows "ensures (sending P v) (worker_visitTimed E C item) (sending P v)"
proof (rule ensuresI)
  fix s :: "'a worker_visitor_scheme"
  assume s: "P s \<and> sends_from v (send_view s)"
  then obtain s' where s': "worker_visitTimed E C item s = Inr s'" "P s'"
    using assms(1) by (auto elim: ensuresE)
  have "sends_from (send_view s) (send_view s')"
    using sends_visitTimed [OF _ assms(3,4) s'(1)] assms(2) s by blast
  with s sends_from_trans [OF _ this assms(5)] s'
  show "\<exists>u. worker_visitTimed E C item s = Inr u \<and> P u \<and> sends_from v (send_view u)" by blast
qed

section \<open>The contract of an engine\<close>

text \<open>
  What the loop relies on: an invariant that is about nothing the network thread changes, apart
  from the items it queues, and that every visit keeps, without an error, while the ranges it
  sends follow one another.
\<close>

locale engine =
  fixes ok :: "'a worker_visitor_scheme \<Rightarrow> bool"
    and wqv :: "work_queue_item \<Rightarrow> 'a worker_visitor_scheme \<Rightarrow> error + 'a worker_visitor_scheme"
  assumes ok_wf: "ok s \<Longrightarrow> vis_wf s"
    and ok_network: "ok s \<Longrightarrow> list_all wqi_ok xs \<Longrightarrow> list_all (nqi_ok (length (heap s))) ys \<Longrightarrow>
      ok (s\<lparr>qw := (qw s)\<lparr>q := xs\<rparr>, qn := (qn s)\<lparr>q := ys\<rparr>, nw := n, trace := tr\<rparr>)"
    and visit_law: "wqi_ok item \<Longrightarrow> length (snd (snd v)) = 13 \<Longrightarrow>
      ensures (sending ok v) (wqv item) (sending ok v)"
begin

lemma ok_queue:
  assumes "ok s" and "list_all wqi_ok xs"
  shows "ok (s\<lparr>qw := (qw s)\<lparr>q := xs\<rparr>\<rparr>)"
proof -
  have "list_all (nqi_ok (length (heap s))) (q (qn s))"
    using ok_wf [OF assms(1)] by (simp add: vis_wf_defs)
  from ok_network [OF assms this, where n = "nw s" and tr = "trace s"] show ?thesis by simp
qed

text \<open>A round of the loop cannot fail.\<close>

lemma step_law:
  assumes v: "length (snd (snd v)) = 13"
  shows "ensures (sending ok v) (worker_step wqv) (sending ok v)"
proof (rule ensuresI)
  fix s assume s: "ok s \<and> sends_from v (send_view s)"
  obtain item qw' where p: "poll (qw s) = (item, qw')" by (meson surj_pair)
  from s have qs: "null_item (qw s) = null_wqi" "list_all wqi_ok (q (qw s))"
    using ok_wf by (auto simp: vis_wf_defs)
  have "wqi_ok item \<and> ok (s\<lparr>qw := qw'\<rparr>)"
    using p
  proof (cases rule: poll_cases)
    case empty
    then show ?thesis using s qs by (simp add: wqi_ok_def null_wqi_def)
  next
    case (item vs)
    then show ?thesis using s qs ok_queue [of s vs] by simp
  qed
  then show "\<exists>u. worker_step wqv s = Inr u \<and> ok u \<and> sends_from v (send_view u)"
    using ensuresE [OF visit_law [OF _ v, of item], of "s\<lparr>qw := qw'\<rparr>"] s p
    by (fastforce simp: worker_step_def)
qed

text \<open>Nor can any number of them.\<close>

lemma run_law:
  assumes "ok s"
  shows "\<exists>s'. worker_method wqv n s = Inr s' \<and> ok s' \<and> sends_from (send_view s) (send_view s')"
proof -
  have v: "length (snd (snd (send_view s))) = 13"
    using ok_wf [OF assms] by (simp add: send_view_def vis_wf_length)
  have "\<exists>s'. worker_method wqv n t = Inr s' \<and> ok s' \<and> sends_from (send_view s) (send_view s')"
    if "ok t" "sends_from (send_view s) (send_view t)" for t
    using that
  proof (induction n arbitrary: t)
    case 0
    then show ?case by simp
  next
    case (Suc n)
    from ensuresE [OF step_law [OF v], of t] Suc.prems obtain u where
      "worker_step wqv t = Inr u" "ok u" "sends_from (send_view s) (send_view u)" by blast
    with Suc.IH show ?case by simp
  qed
  with assms show ?thesis by (simp add: sends_from_refl)
qed

end

lemma worker_method_add:
  "worker_method wqv (m + n) s =
     (case worker_method wqv m s of Inl e \<Rightarrow> Inl e | Inr s' \<Rightarrow> worker_method wqv n s')"
  by (induction m arbitrary: s) (auto split: sum.splits)

section \<open>Scheduling\<close>

text \<open>The test in 64-bit arithmetic is the one on numbers.\<close>

lemma due_iff: "due u ti \<longleftrightarrow> enabled ti \<and> unat (scheduled ti) + unat (time_delay ti) < unat u"
proof (cases "scheduled ti < u")
  case True
  then have "unat (u - scheduled ti) = unat u - unat (scheduled ti)" "unat (scheduled ti) < unat u"
    using unat_sub_le [OF less_imp_le [OF True]] by (simp_all add: word_less_nat_alt)
  then show ?thesis using True by (auto simp: due_def word_less_nat_alt)
next
  case False
  then show ?thesis by (auto simp: due_def word_less_nat_alt)
qed

lemma idle_round:
  assumes "vis_wf s" and "q (qw s) = []"
  shows "\<exists>s'. worker_step (visit E visitProc visitTimed visitIgn) s = Inr s'
    \<and> now s' = fst (get_time E (base_time s) (trace s))
    \<and> q (qw s') = map timed_wqi (filter (\<lambda>i. enabled (ti_at i s)
          \<and> unat (scheduled (ti_at i s)) + unat (time_delay (ti_at i s)) < unat (now s')) [0..<13])
    \<and> ti_list s' = ti_list s \<and> heap s' = heap s \<and> qn s' = qn s \<and> pin_level (trace s') = pin_level (trace s)
    \<and> burn_on s' = burn_on s"
proof -
  obtain u tr where u: "get_time E (base_time s) (trace s) = (u, tr)" by (meson surj_pair)
  define s0 where "s0 = s\<lparr>now := u, trace := tr\<rparr>"
  have "pin_level tr = pin_level (trace s)"
    using quiet_after_pin_level [OF get_time_quiet [OF u]] by (rule ext)
  moreover have "poll (qw s) = (null_wqi, qw s)"
    using assms by (simp add: vis_wf_defs poll_def)
  moreover have "s\<lparr>qw := qw s\<rparr> = s" by simp
  ultimately show ?thesis
    using check_ti_list_eq [of s0 u] assms u
    by (simp add: worker_step_def visit_def null_wqi_def visitNone_def read_clock_def s0_def due_iff
        ti_at_def fun_eq_iff)
qed

text \<open>
  C19. When the queue is empty the worker's next round reads the clock and queues exactly the
  items that are due, each once and in the order of the table: those that are enabled and whose
  delay since their last start has passed. It changes nothing else, whatever the engine.
\<close>

theorem idle_round_queues_due_items:
  assumes "vis_wf s" and "q (qw s) = []"
  shows "\<exists>s'. worker_step (visit E visitProc visitTimed visitIgn) s = Inr s'
    \<and> now s' = fst (get_time E (base_time s) (trace s))
    \<and> q (qw s') = map timed_wqi (filter (\<lambda>i. enabled (ti_at i s)
          \<and> unat (scheduled (ti_at i s)) + unat (time_delay (ti_at i s)) < unat (now s')) [0..<13])
    \<and> ti_list s' = ti_list s \<and> heap s' = heap s \<and> qn s' = qn s \<and> pin_level (trace s') = pin_level (trace s)
    \<and> burn_on s' = burn_on s"
  using idle_round [OF assms] .

theorem idle_round_queues_due_items_witness:
  "\<exists>s'. worker_step (visit sample_env undefined undefined undefined)
       (sample_visitor\<lparr>trace := [Bcm_init True, Spi_begin True]\<rparr>) = Inr s'
     \<and> q (qw s') = map timed_wqi [0..<10]"
proof -
  let ?s = "sample_visitor\<lparr>trace := [Bcm_init True, Spi_begin True]\<rparr>"
  have "vis_wf ?s" "q (qw ?s) = []" by (simp_all add: sample_visitor_wf)
  from idle_round_queues_due_items [OF this, of sample_env undefined undefined undefined] obtain s' where
    s': "worker_step (visit sample_env undefined undefined undefined) ?s = Inr s'"
    "now s' = fst (get_time sample_env 0 [Bcm_init True, Spi_begin True])"
    "q (qw s') = map timed_wqi (filter (\<lambda>i. enabled (ti_at i ?s)
       \<and> unat (scheduled (ti_at i ?s)) + unat (time_delay (ti_at i ?s)) < unat (now s')) [0..<13])"
    by auto
  have "now s' = 2000000"
    using s'(2) by (simp add: get_time_def gettimeofday_def sample_env_def Let_def)
  then have "filter (\<lambda>i. enabled (ti_at i ?s)
       \<and> unat (scheduled (ti_at i ?s)) + unat (time_delay (ti_at i ?s)) < unat (now s')) [0..<13] = [0..<10]"
    by (simp add: ti_at_def sample_til_def temp_ti_list_def timed_item_new_def upt_rec
        LC_MAIN_T_def LC1_T_def PT_FEED_T_def TC1_T_def)
  with s' show ?thesis by auto
qed

end
