(* ===== verification/LunaVisitor.thy ===== *)
theory LunaVisitor
  imports MainWorker
begin

text \<open>
  \<open>src/visitor/luna_visitor.hpp\<close> and \<open>.cpp\<close>: the handlers of the Luna engine, which add the water
  and GITVC valves, the stages of a burn and the GITVC pulses to those of the base class.
\<close>

section \<open>State and handlers\<close>

record luna_visitor = worker_visitor +
  gitvc_on :: bool
  gitvc_count :: int

definition luna_visitor_new ::
    "config \<Rightarrow> (nat \<Rightarrow> nat \<Rightarrow> byte) \<Rightarrow> process \<Rightarrow> error + luna_visitor" where
  "luna_visitor_new C junk p =
     (case worker_visitor_new C junk p of
        Inl e \<Rightarrow> Inl e | Inr s \<Rightarrow> Inr (worker_visitor.extend s (luna_visitor.fields False 0)))"

definition luna_visitProc :: "work_queue_item \<Rightarrow> 'a luna_visitor_scheme \<Rightarrow> error + 'a luna_visitor_scheme" where
  "luna_visitProc item =
     (case code_of (wqi_data0 item) of
        Some set_water \<Rightarrow> gpio WATER_VALVE HIGH
      | Some unset_water \<Rightarrow> gpio WATER_VALVE LOW
      | Some set_gitvc \<Rightarrow> gpio GITVC_VALVE LOW
      | Some unset_gitvc \<Rightarrow> gpio GITVC_VALVE HIGH
      | _ \<Rightarrow> worker_visitProc item)"

text \<open>
  \<open>gitvc_times.size() > gitvc_count\<close> compares unsigned numbers; \<open>at\<close> checks its index;
  incrementing \<open>INT_MAX\<close> is undefined.
\<close>

definition more_gitvc :: "config \<Rightarrow> 'a luna_visitor_scheme \<Rightarrow> bool" where
  "more_gitvc C s \<longleftrightarrow> (of_nat (length (gitvc_times C)) :: size_t) > word_of_int (gitvc_count s)"

definition set_gitvc_delay :: "config \<Rightarrow> 'a luna_visitor_scheme \<Rightarrow> error + 'a luna_visitor_scheme" where
  "set_gitvc_delay C s =
     (let k = unat (word_of_int (gitvc_count s) :: size_t)
      in if k < length (gitvc_times C)
         then on_list (til_set_delay gitvc (word_of_int (gitvc_times C ! k))) s
         else Inl Out_of_range)"

definition incr_gitvc_count :: "'a luna_visitor_scheme \<Rightarrow> error + 'a luna_visitor_scheme" where
  "incr_gitvc_count s =
     (if gitvc_count s = INT_MAX then Inl Undefined else Inr (s\<lparr>gitvc_count := gitvc_count s + 1\<rparr>))"

definition luna_ign2 :: "config \<Rightarrow> 'a luna_visitor_scheme \<Rightarrow> error + 'a luna_visitor_scheme" where
  "luna_ign2 C =
     exec
       [on_list (til_disable ign2),
        enable_now ign3,
        gpio MAIN_VALVE HIGH,
        assign (\<lambda>s. s\<lparr>start_time_nitr := now s\<rparr>),
        assign (burn_on_update (\<lambda>_. True)),
        when_s (\<lambda>s. use_gitvc C \<and> more_gitvc C s)
          [enable_now gitvc, assign (gitvc_on_update (\<lambda>_. False))]]"

definition luna_ign3 :: "'a luna_visitor_scheme \<Rightarrow> error + 'a luna_visitor_scheme" where
  "luna_ign3 =
     exec
       [assign (burn_on_update (\<lambda>_. False)),
        gpio MAIN_VALVE LOW,
        on_list (til_disable ign3),
        gpio IGN_START LOW,
        on_list (til_disable gitvc),
        assign (gitvc_count_update (\<lambda>_. INT_MAX)),
        gpio GITVC_VALVE HIGH,
        gpio WATER_VALVE LOW]"

definition luna_gitvc :: "config \<Rightarrow> 'a luna_visitor_scheme \<Rightarrow> error + 'a luna_visitor_scheme" where
  "luna_gitvc C =
     if_s gitvc_on
       [gpio GITVC_VALVE HIGH,
        assign (gitvc_on_update (\<lambda>_. False)),
        on_list (til_set_delay gitvc (word_of_int (time_between_gitvc C))),
        enable_now gitvc]
       [when_s (\<lambda>s. more_gitvc C s \<and> burn_on s)
          [gpio GITVC_VALVE LOW,
           assign (gitvc_on_update (\<lambda>_. True)),
           set_gitvc_delay C,
           enable_now gitvc,
           incr_gitvc_count]]"

definition luna_visitTimed ::
    "env \<Rightarrow> config \<Rightarrow> work_queue_item \<Rightarrow> 'a luna_visitor_scheme \<Rightarrow> error + 'a luna_visitor_scheme" where
  "luna_visitTimed E C item =
     exec
       [read_clock E,
        with_ti item (\<lambda>i. exec
          [set_ti i (\<lambda>s ti. ti\<lparr>scheduled := now s\<rparr>),
           if_s (\<lambda>s. ti_buffer (ti_at i s) \<noteq> None)
             [worker_visitTimed E C item]
             [when_s (\<lambda>s. ti_action (ti_at i s) = ign2) [luna_ign2 C],
              when_s (\<lambda>s. ti_action (ti_at i s) = ign3) [luna_ign3],
              when_s (\<lambda>s. ti_action (ti_at i s) = gitvc) [luna_gitvc C]]])]"

definition luna_visit ::
    "env \<Rightarrow> config \<Rightarrow> work_queue_item \<Rightarrow> 'a luna_visitor_scheme \<Rightarrow> error + 'a luna_visitor_scheme" where
  "luna_visit E C = visit E luna_visitProc (luna_visitTimed E C) (worker_visitIgn E C)"

section \<open>The invariant\<close>

text \<open>
  The counter of GITVC pulses indexes the configured times or is parked at \<open>INT_MAX\<close>. A
  \<open>std::vector<int>\<close> in a 32-bit address space has fewer than \<open>INT_MAX\<close> elements.
\<close>

definition config_ok :: "config \<Rightarrow> bool" where
  "config_ok C \<longleftrightarrow> int (length (gitvc_times C)) < INT_MAX"

definition count_ok :: "config \<Rightarrow> int \<Rightarrow> bool" where
  "count_ok C k \<longleftrightarrow> 0 \<le> k \<and> (k \<le> int (length (gitvc_times C)) \<or> k = INT_MAX)"

definition luna_wf :: "config \<Rightarrow> 'a luna_visitor_scheme \<Rightarrow> bool" where
  "luna_wf C s \<longleftrightarrow> vis_wf s \<and> config_ok C \<and> count_ok C (gitvc_count s)"

lemma unat_word_of_count:
  assumes "config_ok C" and "count_ok C k"
  shows "unat (word_of_int k :: size_t) = nat k"
proof -
  have "0 \<le> k" "k < 4294967296"
    using assms by (auto simp: config_ok_def count_ok_def INT_MAX_def)
  then show ?thesis using unat_of_nat_small [of "nat k", where 'a = 32] by (simp add: nat_less_iff)
qed

lemma more_gitvc_iff:
  assumes "luna_wf C s"
  shows "more_gitvc C s \<longleftrightarrow> gitvc_count s < int (length (gitvc_times C))"
proof -
  have "unat (word_of_int (gitvc_count s) :: size_t) = nat (gitvc_count s)"
    using assms unat_word_of_count by (auto simp: luna_wf_def)
  moreover have "unat (of_nat (length (gitvc_times C)) :: size_t) = length (gitvc_times C)"
    using assms by (intro unat_of_nat_small) (simp add: luna_wf_def config_ok_def INT_MAX_def)
  moreover have "0 \<le> gitvc_count s" using assms by (simp add: luna_wf_def count_ok_def)
  ultimately show ?thesis
    by (simp only: more_gitvc_def word_less_nat_alt) (simp add: nat_less_iff)
qed

section \<open>The handlers keep it\<close>

lemma luna_members:
  fixes s u :: "'a luna_visitor_scheme"
  assumes "worker_visitor.more u = worker_visitor.more s"
  shows "gitvc_count u = gitvc_count s" and "gitvc_on u = gitvc_on s"
  using assms by (cases s; cases u; simp)+

lemma keeps_luna:
  assumes "ensures vis_wf c vis_wf" and "preserves worker_visitor.more c"
  shows "ensures (luna_wf C) c (luna_wf C)"
proof -
  have "preserves gitvc_count c"
    using assms(2) luna_members(1) unfolding preserves_def by blast
  then show ?thesis by (rule keeps_preserved [OF assms(1)]) (auto simp: luna_wf_def)
qed

lemma keeps_luna_assign:
  "ensures (luna_wf C) (assign (gitvc_on_update f)) (luna_wf C)"
  "ensures (luna_wf C) (assign (gitvc_count_update (\<lambda>_. INT_MAX))) (luna_wf C)"
  by (auto simp: luna_wf_def vis_wf_defs count_ok_def INT_MAX_def intro!: ensures_assign)

text \<open>Inside the branch that starts a pulse there is a time left for it.\<close>

definition luna_more :: "config \<Rightarrow> 'a luna_visitor_scheme \<Rightarrow> bool" where
  "luna_more C s \<longleftrightarrow> luna_wf C s \<and> gitvc_count s < int (length (gitvc_times C))"

lemma keeps_luna_more:
  assumes "ensures vis_wf c vis_wf" and "preserves worker_visitor.more c"
  shows "ensures (luna_more C) c (luna_more C)"
proof -
  have "preserves gitvc_count c"
    using assms(2) luna_members(1) unfolding preserves_def by blast
  then show ?thesis by (rule keeps_preserved [OF assms(1)]) (auto simp: luna_more_def luna_wf_def)
qed

lemma set_gitvc_delay_more:
  assumes "luna_more C s"
  shows "set_gitvc_delay C s
    = on_list (til_set_delay gitvc (word_of_int (gitvc_times C ! nat (gitvc_count s)))) s"
  using assms unat_word_of_count [of C "gitvc_count s"]
  by (auto simp: luna_more_def luna_wf_def set_gitvc_delay_def count_ok_def Let_def)

lemma keeps_set_gitvc_delay: "ensures (luna_more C) (set_gitvc_delay C) (luna_more C)"
proof (rule ensuresI)
  fix s :: "'a luna_visitor_scheme"
  assume s: "luna_more C s"
  have "ensures (luna_more C :: 'a luna_visitor_scheme \<Rightarrow> bool) (on_list (til_set_delay gitvc d)) (luna_more C)" for d
    by (intro keeps_luna_more keeps untouched) simp
  then show "\<exists>u. set_gitvc_delay C s = Inr u \<and> luna_more C u"
    using s by (simp add: set_gitvc_delay_more ensures_def)
qed

lemma incr_gitvc_count_more: "ensures (luna_more C) incr_gitvc_count (luna_wf C)"
  by (rule ensuresI)
    (auto simp: incr_gitvc_count_def luna_more_def luna_wf_def vis_wf_defs count_ok_def config_ok_def)

lemma keeps_luna_more_assign: "ensures (luna_more C) (assign (gitvc_on_update f)) (luna_more C)"
  by (auto simp: luna_more_def luna_wf_def vis_wf_defs intro!: ensures_assign)

lemma keeps_luna_stages:
  "ensures (luna_wf C) (luna_ign2 C) (luna_wf C)" "ensures (luna_wf C) luna_ign3 (luna_wf C)"
  unfolding luna_ign2_def luna_ign3_def
  by (intro keeps_rules keeps_luna_assign; intro keeps_luna keeps untouched; simp)+

lemma keeps_luna_gitvc: "ensures (luna_wf C) (luna_gitvc C) (luna_wf C)"
  unfolding luna_gitvc_def
proof (rule keeps_if)
  show "ensures (luna_wf C)
      (exec [gpio GITVC_VALVE HIGH, assign (gitvc_on_update (\<lambda>_. False)),
             on_list (til_set_delay gitvc (word_of_int (time_between_gitvc C))), enable_now gitvc])
      (luna_wf C)"
    by (intro keeps_rules keeps_luna_assign; intro keeps_luna keeps untouched; simp)
  have "ensures (luna_more C)
      (exec [gpio GITVC_VALVE LOW, assign (gitvc_on_update (\<lambda>_. True)), set_gitvc_delay C,
             enable_now gitvc]) (luna_more C)"
    by (intro keeps_rules keeps_luna_more_assign keeps_set_gitvc_delay;
        intro keeps_luna_more keeps untouched; simp)
  from ensures_append [OF this ensures_Cons [OF incr_gitvc_count_more ensures_Nil]]
  have pulse: "ensures (luna_more C)
      (exec [gpio GITVC_VALVE LOW, assign (gitvc_on_update (\<lambda>_. True)), set_gitvc_delay C,
             enable_now gitvc, incr_gitvc_count]) (luna_wf C)" by simp
  show "ensures (luna_wf C)
      (exec [when_s (\<lambda>s. more_gitvc C s \<and> burn_on s)
        [gpio GITVC_VALVE LOW, assign (gitvc_on_update (\<lambda>_. True)), set_gitvc_delay C,
         enable_now gitvc, incr_gitvc_count]]) (luna_wf C)"
    by (intro keeps_rules ensures_when, rule ensures_conseq [OF pulse])
      (auto simp: luna_more_def more_gitvc_iff)
qed

section \<open>Luna is an engine\<close>

lemma preserves_send_luna [untouched]:
  "preserves send_view (assign (gitvc_on_update f))" "preserves send_view (assign (gitvc_count_update g))"
  "preserves send_view incr_gitvc_count"
  by (auto simp: preserves_def assign_def incr_gitvc_count_def send_view_def split: if_splits)

lemma preserves_send_gitvc_delay [untouched]: "preserves send_view (set_gitvc_delay C)"
proof -
  have "preserves send_view (on_list (til_set_delay gitvc d) :: 'a luna_visitor_scheme \<Rightarrow> _)" for d
    by (rule untouched)
  then show ?thesis by (auto simp: preserves_def set_gitvc_delay_def Let_def split: if_splits)
qed

lemma preserves_send_luna_stages:
  "preserves send_view (luna_ign2 C)" "preserves send_view luna_ign3" "preserves send_view (luna_gitvc C)"
  unfolding luna_ign2_def luna_ign3_def luna_gitvc_def by (intro preserves_rules untouched)+

lemmas keeps_luna_sends_stages =
  keeps_sends [OF keeps_luna_stages(1) preserves_send_luna_stages(1)]
  keeps_sends [OF keeps_luna_stages(2) preserves_send_luna_stages(2)]
  keeps_sends [OF keeps_luna_gitvc preserves_send_luna_stages(3)]

lemma keeps_luna_visitTimed:
  assumes item: "wqi_ok item" "wqi_action item = wq_timed" and v: "length (snd (snd v)) = 13"
  shows "ensures (sending (luna_wf C) v) (luna_visitTimed E C item) (sending (luna_wf C) v)"
proof -
  obtain i where i: "extra_datap item = Some i" "i < 13" using item by (auto simp: wqi_ok_def)
  have with_ti: "ensures (sending (luna_wf C) v) (with_ti item body) (sending (luna_wf C) v)"
    if "ensures (sending (luna_wf C) v) (body i) (sending (luna_wf C) v)"
    for body :: "nat \<Rightarrow> 'a luna_visitor_scheme \<Rightarrow> _"
    using that i by (auto simp: ensures_def with_ti_def luna_wf_def vis_wf_length)
  have "ensures (luna_wf C) (worker_visitTimed E C item) (luna_wf C)"
    by (intro keeps_luna keeps untouched item)
  then have base: "ensures (sending (luna_wf C) v) (worker_visitTimed E C item) (sending (luna_wf C) v)"
    by (rule keeps_sends_visitTimed [OF _ _ item v]) (simp add: luna_wf_def)
  have "ensures (sending (luna_wf C) v) (read_clock E) (sending (luna_wf C) v)"
    "ensures (sending (luna_wf C) v) (set_ti i (\<lambda>s ti. ti\<lparr>scheduled := now s\<rparr>)) (sending (luna_wf C) v)"
    by (intro keeps_sends keeps_luna keeps untouched; simp add: harmless_def)+
  then show ?thesis
    unfolding luna_visitTimed_def by (intro keeps_rules with_ti base keeps_luna_sends_stages)
qed

lemma keeps_luna_visitProc:
  "ensures (sending (luna_wf C) v) (luna_visitProc item) (sending (luna_wf C) v)"
  unfolding luna_visitProc_def
  by (auto split: option.splits send_code.splits intro!: keeps_sends keeps_luna keeps untouched)

interpretation luna: engine "luna_wf C" "luna_visit E C"
  for E and C
proof
  fix s :: "'a luna_visitor_scheme" and xs ys n tr
  assume "luna_wf C s" "list_all wqi_ok xs" "list_all (nqi_ok (length (heap s))) ys"
  then show "luna_wf C (s\<lparr>qw := (qw s)\<lparr>q := xs\<rparr>, qn := (qn s)\<lparr>q := ys\<rparr>, nw := n, trace := tr\<rparr>)"
    by (simp add: luna_wf_def vis_wf_defs)
next
  fix item and v :: send_state
  assume item: "wqi_ok item" and v: "length (snd (snd v)) = 13"
  have "ensures (sending (luna_wf C) v) (visitDefault item) (sending (luna_wf C) v)"
    "ensures (sending (luna_wf C) v) (visitNone E item) (sending (luna_wf C) v)"
    "ensures (sending (luna_wf C) v) (worker_visitIgn E C item) (sending (luna_wf C) v)"
    by (intro keeps_sends keeps_luna keeps untouched; simp add: ensures_def visitDefault_def)+
  with keeps_luna_visitTimed [OF item _ v] keeps_luna_visitProc
  show "ensures (sending (luna_wf C) v) (luna_visit E C item) (sending (luna_wf C) v)"
    unfolding luna_visit_def visit_def by (cases "wqi_action item") simp_all
qed (simp add: luna_wf_def)

text \<open>A small concrete Luna for the witnesses.\<close>

definition sample_luna :: luna_visitor where
  "sample_luna = worker_visitor.extend sample_visitor (luna_visitor.fields False 0)"

lemma sample_luna_fields [simp]:
  "heap sample_luna = replicate 10 sample_ring" "ti_list sample_luna = sample_til"
  "qn sample_luna = safe_queue_new null_nqi" "qw sample_luna = safe_queue_new null_wqi"
  "nw sample_luna = sample_network" "trace sample_luna = []" "base_time sample_luna = 0"
  "burn_on sample_luna = False" "gitvc_count sample_luna = 0" "gitvc_on sample_luna = False"
  by (simp_all add: sample_luna_def sample_visitor_def sample_process_def process.defs
    worker_visitor.defs luna_visitor.defs)

lemma sample_luna_wf: "luna_wf sample_config sample_luna"
  using sample_visitor_wf
  by (simp add: luna_wf_def vis_wf_defs config_ok_def count_ok_def sample_config_def INT_MAX_def)

end
