(* ===== verification/Rounds.thy ===== *)
theory Rounds
  imports MainWorker
begin

text \<open>
  How the worker works off its table: the contract \<open>scheduled_engine\<close> of an engine whose timed items leave the
  work queue alone, and what follows from it for any such engine: an item that is due is visited within
  a bounded number of rounds. Both engines keep it; the liveness of their burns rests on it.
\<close>

text \<open>
  What an item costs: a round, and the rounds of the items that its visit queues. A command queues at most one, a
  look through the table at most all 13.
\<close>

definition item_work :: "work_queue_item \<Rightarrow> nat" where
  "item_work x = (case wqi_action x of wq_process \<Rightarrow> 15 | wq_none \<Rightarrow> 14 | _ \<Rightarrow> 1)"

definition queue_work :: "work_queue_item list \<Rightarrow> nat" where
  "queue_work xs = sum_list (map item_work xs)"

lemma queue_work_simps [simp]:
  "queue_work [] = 0" "queue_work (x # xs) = item_work x + queue_work xs"
  "queue_work (xs @ ys) = queue_work xs + queue_work ys" "queue_work (map timed_wqi js) = length js"
  by (simp_all add: queue_work_def item_work_def o_def sum_list_triv)

lemma queue_work_le: "queue_work xs \<le> 15 * length xs"
  by (induction xs) (auto simp: item_work_def split: work_queue_item_action.splits)

text \<open>The commands of the base class keep to that; those of the engines only drive pins.\<close>

lemma worker_visitProc_queue:
  assumes "worker_visitProc item s = Inr s'"
  shows "\<exists>ys. q (qw s') = q (qw s) @ ys \<and> length ys \<le> 1 \<and> (\<forall>y \<in> set ys. wqi_action y \<in> {ign1, wq_none})"
  using assms
  by (auto simp: worker_visitProc_def process_stmts enqueue_def split: option.splits send_code.splits)

locale scheduled_engine = engine +
  fixes E :: env
    and proc timed ign :: "work_queue_item \<Rightarrow> 'a worker_visitor_scheme \<Rightarrow> error + 'a worker_visitor_scheme"
  assumes wqv_visit: "wqv = visit E proc timed ign"
    and timed_keeps_queue: "preserves qw (timed item)"
    and ign_keeps_queue: "preserves qw (ign item)"
    and proc_queue: "proc item s = Inr s' \<Longrightarrow>
      \<exists>ys. q (qw s') = q (qw s) @ ys \<and> length ys \<le> 1 \<and> (\<forall>y \<in> set ys. wqi_action y \<in> {ign1, wq_none})"
begin

text \<open>A timed item at the head of the queue is visited in the next round, and leaves the rest.\<close>

lemma round_timed:
  assumes s: "ok s" and qs: "q (qw s) = timed_wqi j # rest" and j: "j < 13"
  obtains t s' where "t = s\<lparr>qw := (qw s)\<lparr>q := rest\<rparr>\<rparr>" "ok t"
    "worker_step wqv s = timed (timed_wqi j) t" "timed (timed_wqi j) t = Inr s'" "ok s'" "q (qw s') = rest"
proof -
  define t where "t = s\<lparr>qw := (qw s)\<lparr>q := rest\<rparr>\<rparr>"
  have "list_all wqi_ok rest" using ok_wf [OF s] qs by (simp add: vis_wf_defs)
  then have t: "ok t" using ok_queue [OF s] by (simp add: t_def)
  have item: "wqv (timed_wqi j) = timed (timed_wqi j)" by (simp add: wqv_visit visit_def fun_eq_iff)
  then have step: "worker_step wqv s = timed (timed_wqi j) t"
    by (simp add: worker_step_def poll_def qs t_def)
  have "wqi_ok (timed_wqi j)" using j by (simp add: wqi_ok_def)
  moreover have "length (snd (snd (send_view t))) = 13"
    using ok_wf [OF t] by (simp add: send_view_def vis_wf_length)
  ultimately have "ensures (sending ok (send_view t)) (timed (timed_wqi j)) (sending ok (send_view t))"
    using visit_law [of "timed_wqi j" "send_view t"] by (simp add: item)
  then obtain s' where s': "timed (timed_wqi j) t = Inr s'" "ok s'"
    using t sends_from_refl [of "send_view t"] by (auto elim: ensuresE)
  have "qw s' = qw t" using preservesD [OF timed_keeps_queue s'(1)] .
  with that [OF t_def t step s'] show thesis by (simp add: t_def)
qed

lemma rounds_timed:
  assumes "ok s" and "q (qw s) = map timed_wqi js @ rest" and "\<forall>j \<in> set js. j < 13"
  shows "\<exists>s'. worker_method wqv (length js) s = Inr s' \<and> ok s' \<and> q (qw s') = rest"
  using assms
proof (induction js arbitrary: s)
  case Nil
  then show ?case by simp
next
  case (Cons j js)
  then have "q (qw s) = timed_wqi j # map timed_wqi js @ rest" "j < 13" by simp_all
  from round_timed [OF Cons.prems(1) this] obtain s' where
    "worker_step wqv s = Inr s'" "ok s'" "q (qw s') = map timed_wqi js @ rest"
    by metis
  with Cons show ?case by simp
qed

text \<open>
  An item that is due when the worker finds its queue empty is visited soon: the idle round queues
  it behind at most the items before it in the table.
\<close>

lemma due_item_visited:
  assumes s: "ok s" "q (qw s) = []" and j: "j < 13" and "enabled (ti_at j s)"
    and "unat (scheduled (ti_at j s)) + unat (time_delay (ti_at j s)) < unat (fst (get_time E (base_time s) (trace s)))"
  obtains n t where "n \<le> Suc j" "ok t" "worker_method wqv (Suc n) s = timed (timed_wqi j) t"
proof -
  let ?P = "\<lambda>u i. enabled (ti_at i s) \<and> unat (scheduled (ti_at i s)) + unat (time_delay (ti_at i s)) < unat u"
  from idle_round [OF ok_wf [OF s(1)] s(2), of E proc timed ign]
  obtain s1 where s1: "worker_step wqv s = Inr s1" "now s1 = fst (get_time E (base_time s) (trace s))"
    "q (qw s1) = map timed_wqi (filter (?P (now s1)) [0..<13])"
    by (auto simp: wqv_visit)
  have ok1: "ok s1" using run_law [OF s(1), of 1] s1(1) by auto
  define js where "js = filter (?P (now s1)) [0..<j]"
  have "[0..<13] = [0..<j] @ j # [Suc j..<13]"
    using j by (metis append_Cons append_Nil append_assoc le_add_diff_inverse less_imp_le upt_add_eq_append upt_conv_Cons zero_le)
  moreover have "?P (now s1) j" using assms(4,5) s1(2) by simp
  ultimately obtain rest where queue: "q (qw s1) = map timed_wqi js @ timed_wqi j # rest"
    using s1(3) by (simp add: js_def)
  have js: "length js \<le> j" "\<forall>i \<in> set js. i < 13"
    using length_filter_le [of "?P (now s1)" "[0..<j]"] j by (auto simp: js_def)
  from rounds_timed [OF ok1 queue js(2)] obtain s2 where
    s2: "worker_method wqv (length js) s1 = Inr s2" "ok s2" "q (qw s2) = timed_wqi j # rest"
    by blast
  obtain t s3 where s3: "ok t" "worker_step wqv s2 = timed (timed_wqi j) t" "timed (timed_wqi j) t = Inr s3"
    using round_timed [OF s2(2,3) j] by metis
  have "worker_method wqv (length js + Suc 0) s1 = timed (timed_wqi j) t"
    using s2(1) s3(2,3) unfolding worker_method_add by simp
  then have "worker_method wqv (Suc (Suc (length js))) s = timed (timed_wqi j) t"
    using s1(1) by simp
  with js(1) s3(1) that [of "Suc (length js)" t] show thesis by simp
qed

text \<open>Every round on a queue that is not empty gets some of its work done.\<close>

lemma round_work:
  assumes s: "ok s" and qs: "q (qw s) = x # rest"
  obtains s' where "worker_step wqv s = Inr s'" "ok s'" "queue_work (q (qw s')) < queue_work (q (qw s))"
proof -
  define t where "t = s\<lparr>qw := (qw s)\<lparr>q := rest\<rparr>\<rparr>"
  have step: "worker_step wqv s = wqv x t" by (simp add: worker_step_def poll_def qs t_def)
  have "list_all wqi_ok rest" using ok_wf [OF s] qs by (simp add: vis_wf_defs)
  then have vw: "vis_wf t" using ok_wf [OF ok_queue [OF s]] by (simp add: t_def)
  obtain s' where s': "worker_method wqv 1 s = Inr s'" "ok s'" using run_law [OF s] by blast
  then have out: "wqv x t = Inr s'" using step by (simp split: sum.splits)
  consider (keep) "qw s' = qw t"
    | (more) ys where "wqi_action x = wq_process" "q (qw s') = rest @ ys" "length ys \<le> 1"
        "\<forall>y \<in> set ys. wqi_action y \<in> {ign1, wq_none}"
    | (table) js where "wqi_action x = wq_none" "q (qw s') = rest @ map timed_wqi js" "length js \<le> 13"
  proof -
    have "visitNone E x t = Inr s' \<Longrightarrow> \<exists>js. q (qw s') = rest @ map timed_wqi js \<and> length js \<le> 13"
    proof -
      assume "visitNone E x t = Inr s'"
      moreover obtain u tr where "get_time E (base_time t) (trace t) = (u, tr)" by (meson surj_pair)
      moreover note check_ti_list_eq [of "t\<lparr>now := u, trace := tr\<rparr>" u] vw
      ultimately have "q (qw s') = rest @ map timed_wqi (filter (\<lambda>j. due u (ti_at j t)) [0..<13])"
        by (auto simp: visitNone_def read_clock_def t_def ti_at_def)
      moreover have "length (filter (\<lambda>j. due u (ti_at j t)) [0..<13]) \<le> 13"
        by (rule order.trans [OF length_filter_le]) simp
      ultimately show ?thesis by blast
    qed
    moreover have "proc x t = Inr s' \<Longrightarrow> \<exists>ys. q (qw s') = rest @ ys \<and> length ys \<le> 1
        \<and> (\<forall>y \<in> set ys. wqi_action y \<in> {ign1, wq_none})"
      using proc_queue [of x t s'] by (simp add: t_def)
    moreover have "timed x t = Inr s' \<Longrightarrow> qw s' = qw t" "ign x t = Inr s' \<Longrightarrow> qw s' = qw t"
      using preservesD [OF timed_keeps_queue] preservesD [OF ign_keeps_queue] by blast+
    ultimately show thesis
      using that out by (cases "wqi_action x") (auto simp: wqv_visit visit_def visitDefault_def)
  qed
  then have "queue_work (q (qw s')) < queue_work (q (qw s))"
  proof cases
    case keep
    then show ?thesis using qs by (simp add: t_def item_work_def split: work_queue_item_action.split)
  next
    case (more ys)
    then have "queue_work ys \<le> 14"
      by (cases ys) (auto simp: item_work_def)
    then show ?thesis using more qs by (simp add: item_work_def)
  next
    case (table js)
    then show ?thesis using qs by (simp add: item_work_def)
  qed
  with that step out s'(2) show thesis by simp
qed

text \<open>So the queue is empty again after as many rounds as the work in it, if nothing else arrives.\<close>

lemma queue_drained:
  assumes "ok s"
  shows "\<exists>n s'. n \<le> queue_work (q (qw s)) \<and> worker_method wqv n s = Inr s' \<and> ok s' \<and> q (qw s') = []"
  using assms
proof (induction "queue_work (q (qw s))" arbitrary: s rule: less_induct)
  case less
  show ?case
  proof (cases "q (qw s)")
    case Nil
    with less.prems show ?thesis by (intro exI [of _ 0] exI [of _ s]) simp
  next
    case (Cons x rest)
    obtain s1 where s1: "worker_step wqv s = Inr s1" "ok s1" "queue_work (q (qw s1)) < queue_work (q (qw s))"
      by (rule round_work [OF less.prems Cons])
    from less.hyps [OF s1(3,2)] obtain n s' where
      "n \<le> queue_work (q (qw s1))" "worker_method wqv n s1 = Inr s'" "ok s'" "q (qw s') = []" by blast
    with s1 show ?thesis by (intro exI [of _ "Suc n"] exI [of _ s']) simp
  qed
qed

end

end
