(* ===== verification/Stages.thy ===== *)
theory Stages
  imports Rounds
begin

text \<open>
  The three items that stage a burn, \<open>ign2\<close>, \<open>ign3\<close> and \<open>gitvc\<close>: what waking one up and arming
  one does to the table, and the start of an ignition, which both engines share.
\<close>

section \<open>Arming and waking\<close>

lemma til_item_at: "action_index a = Some i \<Longrightarrow> til_item a (ti_list s) = ti_at i s"
  by (simp add: til_item_def ti_at_def)

text \<open>The state in which a stage's branch starts.\<close>

definition woken :: "work_queue_item_action \<Rightarrow> timestamp_t \<Rightarrow> event list \<Rightarrow> 'a worker_visitor_scheme \<Rightarrow> 'a worker_visitor_scheme" where
  "woken a u tr s =
     s\<lparr>now := u, trace := tr, ti_list := til_upd a (\<lambda>ti. ti\<lparr>scheduled := u\<rparr>) (ti_list s)\<rparr>"

lemma woken_eq:
  "action_index a = Some i \<Longrightarrow> woken a u tr s = s\<lparr>now := u, trace := tr,
     ti_list := (ti_list s)\<lparr>tis := (tis (ti_list s))[i := (ti_at i s)\<lparr>scheduled := u\<rparr>]\<rparr>\<rparr>"
  by (simp add: woken_def til_upd_def til_item_at)

lemma woken_fields [simp]:
  "now (woken a u tr s) = u" "trace (woken a u tr s) = tr" "heap (woken a u tr s) = heap s"
  "burn_on (woken a u tr s) = burn_on s" "qw (woken a u tr s) = qw s" "qn (woken a u tr s) = qn s"
  "ti_list (woken a u tr s) = til_upd a (\<lambda>ti. ti\<lparr>scheduled := u\<rparr>) (ti_list s)"
  by (simp_all add: woken_def)

lemma woken_vis_wf:
  assumes "vis_wf s" and a: "action_index a = Some i"
  shows "vis_wf (woken a u tr s)"
proof -
  have "vis_wf (s\<lparr>ti_list := (ti_list s)\<lparr>tis := (tis (ti_list s))
      [i := (\<lambda>x. x\<lparr>scheduled := u\<rparr>) (tis (ti_list s) ! i)]\<rparr>\<rparr>)"
    using assms(1) by (intro vis_wf_update_item) (simp_all add: harmless_def)
  then show ?thesis by (simp add: woken_eq [OF a] vis_wf_defs ti_at_def)
qed

lemmas stage_ops =
  til_ops_eq [where a = ign2 and i = 10, simplified]
  til_ops_eq [where a = ign3 and i = 11, simplified]
  til_ops_eq [where a = gitvc and i = 12, simplified]

lemmas stage_items =
  til_upd_eq(3) [where a = ign2 and i = 10, simplified]
  til_upd_eq(3) [where a = ign3 and i = 11, simplified]
  til_upd_eq(3) [where a = gitvc and i = 12, simplified]

section \<open>Starting an ignition\<close>

lemma worker_visitIgn_eq:
  assumes "vis_wf s" and u: "get_time E (base_time s) (trace s) = (u, tr)"
  shows "worker_visitIgn E C item s =
    Inr (s\<lparr>now := u, trace := (if ignition_on C then gpio_write IGN_START HIGH tr else tr),
           ti_list := til_upd ign3 (\<lambda>ti. ti\<lparr>time_delay := word_of_int (hotflow_us C)\<rparr>)
             (til_upd ign2 (ti_enable u)
               (til_upd ign2 (\<lambda>ti. ti\<lparr>time_delay := word_of_int (preignite_us C)\<rparr>) (ti_list s)))\<rparr>)"
  using assms
  by (simp add: worker_visitIgn_def read_clock_def when_s_def gpio_def on_list_def enable_now_def
      stage_ops vis_wf_def)

text \<open>
  Starting an ignition drives the igniter exactly when it is configured, opens no valve, and
  arms \<open>ign2\<close> from now on with the configured pre-ignition time; the delay of \<open>ign3\<close> is set to the
  configured length of the burn, without arming it.
\<close>

theorem ignition_arms_sequence:
  assumes "vis_wf s"
  shows "\<exists>s'. worker_visitIgn E C item s = Inr s' \<and> now s' = fst (get_time E (base_time s) (trace s))
    \<and> pin_level (trace s') = (if ignition_on C then (pin_level (trace s))(IGN_START \<mapsto> HIGH) else pin_level (trace s))
    \<and> til_item ign2 (ti_list s') = (til_item ign2 (ti_list s))
        \<lparr>time_delay := word_of_int (preignite_us C), enabled := True, scheduled := now s'\<rparr>
    \<and> til_item ign3 (ti_list s') = (til_item ign3 (ti_list s))\<lparr>time_delay := word_of_int (hotflow_us C)\<rparr>
    \<and> til_item gitvc (ti_list s') = til_item gitvc (ti_list s) \<and> burn_on s' = burn_on s"
proof -
  obtain u tr where u: "get_time E (base_time s) (trace s) = (u, tr)" by (meson surj_pair)
  have "pin_level tr = pin_level (trace s)"
    using quiet_after_pin_level [OF get_time_quiet [OF u]] by (rule ext)
  then show ?thesis
    using assms u
    by (simp add: worker_visitIgn_eq stage_ops stage_items vis_wf_def ti_enable_def fun_eq_iff)
qed

theorem ignition_arms_sequence_witness:
  "\<exists>s'. worker_visitIgn sample_env sample_config null_wqi sample_visitor = Inr s'
     \<and> enabled (til_item ign2 (ti_list s')) \<and> time_delay (til_item ign2 (ti_list s')) = 500000
     \<and> pin_level (trace s') IGN_START = Some HIGH"
  using ignition_arms_sequence [OF sample_visitor_wf, of sample_env sample_config null_wqi]
  by (auto simp: sample_config_def)

end
