(* ===== verification/LunaBurn.thy ===== *)
theory LunaBurn
  imports LunaVisitor Stages
begin

text \<open>
  The burn of the Luna engine: ignition arms \<open>ign2\<close>, \<open>ign2\<close> opens the main valve and arms \<open>ign3\<close>,
  \<open>ign3\<close> closes everything; and what can and cannot happen in between.
\<close>

section \<open>The stages in closed form\<close>

lemma woken_wf: "luna_wf C s \<Longrightarrow> action_index a = Some i \<Longrightarrow> luna_wf C (woken a u tr s)"
  using woken_vis_wf [of s a i u tr] by (simp add: luna_wf_def) (simp add: woken_def)

lemma luna_visit_stage:
  assumes wf: "luna_wf C s" and i: "extra_datap item = Some i" "10 \<le> i" "action_index a = Some i"
    and u: "get_time E (base_time s) (trace s) = (u, tr0)"
  shows "luna_visitTimed E C item s =
    (if a = ign2 then luna_ign2 C else if a = ign3 then luna_ign3 else luna_gitvc C) (woken a u tr0 s)"
proof -
  have vw: "vis_wf s" and i13: "i < 13" using wf action_index_less i(3) by (auto simp: luna_wf_def)
  have a: "a \<in> {ign2, ign3, gitvc}" using i(2,3) by (cases a) auto
  note w = woken_eq [OF i(3), of u tr0 s, symmetric]
  have act: "ti_action (ti_at i t) = a" if "luna_wf C t" for t :: "'a luna_visitor_scheme"
    using that ti_action_nth [OF _ i13] i(3) action_index_nth [OF i13] by (metis action_index_inj luna_wf_def)
  have nobuf: "ti_buffer (ti_at i (woken a u tr0 s)) = None"
    using wiring_ok_stage [of "heap s" "tis (ti_list s)" i] vw i13 i(2) vis_wf_length [OF vw]
    by (simp add: w [symmetric] vis_wf_def ti_at_def)
  have w0: "luna_wf C (woken a u tr0 s)" using wf i(3) by (rule woken_wf)
  have branch: "exec [when_s (\<lambda>s. ti_action (ti_at i s) = ign2) [luna_ign2 C],
      when_s (\<lambda>s. ti_action (ti_at i s) = ign3) [luna_ign3],
      when_s (\<lambda>s. ti_action (ti_at i s) = gitvc) [luna_gitvc C]] (woken a u tr0 s)
    = (if a = ign2 then luna_ign2 C else if a = ign3 then luna_ign3 else luna_gitvc C) (woken a u tr0 s)"
  proof -
    obtain t where t: "luna_ign2 C (woken a u tr0 s) = Inr t" "luna_wf C t"
      using w0 by (rule ensuresE [OF keeps_luna_stages(1)])
    moreover obtain t' where t': "luna_ign3 (woken a u tr0 s) = Inr t'" "luna_wf C t'"
      using w0 by (rule ensuresE [OF keeps_luna_stages(2)])
    moreover obtain t'' where "luna_gitvc C (woken a u tr0 s) = Inr t''"
      using w0 by (rule ensuresE [OF keeps_luna_gitvc])
    ultimately show ?thesis
      using a act [OF w0] act [OF t(2)] act [OF t'(2)] by (elim insertE) (simp_all add: when_s_def)
  qed
  then show ?thesis
    using i13 vis_wf_length [OF vw] i(1) nobuf
    by (simp add: luna_visitTimed_def exec_two exec_single read_clock_def u with_ti_def set_ti_def if_s_def
        ti_at_def [symmetric] w del: exec.simps)
qed

lemma luna_ign2_eq:
  assumes "til_wf (ti_list s)"
  shows "luna_ign2 C s =
    (let l = til_upd ign3 (ti_enable (now s)) (til_upd ign2 ti_disable (ti_list s));
         s1 = s\<lparr>ti_list := l, trace := gpio_write MAIN_VALVE HIGH (trace s), start_time_nitr := now s, burn_on := True\<rparr>
     in Inr (if use_gitvc C \<and> more_gitvc C s
             then s1\<lparr>ti_list := til_upd gitvc (ti_enable (now s)) l, gitvc_on := False\<rparr> else s1))"
  using assms
  by (simp add: luna_ign2_def on_list_def enable_now_def stage_ops gpio_def assign_def when_s_def
      more_gitvc_def Let_def)

lemma luna_ign3_eq:
  assumes "til_wf (ti_list s)"
  shows "luna_ign3 s =
    Inr (s\<lparr>burn_on := False, gitvc_count := INT_MAX,
           ti_list := til_upd gitvc ti_disable (til_upd ign3 ti_disable (ti_list s)),
           trace := gpio_write WATER_VALVE LOW (gpio_write GITVC_VALVE HIGH
                      (gpio_write IGN_START LOW (gpio_write MAIN_VALVE LOW (trace s))))\<rparr>)"
  using assms by (simp add: luna_ign3_def on_list_def stage_ops gpio_def assign_def)

lemma woken_luna_fields [simp]:
  "gitvc_count (woken a u tr s) = gitvc_count s" "gitvc_on (woken a u tr s) = gitvc_on s"
  "more_gitvc C (woken a u tr s) = more_gitvc C s"
  by (simp_all add: woken_def more_gitvc_def)

lemma luna_ign2_visit:
  assumes "luna_wf C s" and "extra_datap item = Some 10"
  shows "\<exists>s'. luna_visitTimed E C item s = Inr s' \<and> now s' = fst (get_time E (base_time s) (trace s))
    \<and> pin_level (trace s') = (pin_level (trace s))(MAIN_VALVE \<mapsto> HIGH)
    \<and> burn_on s' \<and> start_time_nitr s' = now s'
    \<and> \<not> enabled (til_item ign2 (ti_list s'))
    \<and> til_item ign3 (ti_list s') = (til_item ign3 (ti_list s))\<lparr>enabled := True, scheduled := now s'\<rparr>
    \<and> (if use_gitvc C \<and> gitvc_count s < int (length (gitvc_times C))
       then til_item gitvc (ti_list s') = (til_item gitvc (ti_list s))\<lparr>enabled := True, scheduled := now s'\<rparr>
         \<and> \<not> gitvc_on s'
       else til_item gitvc (ti_list s') = til_item gitvc (ti_list s) \<and> gitvc_on s' = gitvc_on s)"
proof -
  obtain u tr0 where u: "get_time E (base_time s) (trace s) = (u, tr0)" by (meson surj_pair)
  have wf: "til_wf (ti_list s)" using assms(1) by (simp add: luna_wf_def vis_wf_def)
  have "pin_level tr0 = pin_level (trace s)"
    using quiet_after_pin_level [OF get_time_quiet [OF u]] by (rule ext)
  moreover have "luna_visitTimed E C item s = luna_ign2 C (woken ign2 u tr0 s)"
    using luna_visit_stage [OF assms, of ign2] u by simp
  ultimately show ?thesis
    using wf more_gitvc_iff [OF assms(1)] u
    by (simp add: luna_ign2_eq stage_ops stage_items Let_def ti_enable_def ti_disable_def fun_eq_iff)
qed

text \<open>
  The \<open>ign2\<close> stage of a Luna burn opens the main valve and no other, marks the burn as on from
  this moment, disarms itself and arms \<open>ign3\<close> to end the burn after its delay; the GITVC stage is
  armed from now exactly when it is configured and there are pulses left.
\<close>

theorem luna_burn_starts:
  assumes "luna_wf C s" and "extra_datap item = Some 10"
  shows "\<exists>s'. luna_visitTimed E C item s = Inr s' \<and> now s' = fst (get_time E (base_time s) (trace s))
    \<and> pin_level (trace s') = (pin_level (trace s))(MAIN_VALVE \<mapsto> HIGH)
    \<and> burn_on s' \<and> start_time_nitr s' = now s'
    \<and> \<not> enabled (til_item ign2 (ti_list s'))
    \<and> til_item ign3 (ti_list s') = (til_item ign3 (ti_list s))\<lparr>enabled := True, scheduled := now s'\<rparr>
    \<and> (if use_gitvc C \<and> gitvc_count s < int (length (gitvc_times C))
       then til_item gitvc (ti_list s') = (til_item gitvc (ti_list s))\<lparr>enabled := True, scheduled := now s'\<rparr>
         \<and> \<not> gitvc_on s'
       else til_item gitvc (ti_list s') = til_item gitvc (ti_list s) \<and> gitvc_on s' = gitvc_on s)"
  by (rule luna_ign2_visit [OF assms])

theorem luna_burn_starts_witness:
  "\<exists>s'. luna_visitTimed sample_env sample_config (timed_wqi 10) sample_luna = Inr s'
     \<and> pin_level (trace s') MAIN_VALVE = Some HIGH \<and> enabled (til_item gitvc (ti_list s'))"
  using luna_burn_starts [OF sample_luna_wf, of "timed_wqi 10" sample_env]
  by (auto simp: sample_config_def)

lemma luna_ign3_visit:
  assumes "luna_wf C s" and "extra_datap item = Some 11"
  shows "\<exists>s'. luna_visitTimed E C item s = Inr s' \<and> \<not> burn_on s'
    \<and> pin_level (trace s') MAIN_VALVE = Some LOW \<and> pin_level (trace s') IGN_START = Some LOW
    \<and> pin_level (trace s') GITVC_VALVE = Some HIGH \<and> pin_level (trace s') WATER_VALVE = Some LOW
    \<and> \<not> enabled (til_item ign3 (ti_list s')) \<and> \<not> enabled (til_item gitvc (ti_list s'))
    \<and> til_item ign2 (ti_list s') = til_item ign2 (ti_list s) \<and> gitvc_count s' = INT_MAX"
proof -
  obtain u tr0 where u: "get_time E (base_time s) (trace s) = (u, tr0)" by (meson surj_pair)
  have wf: "til_wf (ti_list s)" using assms(1) by (simp add: luna_wf_def vis_wf_def)
  have "luna_visitTimed E C item s = luna_ign3 (woken ign3 u tr0 s)"
    using luna_visit_stage [OF assms, of ign3] u by simp
  then show ?thesis
    using wf by (simp add: luna_ign3_eq stage_ops stage_items ti_disable_def pin_defs)
qed

text \<open>
  The \<open>ign3\<close> stage ends a Luna burn safely from any state: main valve, igniter and water are
  off and GITVC is closed when the visit returns, the burn is marked over, and neither \<open>ign3\<close> nor
  GITVC is armed any more.
\<close>

theorem luna_burn_ends:
  assumes "luna_wf C s" and "extra_datap item = Some 11"
  shows "\<exists>s'. luna_visitTimed E C item s = Inr s' \<and> \<not> burn_on s'
    \<and> pin_level (trace s') MAIN_VALVE = Some LOW \<and> pin_level (trace s') IGN_START = Some LOW
    \<and> pin_level (trace s') GITVC_VALVE = Some HIGH \<and> pin_level (trace s') WATER_VALVE = Some LOW
    \<and> \<not> enabled (til_item ign3 (ti_list s')) \<and> \<not> enabled (til_item gitvc (ti_list s'))
    \<and> til_item ign2 (ti_list s') = til_item ign2 (ti_list s) \<and> gitvc_count s' = INT_MAX"
  using luna_ign3_visit [OF assms] .

theorem luna_burn_ends_witness:
  "\<exists>s'. luna_visitTimed sample_env sample_config (timed_wqi 11) sample_luna = Inr s'
     \<and> pin_level (trace s') MAIN_VALVE = Some LOW"
  using luna_burn_ends [OF sample_luna_wf, of "timed_wqi 11" sample_env] by auto

section \<open>Rounds of the loop\<close>

text \<open>
  The worker thread of a Luna cannot crash: from any state of its invariant, after any number
  of rounds, with any answers from the outside, it has met no undefined behaviour and no
  exception, and the invariant still holds.
\<close>

theorem luna_worker_never_fails:
  assumes "luna_wf C s"
  shows "\<exists>s'. worker_method (luna_visit E C) n s = Inr s' \<and> luna_wf C s'"
  using luna.run_law [OF assms] by blast

theorem luna_worker_never_fails_witness:
  "\<exists>s'. worker_method (luna_visit sample_env sample_config) 1000 sample_luna = Inr s'
     \<and> luna_wf sample_config s'"
  by (rule luna_worker_never_fails [OF sample_luna_wf])

text \<open>
  While a client stays connected, the items a Luna worker queues for a sensor announce
  ranges that follow one another without gap or overlap, from what was sent before to what has
  been sent now, over any number of rounds.
\<close>

theorem luna_sends_tile:
  assumes "luna_wf C s" and "connected (nw s)" and "i < 10"
    and "worker_method (luna_visit E C) n s = Inr s'"
  shows "\<exists>ys. q (qn s') = q (qn s) @ ys
    \<and> tiles (nbytes_last_send (ti_at i s)) (filter (\<lambda>y. nqi_buff y = ti_buffer (ti_at i s)) ys)
        (nbytes_last_send (ti_at i s'))"
proof -
  have f: "sends_from (send_view s) (send_view s')" and wf: "vis_wf s" "vis_wf s'"
    using luna.run_law [OF assms(1), of E n] assms(1,4) by (auto simp: luna_wf_def)
  then show ?thesis
    using assms(2,3) vis_wf_length [OF wf(1)] vis_wf_length [OF wf(2)]
    by (auto simp: send_view_def ti_at_def)
qed

theorem luna_sends_tile_witness:
  "\<exists>s' ys. worker_method (luna_visit sample_env sample_config) 50 sample_luna = Inr s' \<and> q (qn s') = ys
     \<and> tiles 0 (filter (\<lambda>y. nqi_buff y = Some 5) ys) (nbytes_last_send (ti_at 5 s'))"
proof -
  obtain s' where s': "worker_method (luna_visit sample_env sample_config) 50 sample_luna = Inr s'"
    using luna.run_law [OF sample_luna_wf] by blast
  have "nbytes_last_send (ti_at 5 sample_luna) = 0" "ti_buffer (ti_at 5 sample_luna) = Some 5"
    by (simp_all add: ti_at_def sample_til_def temp_ti_list_def timed_item_new_def)
  with luna_sends_tile [OF sample_luna_wf _ _ s', of 5] s' show ?thesis
    by (auto simp: sample_network_def)
qed

text \<open>The stages leave the work queue alone, so the table is worked off as the engine's contract says.\<close>

lemma preserves_qw_luna_visitTimed: "preserves qw (luna_visitTimed E C item)"
proof -
  have "preserves qw (assign (gitvc_on_update f))" "preserves qw (assign (gitvc_count_update g))"
    "preserves qw incr_gitvc_count" for f g
    by (auto simp: preserves_def assign_def incr_gitvc_count_def split: if_splits)
  moreover have "preserves qw (on_list h :: 'a luna_visitor_scheme \<Rightarrow> _)" for h
    by (rule untouched)
  then have "preserves qw (set_gitvc_delay C :: 'a luna_visitor_scheme \<Rightarrow> _)"
    by (auto simp: preserves_def set_gitvc_delay_def Let_def split: if_splits)
  ultimately show ?thesis
    unfolding luna_visitTimed_def luna_ign2_def luna_ign3_def luna_gitvc_def
    by (intro preserves_rules untouched)
qed

lemma luna_visitProc_queue:
  assumes "luna_visitProc item s = Inr s'"
  shows "\<exists>ys. q (qw s') = q (qw s) @ ys \<and> length ys \<le> 1 \<and> (\<forall>y \<in> set ys. wqi_action y \<in> {ign1, wq_none})"
  using assms worker_visitProc_queue
  by (auto simp: luna_visitProc_def gpio_def split: option.splits send_code.splits)

interpretation luna_rounds: scheduled_engine "luna_wf C" "luna_visit E C" E luna_visitProc "luna_visitTimed E C"
    "worker_visitIgn E C"
  for E C
  by unfold_locales
    (simp add: luna_visit_def, rule preserves_qw_luna_visitTimed, rule untouched, erule luna_visitProc_queue)

text \<open>
  A Luna burn is bounded: once the configured length of the burn has passed when the worker
  finds its queue empty, then within 13 rounds the main valve, the igniter and the water are
  off, GITVC is closed and the burn is over, whatever the sensors and the outside do.
\<close>

theorem luna_burn_is_bounded:
  assumes "luna_wf C s" and "q (qw s) = []" and "enabled (til_item ign3 (ti_list s))"
    and "unat (scheduled (til_item ign3 (ti_list s))) + unat (time_delay (til_item ign3 (ti_list s)))
      < unat (fst (get_time E (base_time s) (trace s)))"
  shows "\<exists>n s'. n \<le> 13 \<and> worker_method (luna_visit E C) n s = Inr s' \<and> \<not> burn_on s'
    \<and> pin_level (trace s') MAIN_VALVE = Some LOW \<and> pin_level (trace s') IGN_START = Some LOW
    \<and> pin_level (trace s') GITVC_VALVE = Some HIGH \<and> pin_level (trace s') WATER_VALVE = Some LOW"
proof -
  obtain n t where n: "n \<le> 12" "luna_wf C t"
    "worker_method (luna_visit E C) (Suc n) s = luna_visitTimed E C (timed_wqi 11) t"
    using luna_rounds.due_item_visited [OF assms(1,2), of 11 E] assms(3,4) by (auto simp: til_item_at)
  with luna_ign3_visit [OF n(2), of "timed_wqi 11" E] show ?thesis
    by (intro exI [of _ "Suc n"]) auto
qed

theorem luna_burn_is_bounded_witness:
  "\<exists>n s'. n \<le> 13 \<and> worker_method (luna_visit sample_env sample_config) n
       (sample_luna\<lparr>burn_on := True, trace := [Bcm_init True, Spi_begin True],
          ti_list := til_upd ign3 (\<lambda>x. x\<lparr>enabled := True, scheduled := 100, time_delay := 3000\<rparr>) sample_til\<rparr>)
       = Inr s' \<and> pin_level (trace s') MAIN_VALVE = Some LOW"
proof -
  let ?s = "sample_luna\<lparr>burn_on := True, trace := [Bcm_init True, Spi_begin True],
    ti_list := til_upd ign3 (\<lambda>x. x\<lparr>enabled := True, scheduled := 100, time_delay := 3000\<rparr>) sample_til\<rparr>"
  have "vis_wf (sample_luna\<lparr>ti_list := (ti_list sample_luna)\<lparr>tis := (tis (ti_list sample_luna))
      [11 := (\<lambda>x. x\<lparr>enabled := True, scheduled := 100, time_delay := 3000\<rparr>) (tis (ti_list sample_luna) ! 11)]\<rparr>\<rparr>)"
    using sample_luna_wf by (intro vis_wf_update_item) (simp_all add: luna_wf_def harmless_def)
  then have wf: "luna_wf sample_config ?s"
    using sample_luna_wf by (simp add: luna_wf_def vis_wf_defs til_upd_def til_item_def)
  have "til_wf sample_til" using sample_luna_wf by (simp add: luna_wf_def vis_wf_def)
  with luna_burn_is_bounded [OF wf, of sample_env] show ?thesis
    by (simp add: stage_items get_time_def gettimeofday_def sample_env_def Let_def) blast
qed

text \<open>
  C6. An armed ignition comes to its burn: if the pre-ignition time has passed at a moment when the worker
  finds its queue empty, then within 12 rounds of the worker alone, with nothing queued by the network thread in between,
  the main valve is open, the burn is on and its end is armed from that moment, with the delay \<open>ign3\<close> then has.
  (What is queued before that moment goes first: 15 rounds an item empty the queue.)
\<close>

theorem luna_ignition_reaches_burn:
  assumes "luna_wf C s" and "q (qw s) = []" and "enabled (til_item ign2 (ti_list s))"
    and "unat (scheduled (til_item ign2 (ti_list s))) + unat (time_delay (til_item ign2 (ti_list s)))
      < unat (fst (get_time E (base_time s) (trace s)))"
  shows "\<exists>n s'. n \<le> 12 \<and> worker_method (luna_visit E C) n s = Inr s' \<and> burn_on s'
    \<and> pin_level (trace s') MAIN_VALVE = Some HIGH \<and> \<not> enabled (til_item ign2 (ti_list s'))
    \<and> enabled (til_item ign3 (ti_list s')) \<and> scheduled (til_item ign3 (ti_list s')) = start_time_nitr s'"
proof -
  obtain n t where n: "n \<le> 11" "luna_wf C t"
    "worker_method (luna_visit E C) (Suc n) s = luna_visitTimed E C (timed_wqi 10) t"
    using luna_rounds.due_item_visited [OF assms(1,2), of 10 E] assms(3,4) by (auto simp: til_item_at)
  with luna_ign2_visit [OF n(2), of "timed_wqi 10" E] show ?thesis
    by (intro exI [of _ "Suc n"]) auto
qed

theorem luna_ignition_reaches_burn_witness:
  "\<exists>n s'. n \<le> 12 \<and> worker_method (luna_visit sample_env sample_config) n
       (sample_luna\<lparr>trace := [Bcm_init True, Spi_begin True],
          ti_list := til_upd ign2 (\<lambda>x. x\<lparr>enabled := True, scheduled := 100, time_delay := 3000\<rparr>) sample_til\<rparr>)
       = Inr s' \<and> pin_level (trace s') MAIN_VALVE = Some HIGH"
proof -
  let ?s = "sample_luna\<lparr>trace := [Bcm_init True, Spi_begin True],
    ti_list := til_upd ign2 (\<lambda>x. x\<lparr>enabled := True, scheduled := 100, time_delay := 3000\<rparr>) sample_til\<rparr>"
  have "vis_wf (sample_luna\<lparr>ti_list := (ti_list sample_luna)\<lparr>tis := (tis (ti_list sample_luna))
      [10 := (\<lambda>x. x\<lparr>enabled := True, scheduled := 100, time_delay := 3000\<rparr>) (tis (ti_list sample_luna) ! 10)]\<rparr>\<rparr>)"
    using sample_luna_wf by (intro vis_wf_update_item) (simp_all add: luna_wf_def harmless_def)
  then have wf: "luna_wf sample_config ?s"
    using sample_luna_wf by (simp add: luna_wf_def vis_wf_defs til_upd_def til_item_def)
  have "til_wf sample_til" using sample_luna_wf by (simp add: luna_wf_def vis_wf_def)
  with luna_ignition_reaches_burn [OF wf, of sample_env] show ?thesis
    by (simp add: stage_items get_time_def gettimeofday_def sample_env_def Let_def) blast
qed

section \<open>Who may move a valve\<close>

lemma luna_visit_returns:
  assumes "luna_wf C s" and "wqi_ok item"
  shows "\<exists>s'. luna_visit E C item s = Inr s' \<and> luna_wf C s'"
proof -
  have "length (snd (snd (send_view s))) = 13"
    using assms(1) by (simp add: send_view_def luna_wf_def vis_wf_length)
  from luna.visit_law [OF assms(2) this] show ?thesis
    using assms(1) sends_from_refl by (fastforce simp: ensures_def)
qed

lemma preserves_more_luna_visitProc: "preserves worker_visitor.more (luna_visitProc item)"
  unfolding luna_visitProc_def by (auto split: option.splits send_code.splits intro: untouched)

text \<open>At a sensor the engine's handler marks the item and hands over to the base class.\<close>

lemma luna_visitTimed_base:
  assumes vw: "vis_wf s" and i: "extra_datap item = Some i" "i < 10"
  obtains u tr0 s0 where "s0 = s\<lparr>now := u, trace := tr0, ti_list := (ti_list s)\<lparr>tis := (tis (ti_list s))
      [i := (ti_at i s)\<lparr>scheduled := u\<rparr>]\<rparr>\<rparr>"
    "vis_wf s0" "pin_level (trace s0) = pin_level (trace s)"
    "luna_visitTimed E C item s = worker_visitTimed E C item s0"
proof -
  obtain u tr0 where u: "get_time E (base_time s) (trace s) = (u, tr0)" by (meson surj_pair)
  define s0 where "s0 = s\<lparr>now := u, trace := tr0, ti_list := (ti_list s)\<lparr>tis := (tis (ti_list s))
    [i := (ti_at i s)\<lparr>scheduled := u\<rparr>]\<rparr>\<rparr>"
  have "vis_wf (s\<lparr>ti_list := (ti_list s)\<lparr>tis := (tis (ti_list s))
      [i := (\<lambda>x. x\<lparr>scheduled := u\<rparr>) (tis (ti_list s) ! i)]\<rparr>\<rparr>)"
    by (rule vis_wf_update_item [OF vw]) (simp add: harmless_def)
  then have wf0: "vis_wf s0" by (simp add: s0_def vis_wf_defs ti_at_def)
  have buf: "ti_buffer (ti_at i s0) \<noteq> None"
    using at_sensor_ring [of i s0] wf0 i(2) by (auto simp: at_sensor_def)
  have eq: "luna_visitTimed E C item s = worker_visitTimed E C item s0"
    using i vis_wf_length [OF vw] buf
    by (simp add: luna_visitTimed_def exec_two exec_single read_clock_def u with_ti_def set_ti_def if_s_def
        ti_at_def [symmetric] s0_def [symmetric] del: exec.simps)
  have q: "pin_level (trace s0) = pin_level (trace s)"
    using quiet_after_pin_level [OF get_time_quiet [OF u]] by (simp add: s0_def fun_eq_iff)
  show thesis by (rule that [OF s0_def wf0 q eq])
qed

lemma luna_visit_sensor:
  assumes wf: "luna_wf C s" and i: "extra_datap item = Some i" "i < 10"
    and out: "luna_visitTimed E C item s = Inr s'"
  shows "(valves_kept (trace s) (trace s') \<and> burn_on s' = burn_on s
      \<or> valves_shut (trace s) (trace s') \<and> burn_on s \<and> \<not> burn_on s'
        \<and> shutoff_due C (pressure_avg s') (start_time_nitr s) (now s')) \<and> gitvc_count s' = gitvc_count s
    \<and> til_item ign2 (ti_list s') = til_item ign2 (ti_list s) \<and> til_item ign3 (ti_list s') = til_item ign3 (ti_list s)
    \<and> start_time_nitr s' = start_time_nitr s"
proof -
  have vw: "vis_wf s" using wf by (simp add: luna_wf_def)
  obtain u tr0 s0 where s0: "s0 = s\<lparr>now := u, trace := tr0, ti_list := (ti_list s)\<lparr>tis := (tis (ti_list s))
      [i := (ti_at i s)\<lparr>scheduled := u\<rparr>]\<rparr>\<rparr>"
    and wf0: "vis_wf s0" and q: "pin_level (trace s0) = pin_level (trace s)"
    and eq: "luna_visitTimed E C item s = worker_visitTimed E C item s0"
    by (rule luna_visitTimed_base [OF vw i])
  have run: "worker_visitTimed E C item s0 = Inr s'" using out eq by simp
  have "gitvc_count s' = gitvc_count s0"
    using preservesD [OF preserves_more_handlers(2) run] by (rule luna_members(1))
  then show ?thesis
    using visitTimed_valves [OF wf0 i run] q i(2) vis_wf_length [OF vw]
    by (simp add: valves_kept_def valves_shut_def s0 til_item_at) (simp add: ti_at_def)
qed

lemma luna_sensor_only_shuts:
  assumes "vis_wf s" and i: "extra_datap item = Some i" "i < 10" and out: "luna_visitTimed E C item s = Inr s'"
  shows "only_shuts (trace s) (trace s')"
proof -
  obtain s0 where s0: "vis_wf s0" "pin_level (trace s0) = pin_level (trace s)"
    "luna_visitTimed E C item s = worker_visitTimed E C item s0"
    by (rule luna_visitTimed_base [OF assms(1) i])
  with visitTimed_only_shuts [OF s0(1) i, of E C s'] out show ?thesis by (simp add: only_shuts_def)
qed

lemma luna_gitvc_eq:
  assumes wf: "luna_wf C s"
  shows "luna_gitvc C s = Inr
    (if gitvc_on s then
       s\<lparr>trace := gpio_write GITVC_VALVE HIGH (trace s), gitvc_on := False,
         ti_list := til_upd gitvc (ti_enable (now s))
           (til_upd gitvc (\<lambda>ti. ti\<lparr>time_delay := word_of_int (time_between_gitvc C)\<rparr>) (ti_list s))\<rparr>
     else if gitvc_count s < int (length (gitvc_times C)) \<and> burn_on s then
       s\<lparr>trace := gpio_write GITVC_VALVE LOW (trace s), gitvc_on := True, gitvc_count := gitvc_count s + 1,
         ti_list := til_upd gitvc (ti_enable (now s))
           (til_upd gitvc (\<lambda>ti. ti\<lparr>time_delay := word_of_int (gitvc_times C ! nat (gitvc_count s))\<rparr>) (ti_list s))\<rparr>
     else s)"
proof -
  have til: "til_wf (ti_list s)" using wf by (simp add: luna_wf_def vis_wf_def)
  have k: "nat (gitvc_count s) < length (gitvc_times C)"
    "unat (word_of_int (gitvc_count s) :: size_t) = nat (gitvc_count s)" "gitvc_count s \<noteq> INT_MAX"
    if "gitvc_count s < int (length (gitvc_times C))"
    using that wf unat_word_of_count [of C "gitvc_count s"] by (auto simp: luna_wf_def config_ok_def count_ok_def)
  show ?thesis
    using til more_gitvc_iff [OF wf] k
    by (auto simp: luna_gitvc_def if_s_def when_s_def gpio_def assign_def on_list_def enable_now_def stage_ops
        set_gitvc_delay_def incr_gitvc_count_def Let_def)
qed

text \<open>The ways a visit can go, with the state it leaves.\<close>

lemma luna_visit_cases:
  assumes wf: "luna_wf C s" and item: "wqi_ok item" and out: "luna_visit E C item s = Inr s'"
  obtains (command) "wqi_action item = wq_process" "luna_visitProc item s = Inr s'"
    | (sensor) i where "wqi_action item = wq_timed" "extra_datap item = Some i" "i < 10"
        "luna_visitTimed E C item s = Inr s'" "qw s' = qw s"
    | (burn) u tr where "wqi_action item = wq_timed" "extra_datap item = Some 10" "qw s' = qw s"
        "s' = projr (luna_ign2 C (woken ign2 u tr s))" "\<And>p. pin_level tr p = pin_level (trace s) p"
    | (stop) u tr where "wqi_action item = wq_timed" "extra_datap item = Some 11" "qw s' = qw s"
        "s' = projr (luna_ign3 (woken ign3 u tr s))" "\<And>p. pin_level tr p = pin_level (trace s) p"
    | (pulse) u tr where "wqi_action item = wq_timed" "extra_datap item = Some 12" "qw s' = qw s"
        "s' = projr (luna_gitvc C (woken gitvc u tr s))" "luna_wf C (woken gitvc u tr s)"
        "\<And>p. pin_level tr p = pin_level (trace s) p"
    | (ignite) u tr where "wqi_action item = ign1" "worker_visitIgn E C item s = Inr s'"
        "get_time E (base_time s) (trace s) = (u, tr)" "\<And>p. pin_level tr p = pin_level (trace s) p"
    | (idle) u tr where "wqi_action item = wq_none" "\<And>p. pin_level tr p = pin_level (trace s) p"
        "s' = s\<lparr>now := u, trace := tr,
          qw := (qw s)\<lparr>q := q (qw s) @ map timed_wqi (filter (\<lambda>j. due u (ti_at j s)) [0..<13])\<rparr>\<rparr>"
    | (other) "wqi_action item \<notin> {wq_process, wq_timed, ign1, wq_none}" "s' = s"
proof -
  obtain u tr where u: "get_time E (base_time s) (trace s) = (u, tr)" by (meson surj_pair)
  have tr: "pin_level tr p = pin_level (trace s) p" for p
    using quiet_after_pin_level [OF get_time_quiet [OF u]] .
  consider "wqi_action item = wq_process" | (timed) "wqi_action item = wq_timed" | "wqi_action item = ign1"
    | (none) "wqi_action item = wq_none" | (rest) "wqi_action item \<notin> {wq_process, wq_timed, ign1, wq_none}" by auto
  then show thesis
  proof cases
    case timed
    then obtain i where i: "extra_datap item = Some i" "i < 13" using item by (auto simp: wqi_ok_def)
    have run: "luna_visitTimed E C item s = Inr s'"
      using out timed by (simp add: luna_visit_def visit_def)
    have qw: "qw s' = qw s" using preservesD [OF preserves_qw_luna_visitTimed run] .
    note stage = luna_visit_stage [OF wf i(1) _ _ u] and w = woken_wf [OF wf, of gitvc 12 u tr]
    consider "i < 10" | "i = 10" | "i = 11" | "i = 12" using i(2) by linarith
    then show thesis
      using sensor [OF timed i(1) _ run qw] burn [OF timed _ qw _ tr, of u] stop [OF timed _ qw _ tr, of u]
        pulse [OF timed _ qw _ _ tr, of u] w i(1) run stage [of ign2] stage [of ign3] stage [of gitvc]
      by cases simp_all
  next
    case none
    have "vis_wf (s\<lparr>now := u, trace := tr\<rparr>)" using wf by (simp add: luna_wf_def)
    from check_ti_list_eq [OF this, of u] none out show thesis
      by (intro idle [of tr u]) (simp_all add: luna_visit_def visit_def visitNone_def read_clock_def u tr ti_at_def)
  next
    case rest
    then show thesis
      using out by (intro other) (cases "wqi_action item"; simp add: luna_visit_def visit_def visitDefault_def)+
  qed (use out u tr command ignite in \<open>auto simp: luna_visit_def visit_def\<close>)
qed

lemma luna_authority:
  assumes wf: "luna_wf C s" and item: "wqi_ok item" and out: "luna_visit E C item s = Inr s'"
  shows "(pin_level (trace s') MAIN_VALVE = Some HIGH \<longrightarrow> pin_level (trace s) MAIN_VALVE = Some HIGH
        \<or> wqi_action item = wq_process \<and> code_of (wqi_data0 item) = Some set_valve
        \<or> wqi_action item = wq_timed \<and> extra_datap item = Some 10)
    \<and> (pin_level (trace s') IGN_START = Some HIGH \<longrightarrow> pin_level (trace s) IGN_START = Some HIGH
        \<or> wqi_action item = wq_process \<and> code_of (wqi_data0 item) = Some set_ignition
        \<or> wqi_action item = ign1 \<and> ignition_on C)
    \<and> (enabled (til_item ign2 (ti_list s')) \<longrightarrow> enabled (til_item ign2 (ti_list s)) \<or> wqi_action item = ign1)
    \<and> (ign1 \<in> wqi_action ` set (q (qw s')) \<longrightarrow> ign1 \<in> wqi_action ` set (q (qw s))
        \<or> wqi_action item = wq_process \<and> code_of (wqi_data0 item) = Some ign_normal)"
proof -
  have til: "til_wf (ti_list s)" and vw: "vis_wf s" using wf by (simp_all add: luna_wf_def vis_wf_def)
  from wf item out show ?thesis
  proof (cases rule: luna_visit_cases)
    case command
    then show ?thesis
      by (auto simp: luna_visitProc_def worker_visitProc_def process_stmts pin_defs split: option.splits send_code.splits)
  next
    case (sensor i)
    from luna_visit_sensor [OF wf sensor(2-4)] sensor(1,5) show ?thesis
      by (auto simp: valves_kept_def valves_shut_def valve_pins_def)
  next
    case (burn u tr)
    then show ?thesis
      using til by (auto simp: luna_ign2_eq stage_ops stage_items ti_disable_def pin_defs Let_def)
  next
    case (stop u tr)
    then show ?thesis using til by (simp add: luna_ign3_eq stage_ops stage_items pin_defs)
  next
    case (pulse u tr)
    then show ?thesis using til by (auto simp: luna_gitvc_eq stage_ops stage_items pin_defs)
  next
    case (ignite u tr)
    then show ?thesis
      using worker_visitIgn_eq [OF vw ignite(3)] til
      by (auto simp: stage_ops stage_items ti_enable_def pin_defs split: if_splits)
  next
    case (idle u tr)
    then show ?thesis by auto
  qed simp
qed

text \<open>
  Only four things can open the main valve or light the igniter of a Luna. In any one visit,
  the main valve goes high only on a \<open>set_valve\<close> command or in the \<open>ign2\<close> stage, and the igniter only
  on \<open>set_ignition\<close> or at a configured ignition; \<open>ign2\<close> is armed only by an ignition, and an
  ignition is only queued on an \<open>ign_normal\<close> command.
\<close>

theorem luna_valve_authority:
  assumes wf: "luna_wf C s" and item: "wqi_ok item" and out: "luna_visit E C item s = Inr s'"
  shows "(pin_level (trace s') MAIN_VALVE = Some HIGH \<longrightarrow> pin_level (trace s) MAIN_VALVE = Some HIGH
        \<or> wqi_action item = wq_process \<and> code_of (wqi_data0 item) = Some set_valve
        \<or> wqi_action item = wq_timed \<and> extra_datap item = Some 10)
    \<and> (pin_level (trace s') IGN_START = Some HIGH \<longrightarrow> pin_level (trace s) IGN_START = Some HIGH
        \<or> wqi_action item = wq_process \<and> code_of (wqi_data0 item) = Some set_ignition
        \<or> wqi_action item = ign1 \<and> ignition_on C)
    \<and> (enabled (til_item ign2 (ti_list s')) \<longrightarrow> enabled (til_item ign2 (ti_list s)) \<or> wqi_action item = ign1)
    \<and> (ign1 \<in> wqi_action ` set (q (qw s')) \<longrightarrow> ign1 \<in> wqi_action ` set (q (qw s))
        \<or> wqi_action item = wq_process \<and> code_of (wqi_data0 item) = Some ign_normal)"
  using assms by (rule luna_authority)

theorem luna_valve_authority_witness:
  "\<exists>s'. luna_visit sample_env sample_config (timed_wqi 5) sample_luna = Inr s'
     \<and> pin_level (trace s') MAIN_VALVE \<noteq> Some HIGH \<and> pin_level (trace s') IGN_START \<noteq> Some HIGH"
proof -
  have ok: "wqi_ok (timed_wqi 5)" by (simp add: wqi_ok_def)
  obtain s' where s': "luna_visit sample_env sample_config (timed_wqi 5) sample_luna = Inr s'"
    using luna_visit_returns [OF sample_luna_wf ok] by blast
  from luna_valve_authority [OF sample_luna_wf ok s'] s' show ?thesis by simp
qed

text \<open>
  C22. The abort command does not abort an ignition that is under way: \<open>unset_ignition\<close> turns the
  igniter and the main valve off, but \<open>ign2\<close> stays armed, and when its delay is over its visit
  opens the main valve all the same.
\<close>

theorem unset_ignition_leaves_burn_armed:
  assumes "luna_wf C s" and "code_of (wqi_data0 item) = Some unset_ignition"
    and "enabled (til_item ign2 (ti_list s))"
  shows "\<exists>s1 s2. luna_visitProc item s = Inr s1
    \<and> pin_level (trace s1) MAIN_VALVE = Some LOW \<and> pin_level (trace s1) IGN_START = Some LOW
    \<and> enabled (til_item ign2 (ti_list s1))
    \<and> luna_visitTimed E C (timed_wqi 10) s1 = Inr s2
    \<and> pin_level (trace s2) MAIN_VALVE = Some HIGH \<and> burn_on s2"
proof -
  define s1 where "s1 = s\<lparr>trace := gpio_write MAIN_VALVE LOW (gpio_write IGN_START LOW (trace s))\<rparr>"
  have s1: "luna_visitProc item s = Inr s1"
    using assms(2) by (simp add: luna_visitProc_def worker_visitProc_def gpio_def s1_def)
  have wf: "luna_wf C s1" using assms(1) by (simp add: luna_wf_def s1_def)
  obtain u tr where u: "get_time E (base_time s1) (trace s1) = (u, tr)" by (meson surj_pair)
  have "til_wf (ti_list s1)" using wf by (simp add: luna_wf_def vis_wf_def)
  with luna_visit_stage [OF wf _ _ _ u, of "timed_wqi 10" 10 ign2] s1 assms(3) show ?thesis
    by (simp add: luna_ign2_eq stage_ops Let_def) (simp add: s1_def pin_defs)
qed

theorem unset_ignition_leaves_burn_armed_witness:
  "\<exists>s s1 s2. luna_visitProc (null_wqi\<lparr>wqi_data0 := 6\<rparr>) (s :: luna_visitor) = Inr s1
     \<and> pin_level (trace s1) MAIN_VALVE = Some LOW
     \<and> luna_visitTimed sample_env sample_config (timed_wqi 10) s1 = Inr s2
     \<and> pin_level (trace s2) MAIN_VALVE = Some HIGH"
proof -
  obtain s where s: "worker_visitIgn sample_env sample_config null_wqi sample_luna = Inr s"
    "luna_wf sample_config s"
    by (rule ensuresE [OF keeps_luna [OF keeps_worker_visitIgn preserves_more_handlers(3)] sample_luna_wf])
  obtain u tr where "get_time sample_env (base_time sample_luna) (trace sample_luna) = (u, tr)"
    by (meson surj_pair)
  then have "enabled (til_item ign2 (ti_list s))"
    using s worker_visitIgn_eq [of sample_luna sample_env u tr sample_config null_wqi] sample_luna_wf
    by (simp add: luna_wf_def) (auto simp: vis_wf_def stage_ops stage_items ti_enable_def)
  moreover have "code_of (wqi_data0 (null_wqi\<lparr>wqi_data0 := 6\<rparr>)) = Some unset_ignition"
    by (simp add: code_of_iff)
  ultimately show ?thesis
    using unset_ignition_leaves_burn_armed [OF s(2)] by blast
qed

text \<open>Once the pulse counter is at \<open>INT_MAX\<close> no visit moves it, and none opens the valve of the pulses but by command.\<close>

lemma gitvc_stays_parked:
  assumes wf: "luna_wf C s" and item: "wqi_ok item" and out: "luna_visit E C item s = Inr s'"
    and parked: "gitvc_count s = INT_MAX"
  shows "gitvc_count s' = INT_MAX
    \<and> (pin_level (trace s') GITVC_VALVE = Some LOW \<longrightarrow> pin_level (trace s) GITVC_VALVE = Some LOW
        \<or> wqi_action item = wq_process \<and> code_of (wqi_data0 item) = Some set_gitvc)"
proof -
  have til: "til_wf (ti_list s)" and vw: "vis_wf s" using wf by (simp_all add: luna_wf_def vis_wf_def)
  have none_left: "\<not> INT_MAX < int (length (gitvc_times C))" "\<not> more_gitvc C s"
    using wf parked more_gitvc_iff [OF wf] by (auto simp: luna_wf_def config_ok_def)
  from wf item out show ?thesis
  proof (cases rule: luna_visit_cases)
    case command
    have "worker_visitor.more s' = worker_visitor.more s"
      using preservesD [OF preserves_more_luna_visitProc command(2)] .
    then have "gitvc_count s' = gitvc_count s" by (rule luna_members(1))
    then show ?thesis
      using command parked by (auto simp: luna_visitProc_def worker_visitProc_def process_stmts pin_defs
        split: option.splits send_code.splits)
  next
    case (sensor i)
    from luna_visit_sensor [OF wf sensor(2-4)] parked show ?thesis
      by (auto simp: valves_kept_def valves_shut_def valve_pins_def)
  next
    case (burn u tr)
    then show ?thesis using til none_left parked by (simp add: luna_ign2_eq stage_ops pin_defs Let_def)
  next
    case (stop u tr)
    then show ?thesis using til by (simp add: luna_ign3_eq stage_ops pin_defs)
  next
    case (pulse u tr)
    then show ?thesis using none_left parked by (auto simp: luna_gitvc_eq)
  next
    case (ignite u tr)
    then show ?thesis using worker_visitIgn_eq [OF vw ignite(3)] parked by (auto simp: pin_defs split: if_splits)
  next
    case (idle u tr)
    then show ?thesis using parked by simp
  next
    case other
    then show ?thesis using parked by simp
  qed
qed

text \<open>Which items may take a pin from its safe level: commands, an ignition, the start of a burn and a pulse.\<close>

definition luna_opener :: "work_queue_item \<Rightarrow> bool" where
  "luna_opener x \<longleftrightarrow> wqi_action x \<in> {wq_process, ign1}
     \<or> wqi_action x = wq_timed \<and> extra_datap x \<in> {Some 10, Some 12}"

lemma luna_only_shuts:
  assumes wf: "luna_wf C s" and item: "wqi_ok item" and out: "luna_visit E C item s = Inr s'" and "\<not> luna_opener item"
  shows "only_shuts (trace s) (trace s')"
proof -
  have til: "til_wf (ti_list s)" and vw: "vis_wf s" using wf by (simp_all add: luna_wf_def vis_wf_def)
  from wf item out show ?thesis
  proof (cases rule: luna_visit_cases)
    case (sensor i)
    then show ?thesis using luna_sensor_only_shuts [OF vw] by blast
  next
    case (stop u tr)
    then show ?thesis
      using til by (auto simp: luna_ign3_eq stage_ops only_shuts_def safe_level_def pin_defs)
  qed (use assms(4) in \<open>auto simp: luna_opener_def only_shuts_def\<close>)
qed

text \<open>A burn that is on has its end armed, from its start and with the configured length.\<close>

definition burn_inv :: "config \<Rightarrow> 'a worker_visitor_scheme \<Rightarrow> bool" where
  "burn_inv C s \<longleftrightarrow> time_delay (til_item ign3 (ti_list s)) = word_of_int (hotflow_us C)
     \<and> (burn_on s \<longrightarrow> enabled (til_item ign3 (ti_list s)) \<and> scheduled (til_item ign3 (ti_list s)) = start_time_nitr s)"

lemma luna_visit_burn_inv:
  assumes wf: "luna_wf C s" and item: "wqi_ok item" and out: "luna_visit E C item s = Inr s'" and inv: "burn_inv C s"
  shows "burn_inv C s'"
proof -
  have til: "til_wf (ti_list s)" and vw: "vis_wf s" using wf by (simp_all add: luna_wf_def vis_wf_def)
  from wf item out show ?thesis
  proof (cases rule: luna_visit_cases)
    case command
    then show ?thesis
      using inv by (auto simp: luna_visitProc_def worker_visitProc_def process_stmts burn_inv_def
        split: option.splits send_code.splits)
  next
    case (sensor i)
    from luna_visit_sensor [OF wf sensor(2-4)] inv show ?thesis by (auto simp: burn_inv_def)
  next
    case (burn u tr)
    then show ?thesis
      using til inv by (simp add: luna_ign2_eq stage_ops stage_items Let_def burn_inv_def ti_enable_def)
  next
    case (stop u tr)
    then show ?thesis
      using til inv by (simp add: luna_ign3_eq stage_ops stage_items burn_inv_def ti_disable_def)
  next
    case (pulse u tr)
    then show ?thesis
      using til inv by (auto simp: luna_gitvc_eq stage_ops stage_items burn_inv_def) (simp_all add: woken_def)
  next
    case (ignite u tr)
    then show ?thesis
      using worker_visitIgn_eq [OF vw ignite(3)] til inv by (auto simp: stage_ops stage_items burn_inv_def)
  next
    case (idle u tr)
    then show ?thesis using inv by (simp add: burn_inv_def)
  next
    case other
    then show ?thesis using inv by simp
  qed
qed

end
