(* ===== verification/TitanVisitor.thy ===== *)
theory TitanVisitor
  imports MainWorker
begin

text \<open>
  \<open>src/visitor/titan_visitor.hpp\<close> and \<open>.cpp\<close>: the handlers of the Titan engine. It has no state of
  its own beyond the base class; its vent is the water pin, open when low, and its tank valve
  the GITVC pin, closed when high.
\<close>

section \<open>Handlers\<close>

type_synonym titan_visitor = worker_visitor

definition titan_visitor_new ::
    "config \<Rightarrow> (nat \<Rightarrow> nat \<Rightarrow> byte) \<Rightarrow> process \<Rightarrow> error + titan_visitor" where
  "titan_visitor_new C junk p = worker_visitor_new C junk p"

definition titan_visitProc :: "work_queue_item \<Rightarrow> 'a worker_visitor_scheme \<Rightarrow> error + 'a worker_visitor_scheme" where
  "titan_visitProc item =
     (case code_of (wqi_data0 item) of
        Some set_water \<Rightarrow> gpio WATER_VALVE LOW
      | Some unset_water \<Rightarrow> gpio WATER_VALVE HIGH
      | Some leak_check \<Rightarrow> exec [gpio MAIN_VALVE HIGH, gpio WATER_VALVE HIGH, gpio GITVC_VALVE HIGH]
      | Some fill \<Rightarrow> exec [gpio MAIN_VALVE HIGH, gpio WATER_VALVE HIGH, gpio GITVC_VALVE LOW]
      | Some fill_idle \<Rightarrow> exec [gpio MAIN_VALVE LOW, gpio WATER_VALVE HIGH, gpio GITVC_VALVE HIGH]
      | Some def_code \<Rightarrow> exec [gpio MAIN_VALVE LOW, gpio WATER_VALVE LOW, gpio GITVC_VALVE HIGH]
      | _ \<Rightarrow> worker_visitProc item)"

definition titan_ign2 :: "'a worker_visitor_scheme \<Rightarrow> error + 'a worker_visitor_scheme" where
  "titan_ign2 =
     exec
       [on_list (til_disable ign2),
        enable_now ign3,
        gpio MAIN_VALVE LOW,
        gpio VENT LOW,
        gpio TANK HIGH,
        assign (\<lambda>s. s\<lparr>start_time_nitr := now s\<rparr>),
        assign (burn_on_update (\<lambda>_. True))]"

definition titan_ign3 :: "'a worker_visitor_scheme \<Rightarrow> error + 'a worker_visitor_scheme" where
  "titan_ign3 =
     exec
       [assign (burn_on_update (\<lambda>_. False)),
        on_list (til_disable ign3),
        gpio IGN_START LOW]"

definition titan_visitTimed ::
    "env \<Rightarrow> config \<Rightarrow> work_queue_item \<Rightarrow> 'a worker_visitor_scheme \<Rightarrow> error + 'a worker_visitor_scheme" where
  "titan_visitTimed E C item =
     exec
       [read_clock E,
        with_ti item (\<lambda>i. exec
          [set_ti i (\<lambda>s ti. ti\<lparr>scheduled := now s\<rparr>),
           if_s (\<lambda>s. ti_buffer (ti_at i s) \<noteq> None)
             [worker_visitTimed E C item]
             [when_s (\<lambda>s. ti_action (ti_at i s) = ign2) [titan_ign2],
              when_s (\<lambda>s. ti_action (ti_at i s) = ign3) [titan_ign3]]])]"

definition titan_visit ::
    "env \<Rightarrow> config \<Rightarrow> work_queue_item \<Rightarrow> 'a worker_visitor_scheme \<Rightarrow> error + 'a worker_visitor_scheme" where
  "titan_visit E C = visit E titan_visitProc (titan_visitTimed E C) (worker_visitIgn E C)"

section \<open>Titan is an engine\<close>

lemma preserves_send_pins [untouched]:
  "preserves send_view (exec [gpio p1 l1, gpio p2 l2, gpio p3 l3])"
  by (intro preserves_rules untouched)

lemma keeps_titan_visitTimed:
  assumes item: "wqi_ok item" "wqi_action item = wq_timed" and v: "length (snd (snd v)) = 13"
  shows "ensures (sending vis_wf v) (titan_visitTimed E C item) (sending vis_wf v)"
proof -
  obtain i where i: "extra_datap item = Some i" "i < 13" using item by (auto simp: wqi_ok_def)
  have with_ti: "ensures (sending vis_wf v) (with_ti item body) (sending vis_wf v)"
    if "ensures (sending vis_wf v) (body i) (sending vis_wf v)"
    for body :: "nat \<Rightarrow> 'a worker_visitor_scheme \<Rightarrow> _"
    using that i by (auto simp: ensures_def with_ti_def vis_wf_length)
  have base: "ensures (sending vis_wf v) (worker_visitTimed E C item) (sending vis_wf v)"
    using item v by (intro keeps_sends_visitTimed keeps) simp_all
  have "ensures (sending vis_wf v) titan_ign2 (sending vis_wf v)"
    "ensures (sending vis_wf v) titan_ign3 (sending vis_wf v)"
    unfolding titan_ign2_def titan_ign3_def
    by (intro keeps_rules; intro keeps_sends keeps untouched; simp)+
  moreover have "ensures (sending vis_wf v) (read_clock E) (sending vis_wf v)"
    "ensures (sending vis_wf v) (set_ti i (\<lambda>s ti. ti\<lparr>scheduled := now s\<rparr>)) (sending vis_wf v)"
    by (intro keeps_sends keeps untouched; simp add: harmless_def)+
  ultimately show ?thesis
    unfolding titan_visitTimed_def by (intro keeps_rules with_ti base)
qed

lemma keeps_titan_visitProc:
  "ensures (sending vis_wf v) (titan_visitProc item) (sending vis_wf v)"
  unfolding titan_visitProc_def
  by (auto split: option.splits send_code.splits intro!: keeps_sends keeps_rules keeps untouched)

interpretation titan: engine vis_wf "titan_visit E C"
  for E and C
proof
  fix s :: "'a worker_visitor_scheme" and xs ys n tr
  assume "vis_wf s" "list_all wqi_ok xs" "list_all (nqi_ok (length (heap s))) ys"
  then show "vis_wf (s\<lparr>qw := (qw s)\<lparr>q := xs\<rparr>, qn := (qn s)\<lparr>q := ys\<rparr>, nw := n, trace := tr\<rparr>)"
    by (simp add: vis_wf_defs)
next
  fix item and v :: send_state
  assume item: "wqi_ok item" and v: "length (snd (snd v)) = 13"
  have "ensures (sending vis_wf v) (visitDefault item) (sending vis_wf v)"
    "ensures (sending vis_wf v) (visitNone E item) (sending vis_wf v)"
    "ensures (sending vis_wf v) (worker_visitIgn E C item) (sending vis_wf v)"
    by (intro keeps_sends keeps untouched; simp add: ensures_def visitDefault_def)+
  with keeps_titan_visitTimed [OF item _ v] keeps_titan_visitProc
  show "ensures (sending vis_wf v) (titan_visit E C item) (sending vis_wf v)"
    unfolding titan_visit_def visit_def by (cases "wqi_action item") simp_all
qed

end
