(* ===== verification/TitanBurn.thy ===== *)
theory TitanBurn
  imports TitanVisitor Stages
begin

text \<open>
  The burn of the Titan engine and its presets. On Titan an ignition never opens the main valve:
  the \<open>ign2\<close> stage closes it, opens the vent and closes the tank. Both stages are reached in time.
\<close>

section \<open>The stages in closed form\<close>

lemma titan_visit_stage:
  assumes vw: "vis_wf s" and i: "extra_datap item = Some i" "10 \<le> i" "action_index a = Some i"
    and u: "get_time E (base_time s) (trace s) = (u, tr0)"
  shows "titan_visitTimed E C item s =
    (if a = ign2 then titan_ign2 else if a = ign3 then titan_ign3 else Inr) (woken a u tr0 s)"
proof -
  have i13: "i < 13" using action_index_less i(3) by auto
  have a: "a \<in> {ign2, ign3, gitvc}" using i(2,3) by (cases a) auto
  note w = woken_eq [OF i(3), of u tr0 s, symmetric]
  have act: "ti_action (ti_at i t) = a" if "vis_wf t" for t :: "'a worker_visitor_scheme"
    using that ti_action_nth [OF _ i13] i(3) action_index_nth [OF i13] by (metis action_index_inj)
  have nobuf: "ti_buffer (ti_at i (woken a u tr0 s)) = None"
    using wiring_ok_stage [of "heap s" "tis (ti_list s)" i] vw i13 i(2) vis_wf_length [OF vw]
    by (simp add: w [symmetric] vis_wf_def ti_at_def)
  have w0: "vis_wf (woken a u tr0 s)" using vw i(3) by (rule woken_vis_wf)
  have branch: "exec [when_s (\<lambda>s. ti_action (ti_at i s) = ign2) [titan_ign2],
      when_s (\<lambda>s. ti_action (ti_at i s) = ign3) [titan_ign3]] (woken a u tr0 s)
    = (if a = ign2 then titan_ign2 else if a = ign3 then titan_ign3 else Inr) (woken a u tr0 s)"
  proof -
    have "ensures vis_wf (titan_ign2 :: 'a worker_visitor_scheme \<Rightarrow> _) vis_wf"
      unfolding titan_ign2_def by (intro keeps_rules keeps; simp)
    then obtain t where t: "titan_ign2 (woken a u tr0 s) = Inr t" "vis_wf t"
      using w0 by (rule ensuresE)
    have "ensures vis_wf (titan_ign3 :: 'a worker_visitor_scheme \<Rightarrow> _) vis_wf"
      unfolding titan_ign3_def by (intro keeps_rules keeps; simp)
    then obtain t' where t': "titan_ign3 (woken a u tr0 s) = Inr t'" "vis_wf t'"
      using w0 by (rule ensuresE)
    show ?thesis
      using a act [OF w0] act [OF t(2)] t t' by (elim insertE) (simp_all add: when_s_def)
  qed
  then show ?thesis
    using i13 vis_wf_length [OF vw] i(1) nobuf
    by (simp add: titan_visitTimed_def exec_two exec_single read_clock_def u with_ti_def set_ti_def if_s_def
        ti_at_def [symmetric] w del: exec.simps)
qed

lemma titan_ign2_eq:
  assumes "til_wf (ti_list s)"
  shows "titan_ign2 s = Inr (s\<lparr>ti_list := til_upd ign3 (ti_enable (now s)) (til_upd ign2 ti_disable (ti_list s)),
    trace := gpio_write TANK HIGH (gpio_write VENT LOW (gpio_write MAIN_VALVE LOW (trace s))),
    start_time_nitr := now s, burn_on := True\<rparr>)"
  using assms by (simp add: titan_ign2_def on_list_def enable_now_def stage_ops gpio_def assign_def)

lemma titan_ign3_eq:
  assumes "til_wf (ti_list s)"
  shows "titan_ign3 s = Inr (s\<lparr>burn_on := False, ti_list := til_upd ign3 ti_disable (ti_list s),
    trace := gpio_write IGN_START LOW (trace s)\<rparr>)"
  using assms by (simp add: titan_ign3_def on_list_def stage_ops gpio_def assign_def)

text \<open>
  The two stages of a Titan burn: \<open>ign2\<close> closes the main valve and the tank, opens the vent,
  marks the burn as on and arms \<open>ign3\<close> from this moment; \<open>ign3\<close> ends the burn by turning off the
  igniter, and leaves the three valves as they are.
\<close>

theorem titan_burn_stages:
  assumes "vis_wf s"
  shows "\<exists>s2 s3. titan_visitTimed E C (timed_wqi 10) s = Inr s2
    \<and> pin_level (trace s2) = (pin_level (trace s))(MAIN_VALVE \<mapsto> LOW, VENT \<mapsto> LOW, TANK \<mapsto> HIGH)
    \<and> burn_on s2 \<and> start_time_nitr s2 = now s2 \<and> \<not> enabled (til_item ign2 (ti_list s2))
    \<and> til_item ign3 (ti_list s2) = (til_item ign3 (ti_list s))\<lparr>enabled := True, scheduled := now s2\<rparr>
    \<and> titan_visitTimed E C (timed_wqi 11) s = Inr s3
    \<and> pin_level (trace s3) = (pin_level (trace s))(IGN_START \<mapsto> LOW)
    \<and> \<not> burn_on s3 \<and> \<not> enabled (til_item ign3 (ti_list s3))"
proof -
  obtain u tr where u: "get_time E (base_time s) (trace s) = (u, tr)" by (meson surj_pair)
  have "til_wf (ti_list s)" using assms by (simp add: vis_wf_def)
  moreover have "pin_level tr = pin_level (trace s)"
    using quiet_after_pin_level [OF get_time_quiet [OF u]] by (rule ext)
  ultimately show ?thesis
    using titan_visit_stage [OF assms _ _ _ u, of "timed_wqi 10" 10 ign2]
      titan_visit_stage [OF assms _ _ _ u, of "timed_wqi 11" 11 ign3]
    by (simp add: titan_ign2_eq titan_ign3_eq stage_ops stage_items ti_enable_def ti_disable_def fun_eq_iff)
qed

text \<open>The stages leave the work queue alone.\<close>

lemma preserves_qw_titan_visitTimed: "preserves qw (titan_visitTimed E C item)"
  unfolding titan_visitTimed_def titan_ign2_def titan_ign3_def
  by (intro preserves_rules untouched)

lemma titan_visitProc_queue:
  assumes "titan_visitProc item s = Inr s'"
  shows "\<exists>ys. q (qw s') = q (qw s) @ ys \<and> length ys \<le> 1 \<and> (\<forall>y \<in> set ys. wqi_action y \<in> {ign1, wq_none})"
  using assms worker_visitProc_queue
  by (auto simp: titan_visitProc_def gpio_def split: option.splits send_code.splits)

interpretation titan_rounds: scheduled_engine vis_wf "titan_visit E C" E titan_visitProc "titan_visitTimed E C"
    "worker_visitIgn E C"
  for E C
  by unfold_locales
    (simp add: titan_visit_def, rule preserves_qw_titan_visitTimed, rule untouched, erule titan_visitProc_queue)

text \<open>
  C26. A Titan burn starts and ends. If the worker finds its queue empty at a moment when the pre-ignition time has passed,
  then within 12 rounds of the worker alone, with nothing queued by the network thread in between, the main valve is closed,
  the vent open and the tank closed, the burn is on and its end is armed from that moment; and if it finds its queue empty at
  a moment when the length of the burn has passed, then within 13 such rounds the igniter is off, the burn is over and
  \<open>ign3\<close> is no longer armed.
\<close>

theorem titan_burn_is_bounded:
  assumes "vis_wf s" and "q (qw s) = []"
    and "enabled (til_item a (ti_list s))"
    and "unat (scheduled (til_item a (ti_list s))) + unat (time_delay (til_item a (ti_list s)))
      < unat (fst (get_time E (base_time s) (trace s)))"
  shows "(a = ign2 \<longrightarrow> (\<exists>n s'. n \<le> 12 \<and> worker_method (titan_visit E C) n s = Inr s' \<and> burn_on s'
      \<and> pin_level (trace s') MAIN_VALVE = Some LOW \<and> pin_level (trace s') VENT = Some LOW
      \<and> pin_level (trace s') TANK = Some HIGH \<and> \<not> enabled (til_item ign2 (ti_list s'))
      \<and> enabled (til_item ign3 (ti_list s')) \<and> scheduled (til_item ign3 (ti_list s')) = start_time_nitr s'))
    \<and> (a = ign3 \<longrightarrow> (\<exists>n s'. n \<le> 13 \<and> worker_method (titan_visit E C) n s = Inr s' \<and> \<not> burn_on s'
      \<and> pin_level (trace s') IGN_START = Some LOW \<and> \<not> enabled (til_item ign3 (ti_list s'))))"
proof (intro conjI impI)
  assume a: "a = ign2"
  obtain n t where n: "n \<le> 11" "vis_wf t"
    "worker_method (titan_visit E C) (Suc n) s = titan_visitTimed E C (timed_wqi 10) t"
    using titan_rounds.due_item_visited [OF assms(1,2), of 10 E] assms(3,4) a by (auto simp: til_item_at)
  with titan_burn_stages [OF n(2), of E C] show "\<exists>n s'. n \<le> 12 \<and> worker_method (titan_visit E C) n s = Inr s' \<and> burn_on s'
      \<and> pin_level (trace s') MAIN_VALVE = Some LOW \<and> pin_level (trace s') VENT = Some LOW
      \<and> pin_level (trace s') TANK = Some HIGH \<and> \<not> enabled (til_item ign2 (ti_list s'))
      \<and> enabled (til_item ign3 (ti_list s')) \<and> scheduled (til_item ign3 (ti_list s')) = start_time_nitr s'"
    by (intro exI [of _ "Suc n"]) (auto simp: pin_defs)
next
  assume a: "a = ign3"
  obtain n t where n: "n \<le> 12" "vis_wf t"
    "worker_method (titan_visit E C) (Suc n) s = titan_visitTimed E C (timed_wqi 11) t"
    using titan_rounds.due_item_visited [OF assms(1,2), of 11 E] assms(3,4) a by (auto simp: til_item_at)
  with titan_burn_stages [OF n(2), of E C] show "\<exists>n s'. n \<le> 13 \<and> worker_method (titan_visit E C) n s = Inr s'
      \<and> \<not> burn_on s' \<and> pin_level (trace s') IGN_START = Some LOW \<and> \<not> enabled (til_item ign3 (ti_list s'))"
    by (intro exI [of _ "Suc n"]) auto
qed

theorem titan_burn_is_bounded_witness:
  "\<exists>n s'. n \<le> 13 \<and> worker_method (titan_visit sample_env sample_config) n
       (sample_visitor\<lparr>burn_on := True, trace := [Bcm_init True, Spi_begin True],
          ti_list := til_upd ign3 (\<lambda>x. x\<lparr>enabled := True, scheduled := 100, time_delay := 3000\<rparr>) sample_til\<rparr>)
       = Inr s' \<and> pin_level (trace s') IGN_START = Some LOW"
proof -
  let ?s = "sample_visitor\<lparr>burn_on := True, trace := [Bcm_init True, Spi_begin True],
    ti_list := til_upd ign3 (\<lambda>x. x\<lparr>enabled := True, scheduled := 100, time_delay := 3000\<rparr>) sample_til\<rparr>"
  have "vis_wf (sample_visitor\<lparr>ti_list := (ti_list sample_visitor)\<lparr>tis := (tis (ti_list sample_visitor))
      [11 := (\<lambda>x. x\<lparr>enabled := True, scheduled := 100, time_delay := 3000\<rparr>) (tis (ti_list sample_visitor) ! 11)]\<rparr>\<rparr>)"
    using sample_visitor_wf by (intro vis_wf_update_item) (simp_all add: harmless_def)
  then have wf: "vis_wf ?s"
    using sample_visitor_wf by (simp add: vis_wf_defs til_upd_def til_item_def)
  have "til_wf sample_til" using sample_visitor_wf by (simp add: vis_wf_def)
  with titan_burn_is_bounded [OF wf, of ign3 sample_env] show ?thesis
    by (simp add: stage_items get_time_def gettimeofday_def sample_env_def Let_def) blast
qed

text \<open>
  The worker thread of a Titan cannot crash either: any number of rounds, with any answers
  from the outside, meets no undefined behaviour and no exception, and keeps the invariant.
\<close>

theorem titan_worker_never_fails:
  assumes "vis_wf s"
  shows "\<exists>s'. worker_method (titan_visit E C) n s = Inr s' \<and> vis_wf s'"
  using titan.run_law [OF assms] by blast

theorem titan_worker_never_fails_witness:
  "\<exists>s'. worker_method (titan_visit sample_env sample_config) 1000 sample_visitor = Inr s' \<and> vis_wf s'"
  by (rule titan_worker_never_fails [OF sample_visitor_wf])

lemma titan_visitTimed_base:
  assumes vw: "vis_wf s" and i: "extra_datap item = Some i" "i < 10"
  obtains u tr0 s0 where "s0 = s\<lparr>now := u, trace := tr0, ti_list := (ti_list s)\<lparr>tis := (tis (ti_list s))
      [i := (ti_at i s)\<lparr>scheduled := u\<rparr>]\<rparr>\<rparr>"
    "vis_wf s0" "pin_level (trace s0) = pin_level (trace s)"
    "titan_visitTimed E C item s = worker_visitTimed E C item s0"
proof -
  obtain u tr0 where u: "get_time E (base_time s) (trace s) = (u, tr0)" by (meson surj_pair)
  define s0 where "s0 = s\<lparr>now := u, trace := tr0, ti_list := (ti_list s)\<lparr>tis := (tis (ti_list s))
    [i := (ti_at i s)\<lparr>scheduled := u\<rparr>]\<rparr>\<rparr>"
  have "vis_wf (s\<lparr>ti_list := (ti_list s)\<lparr>tis := (tis (ti_list s))
      [i := (\<lambda>x. x\<lparr>scheduled := u\<rparr>) (tis (ti_list s) ! i)]\<rparr>\<rparr>)"
    by (rule vis_wf_update_item [OF vw]) (simp add: harmless_def)
  then have wf0: "vis_wf s0" by (simp add: s0_def vis_wf_defs ti_at_def)
  have buf: "ti_buffer (ti_at i s0) \<noteq> None"
    using at_sensor_ring [of i s0] wf0 i(2) by (auto simp: at_sensor_def)
  have eq: "titan_visitTimed E C item s = worker_visitTimed E C item s0"
    using i vis_wf_length [OF vw] buf
    by (simp add: titan_visitTimed_def exec_two exec_single read_clock_def u with_ti_def set_ti_def if_s_def
        ti_at_def [symmetric] s0_def [symmetric] del: exec.simps)
  have q: "pin_level (trace s0) = pin_level (trace s)"
    using quiet_after_pin_level [OF get_time_quiet [OF u]] by (simp add: s0_def fun_eq_iff)
  show thesis by (rule that [OF s0_def wf0 q eq])
qed

lemma titan_visit_sensor:
  assumes vw: "vis_wf s" and i: "extra_datap item = Some i" "i < 10"
    and out: "titan_visitTimed E C item s = Inr s'"
  shows "(valves_kept (trace s) (trace s') \<and> burn_on s' = burn_on s
      \<or> valves_shut (trace s) (trace s') \<and> burn_on s \<and> \<not> burn_on s'
        \<and> shutoff_due C (pressure_avg s') (start_time_nitr s) (now s'))
    \<and> til_item ign2 (ti_list s') = til_item ign2 (ti_list s) \<and> til_item ign3 (ti_list s') = til_item ign3 (ti_list s)
    \<and> start_time_nitr s' = start_time_nitr s"
proof -
  obtain u tr0 s0 where s0: "s0 = s\<lparr>now := u, trace := tr0, ti_list := (ti_list s)\<lparr>tis := (tis (ti_list s))
      [i := (ti_at i s)\<lparr>scheduled := u\<rparr>]\<rparr>\<rparr>"
    and wf0: "vis_wf s0" and q: "pin_level (trace s0) = pin_level (trace s)"
    and eq: "titan_visitTimed E C item s = worker_visitTimed E C item s0"
    by (rule titan_visitTimed_base [OF vw i])
  have run: "worker_visitTimed E C item s0 = Inr s'" using out eq by simp
  show ?thesis
    using visitTimed_valves [OF wf0 i run] q i(2) vis_wf_length [OF vw]
    by (simp add: valves_kept_def valves_shut_def s0 til_item_at) (simp add: ti_at_def)
qed

text \<open>Only a command or an ignition takes a pin from its safe level: both stages of a burn only shut.\<close>

definition titan_opener :: "work_queue_item \<Rightarrow> bool" where
  "titan_opener x \<longleftrightarrow> wqi_action x \<in> {wq_process, ign1}"

lemma titan_timed_only_shuts:
  assumes vw: "vis_wf s" and i: "extra_datap item = Some i" "i < 13" and run: "titan_visitTimed E C item s = Inr s'"
  shows "only_shuts (trace s) (trace s')"
proof -
  obtain u tr where u: "get_time E (base_time s) (trace s) = (u, tr)" by (meson surj_pair)
  have tr: "pin_level tr p = pin_level (trace s) p" for p
    using quiet_after_pin_level [OF get_time_quiet [OF u]] .
  have til: "til_wf (ti_list s)" using vw by (simp add: vis_wf_def)
  note stage = titan_visit_stage [OF vw i(1) _ _ u]
  consider "i < 10" | "i = 10" | "i = 11" | "i = 12" using i(2) by linarith
  then show ?thesis
  proof cases
    case 1
    obtain s0 where s0: "vis_wf s0" "pin_level (trace s0) = pin_level (trace s)"
      "titan_visitTimed E C item s = worker_visitTimed E C item s0"
      by (rule titan_visitTimed_base [OF vw i(1) 1])
    with visitTimed_only_shuts [OF s0(1) i(1) 1, of E C s'] run show ?thesis by (simp add: only_shuts_def)
  next
    case 2
    with run stage [of ign2] til tr show ?thesis
      by (auto simp: titan_ign2_eq stage_ops only_shuts_def safe_level_def pin_defs)
  next
    case 3
    with run stage [of ign3] til tr show ?thesis
      by (auto simp: titan_ign3_eq stage_ops only_shuts_def safe_level_def pin_defs)
  next
    case 4
    with run stage [of gitvc] tr show ?thesis by (auto simp: only_shuts_def)
  qed
qed

lemma titan_only_shuts:
  assumes vw: "vis_wf s" and item: "wqi_ok item" and out: "titan_visit E C item s = Inr s'" and "\<not> titan_opener item"
  shows "only_shuts (trace s) (trace s')"
proof -
  consider (timed) "wqi_action item = wq_timed" | (idle) "wqi_action item = wq_none"
    | (other) "wqi_action item \<notin> {wq_process, wq_timed, ign1, wq_none}"
    using assms(4) by (auto simp: titan_opener_def)
  then show ?thesis
  proof cases
    case timed
    then obtain i where i: "extra_datap item = Some i" "i < 13" using item by (auto simp: wqi_ok_def)
    from titan_timed_only_shuts [OF vw i] out timed show ?thesis by (simp add: titan_visit_def visit_def)
  next
    case idle
    obtain u tr where u: "get_time E (base_time s) (trace s) = (u, tr)" by (meson surj_pair)
    with idle out check_ti_list_eq [of "s\<lparr>now := u, trace := tr\<rparr>" u] vw quiet_after_pin_level [OF get_time_quiet [OF u]]
    show ?thesis by (auto simp: titan_visit_def visit_def visitNone_def read_clock_def only_shuts_def)
  next
    case other
    then have "s' = s" using out by (cases "wqi_action item") (simp_all add: titan_visit_def visit_def visitDefault_def)
    then show ?thesis by (simp add: only_shuts_def)
  qed
qed

lemma titan_visit_returns:
  assumes "vis_wf s" and "wqi_ok item"
  shows "\<exists>s'. titan_visit E C item s = Inr s' \<and> vis_wf s'"
proof -
  have "length (snd (snd (send_view s))) = 13"
    using assms(1) by (simp add: send_view_def vis_wf_length)
  from titan.visit_law [OF assms(2) this] show ?thesis
    using assms(1) sends_from_refl by (fastforce simp: ensures_def)
qed

text \<open>
  No Titan burn opens the main valve by itself: in any one visit it goes high only on the
  commands \<open>set_valve\<close>, \<open>leak_check\<close> and \<open>fill\<close>; and the tank opens only on \<open>fill\<close>.
\<close>

theorem titan_valve_authority:
  assumes vw: "vis_wf s" and item: "wqi_ok item" and out: "titan_visit E C item s = Inr s'"
  shows "(pin_level (trace s') MAIN_VALVE = Some HIGH \<longrightarrow> pin_level (trace s) MAIN_VALVE = Some HIGH
      \<or> wqi_action item = wq_process \<and> code_of (wqi_data0 item) \<in> {Some set_valve, Some leak_check, Some fill})
    \<and> (pin_level (trace s') TANK = Some LOW \<longrightarrow> pin_level (trace s) TANK = Some LOW
      \<or> wqi_action item = wq_process \<and> code_of (wqi_data0 item) = Some fill)"
proof -
  have til: "til_wf (ti_list s)" using vw by (simp add: vis_wf_def)
  obtain u tr where u: "get_time E (base_time s) (trace s) = (u, tr)" by (meson surj_pair)
  have tr: "pin_level tr p = pin_level (trace s) p" for p
    using quiet_after_pin_level [OF get_time_quiet [OF u]] .
  consider (proc) "wqi_action item = wq_process" | (timed) "wqi_action item = wq_timed"
    | (ign) "wqi_action item = ign1" | (idle) "wqi_action item = wq_none"
    | (other) "wqi_action item \<notin> {wq_process, wq_timed, ign1, wq_none}" by auto
  then show ?thesis
  proof cases
    case proc
    then show ?thesis
      using out
      by (auto simp: titan_visit_def visit_def titan_visitProc_def worker_visitProc_def process_stmts pin_defs
          split: option.splits send_code.splits)
  next
    case timed
    then obtain i where i: "extra_datap item = Some i" "i < 13" using item by (auto simp: wqi_ok_def)
    have run: "titan_visitTimed E C item s = Inr s'"
      using out timed by (simp add: titan_visit_def visit_def)
    note stage = titan_visit_stage [OF vw i(1) _ _ u]
    consider "i < 10" | "i = 10" | "i = 11" | "i = 12" using i(2) by linarith
    then show ?thesis
    proof cases
      case 1
      from titan_visit_sensor [OF vw i(1) this run] show ?thesis
        by (auto simp: valves_kept_def valves_shut_def valve_pins_def pin_defs)
    next
      case 2
      with run stage [of ign2] til tr show ?thesis
        by (auto simp: titan_ign2_eq stage_ops pin_defs)
    next
      case 3
      with run stage [of ign3] til tr show ?thesis
        by (auto simp: titan_ign3_eq stage_ops pin_defs)
    next
      case 4
      with run stage [of gitvc] tr show ?thesis by auto
    qed
  next
    case ign
    then show ?thesis
      using out worker_visitIgn_eq [OF vw u] tr
      by (auto simp: titan_visit_def visit_def pin_defs split: if_splits)
  next
    case idle
    then show ?thesis
      using out tr check_ti_list_eq [of "s\<lparr>now := u, trace := tr\<rparr>" u] vw
      by (auto simp: titan_visit_def visit_def visitNone_def read_clock_def u)
  next
    case other
    then have "s' = s" using out by (cases "wqi_action item") (simp_all add: titan_visit_def visit_def visitDefault_def)
    then show ?thesis by simp
  qed
qed

theorem titan_valve_authority_witness:
  "\<exists>s'. titan_visit sample_env sample_config (timed_wqi 10) sample_visitor = Inr s'
     \<and> pin_level (trace s') MAIN_VALVE \<noteq> Some HIGH \<and> pin_level (trace s') TANK \<noteq> Some LOW"
proof -
  have ok: "wqi_ok (timed_wqi 10)" by (simp add: wqi_ok_def)
  obtain s' where s': "titan_visit sample_env sample_config (timed_wqi 10) sample_visitor = Inr s'"
    using titan_visit_returns [OF sample_visitor_wf ok] by blast
  from titan_valve_authority [OF sample_visitor_wf ok s'] s' show ?thesis by simp
qed

end
