(* ===== verification/Listener.thy ===== *)
theory Listener
  imports Platform
begin

text \<open>
  \<open>src/util/listener.cpp\<close>: opening the TCP listener and waiting for one client. The port goes to
  the kernel as its low 16 bits; the struct that receives the client's address is not kept.
\<close>

definition LISTEN_MAX :: int where "LISTEN_MAX = 1"

definition open_listen :: "env \<Rightarrow> int \<Rightarrow> event list \<Rightarrow> int \<times> event list" where
  "open_listen E port tr =
     (case sys_sock E (Socket SOCK_STREAM) tr of (listenfd, tr) \<Rightarrow>
        if listenfd = -1 then (-1, tr)
        else case sys_sock E (Setsockopt_reuseaddr listenfd) tr of (r, tr) \<Rightarrow>
          if r < 0 then (-1, tr)
          else case sys_sock E (Bind listenfd (word_of_int port)) tr of (r, tr) \<Rightarrow>
            if r = -1 then (-1, tr)
            else case sys_sock E (Listen listenfd LISTEN_MAX) tr of (r, tr) \<Rightarrow>
              if r = -1 then (-1, tr)
              else (listenfd, tr @ [Stderr ''Opened listening fd'']))"

definition wait_for_connection :: "env \<Rightarrow> int \<Rightarrow> event list \<Rightarrow> error + (int \<times> event list)" where
  "wait_for_connection E port tr =
     (case open_listen E port tr of (listenfd, tr) \<Rightarrow>
        if listenfd < 0 then Inl (Exit 1 (tr @ [Stderr ''Failed to open listener'']))
        else case sys_sock E (Accept listenfd) tr of (connfd, tr) \<Rightarrow>
          Inr (connfd, sys_close listenfd (tr @ [Stderr ''Received request on connfd''])))"

section \<open>What it does to the trace\<close>

lemma open_listen_quiet: "open_listen E port tr = (fd, tr') \<Longrightarrow> quiet_after tr tr'"
  by (auto simp: open_listen_def split: prod.splits if_splits dest!: quiet_calls(5);
      meson quiet_after_trans quiet_after_snoc quiet_event_simps)

lemma wait_for_connection_quiet:
  "wait_for_connection E port tr = Inr (fd, tr') \<Longrightarrow> quiet_after tr tr'"
  "wait_for_connection E port tr = Inl e \<Longrightarrow> \<exists>tr'. e = Exit 1 tr' \<and> quiet_after tr tr'"
  by (auto simp: wait_for_connection_def split: prod.splits if_splits
      dest!: quiet_calls(5) open_listen_quiet;
      meson quiet_after_trans quiet_after_snoc quiet_calls(3) quiet_event_simps)+

end
