(* ===== verification/NetworkWorker.thy ===== *)
theory NetworkWorker
  imports Process BuffLogger Listener
begin

unbundle bit_operations_syntax

text \<open>
  \<open>src/server/network_worker.cpp\<close> and \<open>src/final/main_network_worker.cpp\<close>: the thread that accepts
  a client, turns each byte it receives into a command for the worker and sends the sensor
  data. Its members are the \<open>nw\<close> part of the shared process. The configuration value
  \<open>Server.Protocol = UDP\<close> is the argument \<open>udp\<close>; printing on \<open>std::cout\<close> and the text logger are
  left out.
\<close>

section \<open>The base class\<close>

definition POLLIN :: "16 word" where "POLLIN = 1"
definition POLLOUT :: "16 word" where "POLLOUT = 4"

definition set_nw :: "(network_worker \<Rightarrow> network_worker) \<Rightarrow> 'a process_scheme \<Rightarrow> 'a process_scheme" where
  "set_nw f s = s\<lparr>nw := f (nw s)\<rparr>"

definition stderr :: "string \<Rightarrow> 'a process_scheme \<Rightarrow> error + 'a process_scheme" where
  "stderr m s = Inr (s\<lparr>trace := trace s @ [Stderr m]\<rparr>)"

definition close_fd :: "(network_worker \<Rightarrow> int) \<Rightarrow> 'a process_scheme \<Rightarrow> error + 'a process_scheme" where
  "close_fd f s = Inr (s\<lparr>trace := sys_close (f (nw s)) (trace s)\<rparr>)"

text \<open>\<open>last_recv = get_time()\<close>\<close>

definition touch_last_recv :: "env \<Rightarrow> 'a process_scheme \<Rightarrow> error + 'a process_scheme" where
  "touch_last_recv E s =
     (case get_time E (base_time s) (trace s) of (u, tr) \<Rightarrow>
        Inr ((set_nw (last_recv_update (\<lambda>_. u)) s)\<lparr>trace := tr\<rparr>))"

text \<open>
  The constructor with its default \<open>timeout\<close> of 0; \<open>connected\<close>, \<open>pf\<close> and \<open>has_acked\<close> are left
  uninitialised, so they are those of the memory \<open>m\<close> the object is built in.
\<close>

definition network_worker_new ::
    "env \<Rightarrow> network_worker \<Rightarrow> int \<Rightarrow> timestamp_t \<Rightarrow> event list \<Rightarrow> network_worker \<times> event list" where
  "network_worker_new E m p base tr =
     (case get_time E base tr of (u, tr) \<Rightarrow>
        (m\<lparr>port := p, connfd_tcp := -1, connfd_udp := -1, timeout := 0, last_recv := u - 0\<rparr>, tr))"

definition fail_connection :: "'a process_scheme \<Rightarrow> error + 'a process_scheme" where
  "fail_connection =
     exec
       [close_fd connfd_tcp,
        when_s (\<lambda>s. connfd_udp (nw s) \<noteq> -1) [close_fd connfd_udp],
        assign (set_nw (\<lambda>n. n\<lparr>connfd_tcp := -1, connfd_udp := -1, pf := (pf n)\<lparr>pf_fd := -1\<rparr>, connected := False\<rparr>))]"

definition accept_tcp :: "env \<Rightarrow> 'a process_scheme \<Rightarrow> error + 'a process_scheme" where
  "accept_tcp E s =
     (case wait_for_connection E (port (nw s)) (trace s) of
        Inl e \<Rightarrow> Inl e
      | Inr (fd, tr) \<Rightarrow> Inr ((set_nw (connfd_tcp_update (\<lambda>_. fd)) s)\<lparr>trace := tr\<rparr>))"

definition open_udp :: "env \<Rightarrow> 'a process_scheme \<Rightarrow> error + 'a process_scheme" where
  "open_udp E s =
     (case sys_sock E (Socket SOCK_DGRAM) (trace s) of (fd, tr) \<Rightarrow>
        case sys_sock E (Connect fd (word_of_int (port (nw s)))) tr of (r, tr) \<Rightarrow>
          if r \<noteq> 0 then Inr ((set_nw (connfd_udp_update (\<lambda>_. -1)) s)\<lparr>trace := tr @ [Stderr ''Could not open UDP connection fd.'']\<rparr>)
          else Inr ((set_nw (connfd_udp_update (\<lambda>_. fd)) s)\<lparr>trace := tr\<rparr>))"

definition open_connection :: "env \<Rightarrow> bool \<Rightarrow> 'a process_scheme \<Rightarrow> error + 'a process_scheme" where
  "open_connection E udp =
     exec
       [accept_tcp E,
        when_s (\<lambda>s. connfd_tcp (nw s) < 0) [stderr ''Could not open TCP connection fd.''],
        when_s (\<lambda>s. udp) [open_udp E],
        assign (set_nw (\<lambda>n. n\<lparr>pf := (pf n)\<lparr>pf_fd := connfd_tcp n\<rparr>\<rparr>)),
        assign (set_nw (\<lambda>n. n\<lparr>connected := True, has_acked := False\<rparr>)),
        touch_last_recv E]"

text \<open>\<open>poll(&pf, 1, 0)\<close>\<close>

definition poll_pf :: "env \<Rightarrow> 'a process_scheme \<Rightarrow> int \<times> 'a process_scheme" where
  "poll_pf E s =
     (case sys_poll E (pf_fd (pf (nw s))) (trace s) of (r, ev, tr) \<Rightarrow>
        (r, (set_nw (\<lambda>n. n\<lparr>pf := (pf n)\<lparr>pf_revents := ev\<rparr>\<rparr>) s)\<lparr>trace := tr\<rparr>))"

text \<open>
  \<open>do_recv\<close>: the result and the bytes read. A failing \<open>poll\<close> ends the process; -2 is returned
  when there is nothing to read.
\<close>

definition do_recv ::
    "env \<Rightarrow> int \<Rightarrow> nat \<Rightarrow> 'a process_scheme \<Rightarrow> error + (int \<times> byte list \<times> 'a process_scheme)" where
  "do_recv E fd n s =
     (case poll_pf E s of (r, s) \<Rightarrow>
        if r \<ge> 0 then
          (if pf_revents (pf (nw s)) AND POLLIN = 0 then Inr (-2, [], s)
           else case sys_read E fd n (trace s) of (result, bs, tr) \<Rightarrow>
             (case (if result > 0 then exec [touch_last_recv E, assign (set_nw (has_acked_update (\<lambda>_. False)))]
                    else if result = 0 then exec [stderr ''Read nothing from socket. Assuming it is dead.'', fail_connection]
                    else exec []) (s\<lparr>trace := tr\<rparr>) of
                Inl e \<Rightarrow> Inl e
              | Inr s \<Rightarrow> Inr (result, bs, s)))
        else Inl (Exit 1 (trace s @ [Stderr ''Poll failed''])))"

text \<open>Data goes over UDP if that is set up.\<close>

definition conn_fd :: "network_worker \<Rightarrow> int" where
  "conn_fd n = (if connfd_udp n \<noteq> -1 then connfd_udp n else connfd_tcp n)"

text \<open>\<open>send_header\<close> writes the header and runs off its end without a return value.\<close>

definition send_header :: "env \<Rightarrow> byte \<Rightarrow> size_t \<Rightarrow> 'a process_scheme \<Rightarrow> error + 'a process_scheme" where
  "send_header E h n s =
     (let sh = \<lparr>sh_code = unat h, sh_nbytes = n\<rparr>
      in case sys_write E (conn_fd (nw s)) (header_bytes sh) (trace s) of (result, tr) \<Rightarrow>
           (case missing_return E of None \<Rightarrow> Inl Undefined | Some v \<Rightarrow> Inr (s\<lparr>trace := tr\<rparr>)))"

definition base_process_nqi ::
    "env \<Rightarrow> bool \<Rightarrow> network_queue_item \<Rightarrow> 'a process_scheme \<Rightarrow> error + (bool \<times> 'a process_scheme)" where
  "base_process_nqi E udp item s =
     (case when_s (\<lambda>s. \<not> connected (nw s)) [open_connection E udp] s of
        Inl e \<Rightarrow> Inl e
      | Inr s \<Rightarrow>
          if nqi_action item = nq_none then
            (case get_time E (base_time s) (trace s) of (u, tr) \<Rightarrow>
               let s = s\<lparr>trace := tr\<rparr> in
               if timeout (nw s) > 0 \<and> u - last_recv (nw s) > timeout (nw s) then
                 (case exec [stderr ''Connection timed out.'', fail_connection] s of
                    Inl e \<Rightarrow> Inl e | Inr s \<Rightarrow> Inr (True, s))
               else if timeout (nw s) > 0 \<and> \<not> has_acked (nw s) \<and> u - last_recv (nw s) > timeout (nw s) div 2 then
                 (case exec [stderr ''Connection inactive. Sending ack.'', push_qn (item\<lparr>nqi_action := nq_send_ack\<rparr>)] s of
                    Inl e \<Rightarrow> Inl e | Inr s \<Rightarrow> Inr (True, s))
               else
                 (case push_qn (item\<lparr>nqi_action := nq_recv\<rparr>) s of Inl e \<Rightarrow> Inl e | Inr s \<Rightarrow> Inr (True, s)))
          else Inr (False, s))"

section \<open>The derived class\<close>

text \<open>
  \<open>junk\<close> is the uninitialised local \<open>wqi\<close>, of which two members are assigned. The test
  \<open>!pf.revents & POLLOUT\<close> negates first. \<open>nq_send_ack\<close> leaves the switch and runs off the end.
\<close>

definition recv_command ::
    "env \<Rightarrow> work_queue_item \<Rightarrow> 'a process_scheme \<Rightarrow> error + (bool \<times> 'a process_scheme)" where
  "recv_command E junk s =
     (case do_recv E (connfd_tcp (nw s)) 1 s of
        Inl e \<Rightarrow> Inl e
      | Inr (result, bs, s) \<Rightarrow>
          if result \<le> 0 then Inr (True, s)
          else (case push_qw (junk\<lparr>wqi_action := wq_process, wqi_data0 := hd bs\<rparr>) s of
                  Inl e \<Rightarrow> Inl e | Inr s \<Rightarrow> Inr (True, s)))"

definition write_blocked :: "'a process_scheme \<Rightarrow> bool" where
  "write_blocked s \<longleftrightarrow> (if pf_revents (pf (nw s)) = 0 then 1 else 0) AND POLLOUT \<noteq> 0"

definition send_item ::
    "env \<Rightarrow> network_queue_item \<Rightarrow> 'a process_scheme \<Rightarrow> error + (bool \<times> 'a process_scheme)" where
  "send_item E item s =
     (case poll_pf E s of (r, s) \<Rightarrow>
        if r = 0 \<and> write_blocked s then Inr (True, s)
        else
          (case send_header E (nqi_data0 item) (nqi_nbytes item) s of
             Inl e \<Rightarrow> Inl e
           | Inr s \<Rightarrow>
               (case deref (heap s) (nqi_buff item) of
                  Inl e \<Rightarrow> Inl e
                | Inr b \<Rightarrow>
                    (case write_data E b (conn_fd (nw s)) (nqi_nbytes item) (total_bytes item) (trace s) of
                       Inl e \<Rightarrow> Inl e
                     | Inr (result, tr) \<Rightarrow>
                         Inr (True, s\<lparr>trace := (if result \<noteq> 0 then tr @ [Stderr ''Connection Closed''] else tr)\<rparr>)))))"

definition process_nqi ::
    "env \<Rightarrow> bool \<Rightarrow> work_queue_item \<Rightarrow> network_queue_item \<Rightarrow> 'a process_scheme
     \<Rightarrow> error + (bool \<times> 'a process_scheme)" where
  "process_nqi E udp junk item s =
     (case nqi_action item of
        nq_recv \<Rightarrow> recv_command E junk s
      | nq_send_ack \<Rightarrow> (case missing_return E of None \<Rightarrow> Inl Undefined | Some v \<Rightarrow> Inr (v \<noteq> 0, s))
      | nq_send \<Rightarrow> send_item E item s
      | nq_none \<Rightarrow> base_process_nqi E udp item s)"

section \<open>The loop\<close>

text \<open>One iteration; \<open>process\<close> is the class's \<open>process_nqi\<close>, a virtual method.\<close>

definition network_round ::
    "(network_queue_item \<Rightarrow> 'a process_scheme \<Rightarrow> error + (bool \<times> 'a process_scheme))
     \<Rightarrow> 'a process_scheme \<Rightarrow> error + 'a process_scheme" where
  "network_round process s =
     (case poll (qn s) of (item, qn') \<Rightarrow>
        case process item (s\<lparr>qn := qn'\<rparr>) of
          Inl e \<Rightarrow> Inl e
        | Inr (done, s) \<Rightarrow>
            if \<not> done then stderr ''Could not process request on network thread'' s else Inr s)"

definition network_step :: "env \<Rightarrow> bool \<Rightarrow> work_queue_item \<Rightarrow> 'a process_scheme \<Rightarrow> error + 'a process_scheme" where
  "network_step E udp junk = network_round (process_nqi E udp junk)"

primrec network_rounds ::
    "env \<Rightarrow> bool \<Rightarrow> (nat \<Rightarrow> work_queue_item) \<Rightarrow> nat \<Rightarrow> 'a process_scheme \<Rightarrow> error + 'a process_scheme" where
  "network_rounds E udp junk 0 s = Inr s"
| "network_rounds E udp junk (Suc n) s =
     (case network_step E udp (junk n) s of Inl e \<Rightarrow> Inl e | Inr s \<Rightarrow> network_rounds E udp junk n s)"

definition network_worker_method ::
    "env \<Rightarrow> bool \<Rightarrow> (nat \<Rightarrow> work_queue_item) \<Rightarrow> nat \<Rightarrow> 'a process_scheme \<Rightarrow> error + 'a process_scheme" where
  "network_worker_method E udp junk n s =
     network_rounds E udp junk n (set_nw (\<lambda>n. n\<lparr>pf := (pf n)\<lparr>pf_events := POLLIN OR POLLOUT\<rparr>\<rparr>) s)"

section \<open>The invariant\<close>

text \<open>
  The network thread changes the queues, its own members and the trace, and nothing else.
\<close>

definition net_next :: "'a process_scheme \<Rightarrow> 'a process_scheme \<Rightarrow> bool" where
  "net_next s s' \<longleftrightarrow> (\<exists>xs ys n tr.
     s' = s\<lparr>qw := (qw s)\<lparr>q := xs\<rparr>, qn := (qn s)\<lparr>q := ys\<rparr>, nw := n, trace := tr\<rparr>)"

definition net_ok :: "'a process_scheme \<Rightarrow> bool" where
  "net_ok s \<longleftrightarrow> queues_ok s \<and> heap_wf (heap s) \<and> timeout (nw s) = 0"

text \<open>
  Since \<open>s0\<close>: no pin was driven, and the commands queued are the bytes received, except for
  \<open>pend\<close>, which is received and not yet queued.
\<close>

definition net_inv :: "'a process_scheme \<Rightarrow> byte list \<Rightarrow> 'a process_scheme \<Rightarrow> bool" where
  "net_inv s0 pend s \<longleftrightarrow> net_ok s \<and> net_next s0 s \<and> undriven_after (trace s0) (trace s)
     \<and> (\<exists>xs. q (qw s) = q (qw s0) @ xs \<and> list_all (\<lambda>x. wqi_action x = wq_process) xs
          \<and> received (trace s) = received (trace s0) @ map wqi_data0 xs @ pend)"

text \<open>The only way to stop is \<open>exit(1)\<close>, with the pins as they were.\<close>

definition exits :: "'a process_scheme \<Rightarrow> error \<Rightarrow> bool" where
  "exits s0 e \<longleftrightarrow> (\<exists>tr. e = Exit 1 tr \<and> pin_level tr = pin_level (trace s0))"

lemma net_inv_pin_level: "net_inv s0 pend s \<Longrightarrow> pin_level (trace s) = pin_level (trace s0)"
  by (simp add: net_inv_def undriven_pin_level fun_eq_iff)

definition net_safe :: "'a process_scheme \<Rightarrow> byte list \<Rightarrow> ('a process_scheme \<Rightarrow> error + 'a process_scheme) \<Rightarrow> bool" where
  "net_safe s0 pend c \<longleftrightarrow>
     (\<forall>s. net_inv s0 pend s \<longrightarrow> (case c s of Inl e \<Rightarrow> exits s0 e | Inr u \<Rightarrow> net_inv s0 pend u))"

lemma net_safe_Nil: "net_safe s0 pend (exec [])"
  by (simp add: net_safe_def)

lemma net_safe_Cons: "net_safe s0 pend c \<Longrightarrow> net_safe s0 pend (exec cs) \<Longrightarrow> net_safe s0 pend (exec (c # cs))"
  by (simp add: net_safe_def) (metis (no_types, lifting) sum.case sum.exhaust)

lemma net_safe_when: "net_safe s0 pend (exec cs) \<Longrightarrow> net_safe s0 pend (when_s b cs)"
  by (simp add: net_safe_def when_s_def)

lemmas net_safe_rules = net_safe_Nil net_safe_Cons net_safe_when

lemma net_next_refl: "net_next s s"
  unfolding net_next_def
  by (rule exI [of _ "q (qw s)"], rule exI [of _ "q (qn s)"], rule exI [of _ "nw s"], rule exI [of _ "trace s"]) simp

lemma net_next_trans:
  assumes "net_next a b" and "net_next b c"
  shows "net_next a c"
proof -
  from assms(1) obtain xs ys n tr where
    b: "b = a\<lparr>qw := (qw a)\<lparr>q := xs\<rparr>, qn := (qn a)\<lparr>q := ys\<rparr>, nw := n, trace := tr\<rparr>"
    unfolding net_next_def by blast
  from assms(2) obtain xs' ys' n' tr' where
    c: "c = b\<lparr>qw := (qw b)\<lparr>q := xs'\<rparr>, qn := (qn b)\<lparr>q := ys'\<rparr>, nw := n', trace := tr'\<rparr>"
    unfolding net_next_def by blast
  show ?thesis unfolding net_next_def c b
    by (rule exI [of _ xs'], rule exI [of _ ys'], rule exI [of _ n'], rule exI [of _ tr']) simp
qed

lemma net_next_update:
  "net_next s (s\<lparr>trace := tr\<rparr>)" "net_next s (s\<lparr>nw := n\<rparr>)" "net_next s (s\<lparr>nw := n, trace := tr\<rparr>)"
  "net_next s (s\<lparr>qw := enqueue x (qw s)\<rparr>)" "net_next s (s\<lparr>qn := enqueue y (qn s)\<rparr>)"
  "net_next s (s\<lparr>qn := (qn s)\<lparr>q := ys\<rparr>\<rparr>)"
proof -
  have *: "net_next s (s\<lparr>qw := (qw s)\<lparr>q := xs\<rparr>, qn := (qn s)\<lparr>q := ys\<rparr>, nw := n, trace := tr\<rparr>)" for xs ys n tr
    unfolding net_next_def by blast
  show "net_next s (s\<lparr>trace := tr\<rparr>)" "net_next s (s\<lparr>nw := n\<rparr>)" "net_next s (s\<lparr>nw := n, trace := tr\<rparr>)"
    "net_next s (s\<lparr>qw := enqueue x (qw s)\<rparr>)" "net_next s (s\<lparr>qn := enqueue y (qn s)\<rparr>)"
    "net_next s (s\<lparr>qn := (qn s)\<lparr>q := ys\<rparr>\<rparr>)"
    using *[where xs = "q (qw s)" and ys = "q (qn s)" and n = "nw s" and tr = tr]
      *[where xs = "q (qw s)" and ys = "q (qn s)" and n = n and tr = "trace s"]
      *[where xs = "q (qw s)" and ys = "q (qn s)" and n = n and tr = tr]
      *[where xs = "q (qw s) @ [x]" and ys = "q (qn s)" and n = "nw s" and tr = "trace s"]
      *[where xs = "q (qw s)" and ys = "q (qn s) @ [y]" and n = "nw s" and tr = "trace s"]
      *[where xs = "q (qw s)" and ys = ys and n = "nw s" and tr = "trace s"]
    by (simp_all add: enqueue_def)
qed

text \<open>What keeps the invariant: members other than \<open>timeout\<close>, quiet calls, and items of the right kind.\<close>

lemma net_inv_quiet:
  assumes "net_inv s0 pend s" and "quiet_after (trace s) tr" and "timeout n = timeout (nw s)"
  shows "net_inv s0 pend (s\<lparr>nw := n, trace := tr\<rparr>)"
  using assms net_next_trans [OF _ net_next_update(3)] undriven_after_trans [OF _ undriven_after_quiet [OF assms(2)]]
    quiet_after_received [OF assms(2)]
  by (auto simp: net_inv_def net_ok_def queues_ok_def)

lemma net_inv_trace:
  "net_inv s0 pend s \<Longrightarrow> quiet_after (trace s) tr \<Longrightarrow> net_inv s0 pend (s\<lparr>trace := tr\<rparr>)"
  using net_inv_quiet [of s0 pend s tr "nw s"] by simp

lemma net_inv_nw:
  "net_inv s0 pend s \<Longrightarrow> timeout n = timeout (nw s) \<Longrightarrow> net_inv s0 pend (s\<lparr>nw := n\<rparr>)"
  using net_inv_quiet [of s0 pend s "trace s" n] by simp

lemma net_safe_statements:
  "net_safe s0 pend (stderr m)" "net_safe s0 pend (close_fd g)"
  "(\<And>n. timeout (f n) = timeout n) \<Longrightarrow> net_safe s0 pend (assign (set_nw f))"
  "net_safe s0 pend (touch_last_recv E)" "net_safe s0 pend (open_udp E)"
proof -
  show "net_safe s0 pend (stderr m)" "net_safe s0 pend (close_fd g)"
    by (auto simp: net_safe_def stderr_def close_fd_def intro!: net_inv_trace quiet_calls(3))
  show "net_safe s0 pend (assign (set_nw f))" if "\<And>n. timeout (f n) = timeout n"
    using that by (auto simp: net_safe_def assign_def set_nw_def intro!: net_inv_nw)
  show "net_safe s0 pend (touch_last_recv E)"
    by (auto simp: net_safe_def touch_last_recv_def set_nw_def split: prod.splits
        intro!: net_inv_quiet dest: get_time_quiet)
  show "net_safe s0 pend (open_udp E)"
    by (auto simp: net_safe_def open_udp_def set_nw_def split: prod.splits if_splits
        intro!: net_inv_quiet quiet_after_snocI dest!: quiet_calls(5) intro: quiet_after_trans)
qed

lemma net_safe_accept_tcp: "net_safe s0 pend (accept_tcp E)"
proof -
  have "case accept_tcp E s of Inl e \<Rightarrow> exits s0 e | Inr u \<Rightarrow> net_inv s0 pend u" if s: "net_inv s0 pend s" for s
  proof (cases "wait_for_connection E (port (nw s)) (trace s)")
    case (Inl e)
    from wait_for_connection_quiet(2) [OF this] obtain tr where "e = Exit 1 tr" "quiet_after (trace s) tr"
      by auto
    with net_inv_pin_level [OF s] have "exits s0 e" by (simp add: exits_def quiet_after_pin_level fun_eq_iff)
    with Inl show ?thesis by (simp add: accept_tcp_def)
  next
    case (Inr r)
    obtain fd tr where r: "r = (fd, tr)" by (cases r)
    with wait_for_connection_quiet(1) Inr have "quiet_after (trace s) tr" by blast
    with Inr r s show ?thesis by (auto simp: accept_tcp_def set_nw_def intro!: net_inv_quiet)
  qed
  then show ?thesis by (simp add: net_safe_def)
qed

lemma net_safe_connection:
  "net_safe s0 pend fail_connection" "net_safe s0 pend (open_connection E udp)"
  unfolding fail_connection_def open_connection_def
  by (intro net_safe_rules net_safe_statements net_safe_accept_tcp; simp)+

lemma poll_pf_inv:
  assumes "net_inv s0 pend s" and "poll_pf E s = (r, u)"
  shows "net_inv s0 pend u" and "heap u = heap s" and "nw u = (nw s)\<lparr>pf := pf (nw u)\<rparr>"
    and "trace u = trace s @ [Sys_poll (pf_fd (pf (nw s))) r (pf_revents (pf (nw u)))]"
    and "pf_fd (pf (nw s)) < 0 \<Longrightarrow> pf_revents (pf (nw u)) = 0"
proof -
  obtain ev tr where p: "sys_poll E (pf_fd (pf (nw s))) (trace s) = (r, ev, tr)"
    and u: "u = s\<lparr>nw := (nw s)\<lparr>pf := (pf (nw s))\<lparr>pf_revents := ev\<rparr>\<rparr>, trace := tr\<rparr>"
    using assms(2) by (auto simp: poll_pf_def set_nw_def split: prod.splits)
  show "net_inv s0 pend u"
    unfolding u using assms(1) quiet_calls(4) [OF p] by (intro net_inv_quiet) simp_all
  show "heap u = heap s" "nw u = (nw s)\<lparr>pf := pf (nw u)\<rparr>" by (simp_all add: u)
  show "trace u = trace s @ [Sys_poll (pf_fd (pf (nw s))) r (pf_revents (pf (nw u)))]"
    "pf_fd (pf (nw s)) < 0 \<Longrightarrow> pf_revents (pf (nw u)) = 0"
    using p by (auto simp: u sys_poll_def Let_def split: prod.splits)
qed

text \<open>Reading leaves the bytes read pending; a result of 0 or less goes with no byte.\<close>

lemma do_recv_inv:
  fixes s0 s :: "'a process_scheme"
  assumes s: "net_inv s0 [] s"
  shows "case do_recv E fd n s of Inl e \<Rightarrow> exits s0 e
    | Inr (result, bs, u) \<Rightarrow> net_inv s0 bs u \<and> length bs \<le> n \<and> (result \<le> 0 \<longleftrightarrow> bs = [])"
proof -
  obtain r s1 where p: "poll_pf E s = (r, s1)" by (meson surj_pair)
  note s1 = poll_pf_inv [OF s p]
  obtain result bs tr where rd: "sys_read E fd n (trace s1) = (result, bs, tr)" by (meson prod_cases3)
  note t = sys_read_trace [OF rd]
  define s2 where "s2 = s1\<lparr>trace := tr\<rparr>"
  have "undriven_after (trace s1) tr"
    using t by (simp add: undriven_after_snoc)
  moreover have "net_next s1 s2" unfolding s2_def by (rule net_next_update)
  ultimately have s2: "net_inv s0 bs s2"
    using s1(1) t by (auto simp: net_inv_def net_ok_def queues_ok_def s2_def intro: net_next_trans undriven_after_trans)
  define c :: "'a process_scheme \<Rightarrow> error + 'a process_scheme" where "c = (if result > 0 then exec [touch_last_recv E, assign (set_nw (has_acked_update (\<lambda>_. False)))]
      else if result = 0 then exec [stderr ''Read nothing from socket. Assuming it is dead.'', fail_connection]
      else exec [])"
  have "net_safe s0 bs c" unfolding c_def
    by (simp del: exec.simps, intro conjI impI; intro net_safe_rules net_safe_statements net_safe_connection; simp)
  with s2 have c: "case c s2 of Inl e \<Rightarrow> exits s0 e | Inr u \<Rightarrow> net_inv s0 bs u"
    by (simp add: net_safe_def)
  have "do_recv E fd n s = (if r \<ge> 0 then
      (if pf_revents (pf (nw s1)) AND POLLIN = 0 then Inr (-2, [], s1)
       else (case c s2 of Inl e \<Rightarrow> Inl e | Inr s \<Rightarrow> Inr (result, bs, s)))
     else Inl (Exit 1 (trace s1 @ [Stderr ''Poll failed''])))"
    by (simp only: do_recv_def p prod.case rd c_def [symmetric] s2_def [symmetric])
  moreover have "exits s0 (Exit 1 (trace s1 @ [Stderr ''Poll failed'']))"
    using net_inv_pin_level [OF s1(1)] by (simp add: exits_def fun_eq_iff)
  moreover have "result \<le> 0 \<longleftrightarrow> bs = []" "length bs \<le> n" using t by auto
  ultimately show ?thesis using s1(1) c by (auto split: sum.splits)
qed

abbreviation net_result :: "'a process_scheme \<Rightarrow> error + (bool \<times> 'a process_scheme) \<Rightarrow> bool" where
  "net_result s0 r \<equiv> (case r of Inl e \<Rightarrow> exits s0 e | Inr (ok, u) \<Rightarrow> net_inv s0 [] u)"

lemma push_command_inv:
  assumes "net_inv s0 [c] s"
  shows "net_inv s0 [] (s\<lparr>qw := enqueue (junk\<lparr>wqi_action := wq_process, wqi_data0 := c\<rparr>) (qw s)\<rparr>)"
proof -
  let ?x = "junk\<lparr>wqi_action := wq_process, wqi_data0 := c\<rparr>"
  from assms obtain xs where xs: "q (qw s) = q (qw s0) @ xs" "list_all (\<lambda>x. wqi_action x = wq_process) xs"
    "received (trace s) = received (trace s0) @ map wqi_data0 xs @ [c]"
    by (auto simp: net_inv_def)
  have "net_next s0 (s\<lparr>qw := enqueue ?x (qw s)\<rparr>)"
    using assms net_next_update(4) by (auto simp: net_inv_def intro: net_next_trans)
  with assms xs show ?thesis
    by (auto simp: net_inv_def net_ok_def queues_ok_def wqi_ok_def intro!: exI [of _ "xs @ [?x]"])
qed

lemma push_qn_inv:
  assumes "net_inv s0 pend s" and "nqi_ok (length (heap s)) y"
  shows "net_inv s0 pend (s\<lparr>qn := enqueue y (qn s)\<rparr>)"
proof -
  have "net_next s0 (s\<lparr>qn := enqueue y (qn s)\<rparr>)"
    using assms net_next_update(5) by (auto simp: net_inv_def intro: net_next_trans)
  with assms show ?thesis by (auto simp: net_inv_def net_ok_def queues_ok_def)
qed

lemma recv_command_inv:
  assumes "net_inv s0 [] s"
  shows "net_result s0 (recv_command E junk s)"
proof -
  have "net_inv s0 [] u" if "do_recv E (connfd_tcp (nw s)) 1 s = Inr (result, bs, u)" "result \<le> 0" for result bs u
    using do_recv_inv [OF assms, where E = E and fd = "connfd_tcp (nw s)" and n = 1] that by auto
  moreover have "net_inv s0 [hd bs] u" if "do_recv E (connfd_tcp (nw s)) 1 s = Inr (result, bs, u)" "\<not> result \<le> 0"
    for result bs u
    using do_recv_inv [OF assms, where E = E and fd = "connfd_tcp (nw s)" and n = 1] that by (cases bs) auto
  moreover have "exits s0 e" if "do_recv E (connfd_tcp (nw s)) 1 s = Inl e" for e
    using do_recv_inv [OF assms, where E = E and fd = "connfd_tcp (nw s)" and n = 1] that by simp
  ultimately show ?thesis
    by (auto simp: recv_command_def push_qw_def push_command_inv split: sum.splits)
qed

lemma base_process_nqi_inv:
  assumes s: "net_inv s0 [] s" and item: "nqi_action item = nq_none"
  shows "net_result s0 (base_process_nqi E udp item s)"
proof -
  have conn: "net_safe s0 [] (when_s (\<lambda>s. \<not> connected (nw s)) [open_connection E udp])"
    by (intro net_safe_rules net_safe_connection)
  show ?thesis
  proof (cases "when_s (\<lambda>s. \<not> connected (nw s)) [open_connection E udp] s")
    case (Inl e)
    with conn s have "exits s0 e" by (fastforce simp: net_safe_def)
    with Inl show ?thesis by (simp add: base_process_nqi_def)
  next
    case (Inr s1)
    with conn s have s1: "net_inv s0 [] s1" by (fastforce simp: net_safe_def)
    obtain u tr where u: "get_time E (base_time s1) (trace s1) = (u, tr)" by (meson surj_pair)
    have "net_inv s0 [] (s1\<lparr>trace := tr\<rparr>)" using s1 get_time_quiet [OF u] by (rule net_inv_trace)
    moreover have "timeout (nw s1) = 0" using s1 by (simp add: net_inv_def net_ok_def)
    ultimately show ?thesis
      using item push_qn_inv [of s0 "[]" "s1\<lparr>trace := tr\<rparr>" "item\<lparr>nqi_action := nq_recv\<rparr>"]
      by (simp add: base_process_nqi_def Inr u Let_def push_qn_def nqi_ok_def)
  qed
qed

lemma send_header_eq:
  "send_header E h n s =
     (case missing_return E of None \<Rightarrow> Inl Undefined
      | Some v \<Rightarrow> Inr (s\<lparr>trace := snd (sys_write E (conn_fd (nw s)) (header_bytes \<lparr>sh_code = unat h, sh_nbytes = n\<rparr>) (trace s))\<rparr>))"
  by (simp add: send_header_def Let_def split: prod.splits option.splits)

lemma send_item_inv:
  assumes s: "net_inv s0 [] s" and item: "nqi_ok (length (heap s)) item" "nqi_action item = nq_send"
    and ret: "missing_return E \<noteq> None"
  shows "\<exists>u. send_item E item s = Inr (True, u) \<and> net_inv s0 [] u"
proof -
  obtain r s1 where p: "poll_pf E s = (r, s1)" by (meson surj_pair)
  note s1 = poll_pf_inv [OF s p]
  obtain a where a: "nqi_buff item = Some a" "a < length (heap s)" using item by (auto simp: nqi_ok_def)
  have wf: "cb_wf (heap s ! a)"
    using s a(2) by (auto simp: net_inv_def net_ok_def heap_wf_nth)
  define fd where "fd = conn_fd (nw s1)"
  obtain k tr1 where w: "sys_write E fd (header_bytes \<lparr>sh_code = unat (nqi_data0 item), sh_nbytes = nqi_nbytes item\<rparr>) (trace s1)
      = (k, tr1)" by (meson surj_pair)
  obtain result tr2 where d: "write_data E (heap s ! a) fd (nqi_nbytes item) (total_bytes item) tr1 = Inr (result, tr2)"
    "quiet_after tr1 tr2"
    using write_data_returns [OF wf] by blast
  have q: "quiet_after (trace s1) tr2" using quiet_calls(1) [OF w] d(2) by (rule quiet_after_trans)
  have "send_item E item s = Inr (True, if r = 0 \<and> write_blocked s1 then s1
      else s1\<lparr>trace := (if result \<noteq> 0 then tr2 @ [Stderr ''Connection Closed''] else tr2)\<rparr>)"
    using ret a s1(2) d(1)
    by (auto simp: send_item_def p send_header_eq fd_def [symmetric] w Let_def deref_def)
  moreover have "net_inv s0 [] (s1\<lparr>trace := (if result \<noteq> 0 then tr2 @ [Stderr ''Connection Closed''] else tr2)\<rparr>)"
    using s1(1) q by (intro net_inv_trace) auto
  ultimately show ?thesis using s1(1) by auto
qed

text \<open>
  Where a call must not run off the end of its function, a send stops at its header, the only place of the thread
  that does so: no acknowledgement is ever asked for.
\<close>

lemma send_item_undefined:
  assumes "net_inv s0 [] s" and "missing_return E = None"
  shows "case send_item E item s of Inl e \<Rightarrow> e = Undefined | Inr (ok, u) \<Rightarrow> net_inv s0 [] u"
proof -
  obtain r s1 where p: "poll_pf E s = (r, s1)" by (meson surj_pair)
  with poll_pf_inv(1) [OF assms(1) p] assms(2) show ?thesis by (simp add: send_item_def send_header_eq)
qed

definition stops_badly :: "env \<Rightarrow> network_queue_item \<Rightarrow> error \<Rightarrow> bool" where
  "stops_badly E item e \<longleftrightarrow> e = Undefined \<and> missing_return E = None \<and> nqi_action item = nq_send"

lemma process_nqi_law:
  assumes "net_inv s0 [] s" and "nqi_ok (length (heap s)) item"
  shows "case process_nqi E udp junk item s of
      Inl e \<Rightarrow> exits s0 e \<or> stops_badly E item e | Inr (ok, u) \<Rightarrow> net_inv s0 [] u"
proof (cases "nqi_action item")
  case nq_none
  with base_process_nqi_inv [OF assms(1) nq_none, of E udp] show ?thesis
    by (auto simp: process_nqi_def split: sum.splits)
next
  case nq_send
  show ?thesis
  proof (cases "missing_return E")
    case None
    with send_item_undefined [OF assms(1) None, of item] nq_send show ?thesis
      by (auto simp: process_nqi_def stops_badly_def split: sum.splits)
  next
    case (Some v)
    with send_item_inv [OF assms nq_send, of E] nq_send show ?thesis by (auto simp: process_nqi_def)
  qed
next
  case nq_send_ack
  with assms(2) show ?thesis by (simp add: nqi_ok_def)
next
  case nq_recv
  with recv_command_inv [OF assms(1), of E junk] show ?thesis
    by (auto simp: process_nqi_def split: sum.splits)
qed

text \<open>One round of the thread, from a state of the invariant.\<close>

lemma network_step_law:
  assumes s: "net_inv s0 [] s"
  shows "case network_step E udp junk s of
      Inl e \<Rightarrow> exits s0 e \<or> stops_badly E (fst (poll (qn s))) e | Inr u \<Rightarrow> net_inv s0 [] u"
proof -
  obtain item qn' where p: "poll (qn s) = (item, qn')" by (meson surj_pair)
  have qs: "null_item (qn s) = null_nqi" "list_all (nqi_ok (length (heap s))) (q (qn s))"
    using s by (auto simp: net_inv_def net_ok_def queues_ok_def)
  have "nqi_ok (length (heap s)) item \<and> net_inv s0 [] (s\<lparr>qn := qn'\<rparr>)"
    using p
  proof (cases rule: poll_cases)
    case empty
    then show ?thesis using s qs by (simp add: nqi_ok_def null_nqi_def)
  next
    case (item vs)
    have "net_next s0 (s\<lparr>qn := (qn s)\<lparr>q := vs\<rparr>\<rparr>)"
      using s net_next_update(6) by (auto simp: net_inv_def intro: net_next_trans)
    then show ?thesis using s qs item by (auto simp: net_inv_def net_ok_def queues_ok_def)
  qed
  then have r: "case process_nqi E udp junk item (s\<lparr>qn := qn'\<rparr>) of
      Inl e \<Rightarrow> exits s0 e \<or> stops_badly E item e | Inr (ok, u) \<Rightarrow> net_inv s0 [] u"
    by (intro process_nqi_law) simp_all
  have err: "net_inv s0 [] u \<Longrightarrow> net_inv s0 [] (u\<lparr>trace := trace u @ [Stderr m]\<rparr>)" for u m
    by (intro net_inv_trace) auto
  show ?thesis
    using r err
    by (cases "process_nqi E udp junk item (s\<lparr>qn := qn'\<rparr>)")
      (auto simp: network_step_def network_round_def p stderr_def)
qed

text \<open>Where such a call yields a value, as unoptimised code does, the only way to stop is \<open>exit(1)\<close>.\<close>

lemma network_step_inv:
  assumes "net_inv s0 [] s" and "missing_return E \<noteq> None"
  shows "case network_step E udp junk s of Inl e \<Rightarrow> exits s0 e | Inr u \<Rightarrow> net_inv s0 [] u"
  using network_step_law [OF assms(1), of E udp junk] assms(2)
  by (auto simp: stops_badly_def split: sum.splits)

end
