(* ===== verification/Network.thy ===== *)
theory Network
  imports NetworkWorker
begin

text \<open>
  The properties of the network thread: it cannot crash, it delivers every byte it receives as
  one command, its frames carry the right bytes; and where it gets stuck.
\<close>

section \<open>Rounds\<close>

lemma net_inv_refl: "net_ok s \<Longrightarrow> net_inv s [] s"
  by (auto simp: net_inv_def net_next_refl)

lemma network_rounds_inv:
  assumes "missing_return E \<noteq> None" and "net_inv s0 [] s"
  shows "case network_rounds E udp junk n s of Inl e \<Rightarrow> exits s0 e | Inr u \<Rightarrow> net_inv s0 [] u"
  using assms(2)
proof (induction n arbitrary: s)
  case 0
  then show ?case by simp
next
  case (Suc n)
  from network_step_inv [OF Suc.prems assms(1), of udp "junk n"] Suc.IH show ?case
    by (cases "network_step E udp (junk n) s") simp_all
qed

lemma network_rounds_junk:
  "i \<le> m \<Longrightarrow> network_rounds E udp (f(m := x)) i v = network_rounds E udp f i v"
  by (induction i arbitrary: v) (auto split: sum.splits)

text \<open>
  The first of \<open>n\<close> rounds that goes wrong. \<open>junk\<close> counts the rounds down, so a shorter run is given the end of it.
\<close>

lemma network_rounds_law:
  assumes "net_inv s0 [] s"
  shows "case network_rounds E udp junk n s of
      Inl e \<Rightarrow> exits s0 e \<or> (\<exists>k < n. \<exists>junk' t. network_rounds E udp junk' k s = Inr t
          \<and> stops_badly E (fst (poll (qn t))) e)
    | Inr u \<Rightarrow> net_inv s0 [] u"
  using assms
proof (induction n arbitrary: s)
  case 0
  then show ?case by simp
next
  case (Suc n)
  show ?case
  proof (cases "network_step E udp (junk n) s")
    case (Inl e)
    with network_step_law [OF Suc.prems, of E udp "junk n"] have
      "exits s0 e \<or> network_rounds E udp junk 0 s = Inr s \<and> stops_badly E (fst (poll (qn s))) e" by simp
    then show ?thesis using Inl by auto
  next
    case (Inr u)
    then have u: "net_inv s0 [] u" using network_step_law [OF Suc.prems, of E udp "junk n"] by simp
    have later: "network_rounds E udp (junk'(k := junk n)) (Suc k) s = network_rounds E udp junk' k u" for junk' k
      using Inr by (simp add: network_rounds_junk)
    have "\<exists>k < Suc n. \<exists>junk' t. network_rounds E udp junk' k s = Inr t \<and> stops_badly E (fst (poll (qn t))) e"
      if "k < n" "network_rounds E udp junk' k u = Inr t" "stops_badly E (fst (poll (qn t))) e" for e k junk' t
      using that later [of junk' k] by (intro exI [of _ "Suc k"]) (auto simp del: network_rounds.simps)
    then show ?thesis using Suc.IH [OF u] Inr by (auto split: sum.splits)
  qed
qed

text \<open>
  C13. How the network thread can end. From any state of its invariant, whatever the outside does and after any number
  of rounds, it has kept its invariant and driven no pin; or it has called \<open>exit(1)\<close>, with the pins untouched; or it has
  met undefined behaviour, in one place only: the missing return value of \<open>send_header\<close>, at the first send that it takes
  out of its queue, and only where the compiler does not let such a call return (\<open>missing_return\<close> is \<open>None\<close>);
  \<open>nq_send_ack\<close>, where \<open>process_nqi\<close> runs off its end too, is queued on a timeout only, and none is set. At each write
  that failed on the way, \<open>SIGPIPE\<close> may have killed the process instead: the pins are then as they were before the rounds. (The first value of \<open>connected\<close>, which nothing sets, is
  taken as an arbitrary \<open>bool\<close>.)
\<close>

theorem network_thread_safe:
  assumes "net_ok s"
  shows "case network_worker_method E udp junk n s of
      Inr s' \<Rightarrow> net_ok s' \<and> pin_level (trace s') = pin_level (trace s)
        \<and> (\<forall>d \<in> set (sigpipe_points (trace s) (trace s')). pin_level d = pin_level (trace s))
    | Inl (Exit status tr) \<Rightarrow> status = 1 \<and> pin_level tr = pin_level (trace s)
    | Inl Undefined \<Rightarrow> missing_return E = None \<and> (\<exists>k < n. \<exists>junk' t.
        network_worker_method E udp junk' k s = Inr t \<and> nqi_action (fst (poll (qn t))) = nq_send)
    | Inl _ \<Rightarrow> False"
proof -
  let ?s = "set_nw (\<lambda>n. n\<lparr>pf := (pf n)\<lparr>pf_events := POLLIN OR POLLOUT\<rparr>\<rparr>) s"
  have "net_ok ?s" using assms by (simp add: net_ok_def queues_ok_def set_nw_def)
  then have inv: "net_inv ?s [] ?s" by (rule net_inv_refl)
  have tr: "trace ?s = trace s" by (simp add: set_nw_def)
  show ?thesis
  proof (cases "network_rounds E udp junk n ?s")
    case (Inl e)
    with network_rounds_law [OF inv, where E = E and udp = udp and junk = junk and n = n]
    consider "exits ?s e" | k junk' t where "k < n" "network_rounds E udp junk' k ?s = Inr t"
        "stops_badly E (fst (poll (qn t))) e" by auto
    then show ?thesis
    proof cases
      case 1
      then show ?thesis using Inl by (auto simp: network_worker_method_def exits_def tr)
    next
      case (2 k junk' t)
      then show ?thesis using Inl unfolding network_worker_method_def stops_badly_def by force
    qed
  next
    case (Inr u)
    with network_rounds_law [OF inv, where E = E and udp = udp and junk = junk and n = n] have u: "net_inv ?s [] u" by simp
    then have "net_ok u" "undriven_after (trace s) (trace u)" by (simp_all add: net_inv_def tr)
    then show ?thesis using Inr sigpipe_undriven
      by (simp add: network_worker_method_def undriven_pin_level fun_eq_iff)
  qed
qed

lemma sample_process_ok: "net_ok sample_process"
  by (simp add: net_ok_def queues_ok_def sample_process_def sample_network_def heap_wf_def sample_ring_def
      cb_wf_def list_all_iff)

text \<open>With a send in the queue and a compiler that does not let the call return, the first round is undefined.\<close>

definition sample_send :: process where
  "sample_send = sample_process\<lparr>qn := enqueue (null_nqi\<lparr>nqi_action := nq_send, nqi_buff := Some 3, nqi_data0 := 12\<rparr>)
     (safe_queue_new null_nqi)\<rparr>"

lemma sample_send_ok: "net_ok sample_send"
  using sample_process_ok
  by (auto simp: sample_send_def net_ok_def queues_ok_def nqi_ok_def sample_process_def intro!: exI [of _ lc3])

theorem network_thread_safe_witness:
  "(case network_worker_method sample_env False (\<lambda>i. null_wqi) 7 sample_process of
      Inr s' \<Rightarrow> net_ok s' | Inl (Exit status tr) \<Rightarrow> status = 1 | _ \<Rightarrow> False)
   \<and> network_worker_method (sample_env\<lparr>missing_return := None\<rparr>) False (\<lambda>i. null_wqi) 1 sample_send = Inl Undefined"
proof
  show "case network_worker_method sample_env False (\<lambda>i. null_wqi) 7 sample_process of
      Inr s' \<Rightarrow> net_ok s' | Inl (Exit status tr) \<Rightarrow> status = 1 | _ \<Rightarrow> False"
    using network_thread_safe [OF sample_process_ok, where E = sample_env and udp = False and junk = "\<lambda>i. null_wqi" and n = 7]
    by (auto simp: sample_env_def split: sum.splits error.splits)
  show "network_worker_method (sample_env\<lparr>missing_return := None\<rparr>) False (\<lambda>i. null_wqi) 1 sample_send = Inl Undefined"
    by (simp add: network_worker_method_def network_step_def network_round_def poll_def sample_send_def enqueue_def
        safe_queue_new_def set_nw_def process_nqi_def send_item_def poll_pf_def sys_poll_def send_header_eq
        sample_env_def null_nqi_def write_blocked_def Let_def)
qed

text \<open>
  No command is lost, repeated or reordered on its way in: the items the network thread adds
  to the work queue are \<open>wq_process\<close> items, one for each byte it has received, in order.
\<close>

theorem commands_delivered_in_order:
  assumes "net_ok s" and "missing_return E \<noteq> None" and "network_rounds E udp junk n s = Inr s'"
  shows "\<exists>xs. q (qw s') = q (qw s) @ xs \<and> list_all (\<lambda>x. wqi_action x = wq_process) xs
    \<and> received (trace s') = received (trace s) @ map wqi_data0 xs"
  using network_rounds_inv [OF assms(2) net_inv_refl [OF assms(1)], of udp junk n] assms(3)
  by (auto simp: net_inv_def)

text \<open>The sample process with the first item of the program, and what a round makes of it.\<close>

definition sample_recv :: process where
  "sample_recv = sample_process\<lparr>qn := enqueue (null_nqi\<lparr>nqi_action := nq_recv\<rparr>) (safe_queue_new null_nqi)\<rparr>"

lemma sample_recv_ok: "net_ok sample_recv"
  using sample_process_ok by (simp add: sample_recv_def net_ok_def queues_ok_def nqi_ok_def)

lemma sample_recv_round:
  "\<exists>s'. network_rounds sample_env False (\<lambda>i. null_wqi) 1 sample_recv = Inr s'
     \<and> q (qw s') = [null_wqi\<lparr>wqi_action := wq_process, wqi_data0 := 5\<rparr>]"
  by (simp add: network_step_def network_round_def poll_def sample_recv_def sample_process_def sample_network_def null_nqi_def
      process_nqi_def recv_command_def do_recv_def poll_pf_def sys_poll_def sample_env_def set_nw_def POLLIN_def
      sys_read_def touch_last_recv_def get_time_def gettimeofday_def assign_def push_qw_def safe_queue_new_def
      enqueue_def Let_def)

theorem commands_delivered_in_order_witness:
  "\<exists>s'. network_rounds sample_env False (\<lambda>i. null_wqi) 1 sample_recv = Inr s'
     \<and> received (trace s') = map wqi_data0 (q (qw s')) \<and> received (trace s') = [5]"
proof -
  obtain s' where s': "network_rounds sample_env False (\<lambda>i. null_wqi) 1 sample_recv = Inr s'"
    "q (qw s') = [null_wqi\<lparr>wqi_action := wq_process, wqi_data0 := 5\<rparr>]"
    using sample_recv_round by blast
  have "missing_return sample_env \<noteq> None" by (simp add: sample_env_def)
  from commands_delivered_in_order [OF sample_recv_ok this s'(1)] s' show ?thesis
    by (auto simp: sample_recv_def sample_process_def received_def)
qed

section \<open>Frames\<close>

text \<open>The test for a blocked socket can never be true.\<close>

lemma write_blocked_never: "\<not> write_blocked s"
  by (simp add: write_blocked_def POLLOUT_def)

lemma send_item_eq:
  assumes "poll_pf E s = (r, s1)" and "missing_return E \<noteq> None"
    and "nqi_buff item = Some a" and "a < length (heap s1)"
    and "sys_write E (conn_fd (nw s1)) (header_bytes \<lparr>sh_code = unat (nqi_data0 item), sh_nbytes = nqi_nbytes item\<rparr>) (trace s1)
      = (k, tr1)"
    and "write_data E (heap s1 ! a) (conn_fd (nw s1)) (nqi_nbytes item) (total_bytes item) tr1 = Inr (result, tr2)"
  shows "send_item E item s = Inr (True, s1\<lparr>trace := (if result \<noteq> 0 then tr2 @ [Stderr ''Connection Closed''] else tr2)\<rparr>)"
  using assms by (auto simp: send_item_def send_header_eq write_blocked_never deref_def)

lemma length_header_bytes [simp]: "length (header_bytes sh) = 8"
  by (simp add: header_bytes_def)

text \<open>A send item: what it writes, and what else it changes.\<close>

lemma send_item_writes:
  assumes "net_ok s" and ret: "missing_return E \<noteq> None"
    and a: "nqi_buff item = Some a" "a < length (heap s)"
    and st: "holds (heap s ! a) st" "length st < 4294967296"
    and range: "unat (total_bytes item) + unat (nqi_nbytes item) \<le> length st"
      "length st \<le> unat (total_bytes item) + unat (nbytes (heap s ! a))"
  shows "\<exists>s' j k. send_item E item s = Inr (True, s') \<and> k \<le> unat (nqi_nbytes item)
    \<and> fd_bytes (trace s') (conn_fd (nw s)) = fd_bytes (trace s) (conn_fd (nw s))
        @ take j (header_bytes \<lparr>sh_code = unat (nqi_data0 item), sh_nbytes = nqi_nbytes item\<rparr>)
        @ slice (unat (total_bytes item)) k st
    \<and> (takes_all E (conn_fd (nw s)) \<longrightarrow> j = 8 \<and> k = unat (nqi_nbytes item))
    \<and> (\<exists>x tr. s' = s\<lparr>nw := (nw s)\<lparr>pf := x\<rparr>, trace := tr\<rparr>)"
proof -
  let ?fd = "conn_fd (nw s)" and ?hd = "header_bytes \<lparr>sh_code = unat (nqi_data0 item), sh_nbytes = nqi_nbytes item\<rparr>"
  obtain r s1 where p: "poll_pf E s = (r, s1)" by (meson surj_pair)
  note s1 = poll_pf_inv [OF net_inv_refl [OF assms(1)] p]
  have fd: "conn_fd (nw s1) = ?fd" by (subst s1(3)) (simp add: conn_fd_def)
  have tr1: "fd_bytes (trace s1) ?fd = fd_bytes (trace s) ?fd" by (simp add: s1(4))
  obtain j tr2 where w: "sys_write E ?fd ?hd (trace s1) = (j, tr2)" by (meson surj_pair)
  have "cb_wf (heap s ! a)" "unat (total_bytes item) + unat (nqi_nbytes item) < 4294967296"
    using st range by (auto simp: holds_def)
  from write_data_ring [OF this, of E ?fd tr2] obtain k result tr3 where
    d: "write_data E (heap s ! a) ?fd (nqi_nbytes item) (total_bytes item) tr2 = Inr (result, tr3)"
    "emit_result E (unat (nqi_nbytes item)) k result"
    "fd_bytes tr3 ?fd = fd_bytes tr2 ?fd @ ring_bytes (heap s ! a) (unat (total_bytes item)) k"
    "takes_all E ?fd \<longrightarrow> k = unat (nqi_nbytes item)" by blast
  have k: "k \<le> unat (nqi_nbytes item)" using d(2) by (auto simp: emit_result_def)
  then have "ring_bytes (heap s ! a) (unat (total_bytes item)) k = slice (unat (total_bytes item)) k st"
    using range by (intro holds_ring_bytes [OF st(1)]) simp_all
  then have out: "fd_bytes tr3 ?fd = fd_bytes (trace s) ?fd @ take (nat j) ?hd @ slice (unat (total_bytes item)) k st"
    using sys_write_bytes [OF w] d(3) tr1 by simp
  have full: "takes_all E ?fd \<longrightarrow> nat j = 8" using sys_write_takes_all [OF _ w] by auto
  define s' where "s' = s1\<lparr>trace := (if result \<noteq> 0 then tr3 @ [Stderr ''Connection Closed''] else tr3)\<rparr>"
  have "send_item E item s = Inr (True, s')"
    unfolding s'_def by (rule send_item_eq [OF p ret a(1)]) (use a(2) s1(2) w d(1) fd in simp_all)
  moreover have "fd_bytes (trace s') ?fd = fd_bytes tr3 ?fd" by (simp add: s'_def)
  moreover obtain x tr0 where "s1 = s\<lparr>nw := (nw s)\<lparr>pf := x\<rparr>, trace := tr0\<rparr>"
    using p by (auto simp: poll_pf_def set_nw_def split: prod.splits)
  then have "s' = s\<lparr>nw := (nw s)\<lparr>pf := x\<rparr>, trace := trace s'\<rparr>" by (simp add: s'_def)
  then have "\<exists>x tr. s' = s\<lparr>nw := (nw s)\<lparr>pf := x\<rparr>, trace := tr\<rparr>" by blast
  ultimately show ?thesis
    using out k d(4) full by (intro exI [of _ s'] exI [of _ "nat j"] exI [of _ k]) simp
qed

text \<open>
  C14. A send item goes out as a frame: a prefix of the header that announces its code and its
  number of bytes, then a prefix of exactly the announced range of the sensor's stream; and when
  the socket takes every byte, both are complete, so that a client decodes the code, the length
  and then the data.
\<close>

theorem send_item_frame:
  assumes "net_ok s" and ret: "missing_return E \<noteq> None"
    and a: "nqi_buff item = Some a" "a < length (heap s)"
    and st: "holds (heap s ! a) st" "length st < 4294967296"
    and range: "unat (total_bytes item) + unat (nqi_nbytes item) \<le> length st"
      "length st \<le> unat (total_bytes item) + unat (nbytes (heap s ! a))"
  shows "\<exists>s' j k. send_item E item s = Inr (True, s') \<and> k \<le> unat (nqi_nbytes item)
    \<and> fd_bytes (trace s') (conn_fd (nw s)) = fd_bytes (trace s) (conn_fd (nw s))
        @ take j (header_bytes \<lparr>sh_code = unat (nqi_data0 item), sh_nbytes = nqi_nbytes item\<rparr>)
        @ slice (unat (total_bytes item)) k st
    \<and> (takes_all E (conn_fd (nw s)) \<longrightarrow> j = 8 \<and> k = unat (nqi_nbytes item))"
  using send_item_writes [OF assms] by blast

theorem send_item_frame_witness:
  "\<exists>s' j k. send_item sample_env (null_nqi\<lparr>nqi_action := nq_send, nqi_buff := Some 3, nqi_nbytes := 4, nqi_data0 := 12\<rparr>)
       (sample_process\<lparr>heap := replicate 10 (sample_ring\<lparr>bytes_written := 4\<rparr>)\<rparr>) = Inr (True, s')
     \<and> fd_bytes (trace s') 5 = take j (header_bytes \<lparr>sh_code = 12, sh_nbytes = 4\<rparr>) @ slice 0 k [0, 0, 0, 0]"
proof -
  let ?s = "sample_process\<lparr>heap := replicate 10 (sample_ring\<lparr>bytes_written := 4\<rparr>)\<rparr>"
  let ?item = "null_nqi\<lparr>nqi_action := nq_send, nqi_buff := Some 3, nqi_nbytes := 4, nqi_data0 := 12\<rparr>"
  have ok: "net_ok ?s"
    using sample_process_ok
    by (simp add: net_ok_def queues_ok_def heap_wf_def sample_process_def sample_ring_def cb_wf_def list_all_iff)
  have h: "holds (heap ?s ! 3) [0, 0, 0, 0]"
    by (simp add: sample_ring_def holds_def cb_wf_def all_less_upt upt_rec)
  have fd: "conn_fd (nw ?s) = 5"
    by (simp add: sample_process_def sample_network_def conn_fd_def)
  have "missing_return sample_env \<noteq> None" by (simp add: sample_env_def)
  from send_item_frame [OF ok this _ _ h, of ?item] show ?thesis
    unfolding fd by (auto simp: null_nqi_def sample_ring_def sample_process_def)
qed

section \<open>Where the thread gets stuck\<close>

text \<open>
  The check for a blocked socket is dead code: even when \<open>poll\<close> reports that nothing is
  ready, a send item's header is written, whatever \<open>pf.revents\<close> says.
\<close>

theorem blocked_socket_is_written:
  assumes "net_ok s" and "missing_return E \<noteq> None" and "nqi_ok (length (heap s)) item" "nqi_action item = nq_send"
    and "poll_pf E s = (0, s1)" and "pf_revents (pf (nw s1)) = 0"
  shows "\<exists>s' k us. send_item E item s = Inr (True, s')
    \<and> trace s' = trace s @ [Sys_poll (pf_fd (pf (nw s))) 0 0,
        Sys_write (conn_fd (nw s)) (take (nat k) (header_bytes \<lparr>sh_code = unat (nqi_data0 item), sh_nbytes = nqi_nbytes item\<rparr>)) k] @ us"
proof -
  let ?hd = "header_bytes \<lparr>sh_code = unat (nqi_data0 item), sh_nbytes = nqi_nbytes item\<rparr>"
  note s1 = poll_pf_inv [OF net_inv_refl [OF assms(1)] assms(5)]
  have fd: "conn_fd (nw s1) = conn_fd (nw s)" by (subst s1(3)) (simp add: conn_fd_def)
  obtain a where a: "nqi_buff item = Some a" "a < length (heap s)" using assms(3,4) by (auto simp: nqi_ok_def)
  obtain k tr2 where w: "sys_write E (conn_fd (nw s)) ?hd (trace s1) = (k, tr2)" by (meson surj_pair)
  then have tr2: "tr2 = trace s1 @ [Sys_write (conn_fd (nw s)) (take (nat k) ?hd) k]"
    by (auto simp: sys_write_def Let_def min_def split: option.splits if_splits)
  have "cb_wf (heap s ! a)" using assms(1) a(2) by (simp add: net_ok_def heap_wf_nth)
  from write_data_returns [OF this] obtain r tr3 where
    d: "write_data E (heap s ! a) (conn_fd (nw s)) (nqi_nbytes item) (total_bytes item) tr2 = Inr (r, tr3)"
    "quiet_after tr2 tr3" by blast
  obtain us where us: "tr3 = tr2 @ us" using d(2) by (auto simp: quiet_after_def)
  define s' where "s' = s1\<lparr>trace := (if r \<noteq> 0 then tr3 @ [Stderr ''Connection Closed''] else tr3)\<rparr>"
  have "send_item E item s = Inr (True, s')"
    unfolding s'_def by (rule send_item_eq [OF assms(5,2) a(1)]) (use a(2) s1(2) w d(1) fd in simp_all)
  moreover have "trace s' = trace s @ [Sys_poll (pf_fd (pf (nw s))) 0 0, Sys_write (conn_fd (nw s)) (take (nat k) ?hd) k]
      @ us @ (if r \<noteq> 0 then [Stderr ''Connection Closed''] else [])"
    using s1(4) assms(6) by (simp add: s'_def us tr2)
  ultimately show ?thesis by blast
qed

theorem blocked_socket_is_written_witness:
  "\<exists>s' k us. send_item (sample_env\<lparr>env_poll := \<lambda>tr fd. (0, 0)\<rparr>)
       (null_nqi\<lparr>nqi_action := nq_send, nqi_buff := Some 3, nqi_nbytes := 4, nqi_data0 := 12\<rparr>) sample_process = Inr (True, s')
     \<and> trace s' = [Sys_poll 5 0 0, Sys_write 5 (take (nat k) (header_bytes \<lparr>sh_code = 12, sh_nbytes = 4\<rparr>)) k] @ us"
proof -
  let ?E = "sample_env\<lparr>env_poll := \<lambda>tr fd. (0, 0)\<rparr>"
  let ?item = "null_nqi\<lparr>nqi_action := nq_send, nqi_buff := Some 3, nqi_nbytes := 4, nqi_data0 := 12\<rparr>"
  obtain s1 where p: "poll_pf ?E sample_process = (0, s1)" "pf_revents (pf (nw s1)) = 0"
    by (simp add: poll_pf_def sys_poll_def set_nw_def)
  have item: "nqi_ok (length (heap sample_process)) ?item" "nqi_action ?item = nq_send"
    by (auto simp: nqi_ok_def sample_process_def intro!: exI [of _ lc3])
  have "missing_return ?E \<noteq> None" by (simp add: sample_env_def)
  from blocked_socket_is_written [OF sample_process_ok this item p] show ?thesis
    by (simp add: sample_process_def sample_network_def conn_fd_def null_nqi_def)
qed

text \<open>The state after \<open>accept\<close> has failed: marked connected, with no descriptor.\<close>

definition dead_connection :: "network_worker \<Rightarrow> bool" where
  "dead_connection n \<longleftrightarrow> connected n \<and> connfd_tcp n = -1 \<and> pf_fd (pf n) = -1"

text \<open>
  What matters is that the connection is marked open without a descriptor. What \<open>poll\<close> watches is then -1, which it
  ignores, or, where it was never set, anything; but reading from descriptor -1 fails, as documented.
\<close>

definition unreadable :: "env \<Rightarrow> bool" where
  "unreadable E \<longleftrightarrow> (\<forall>tr n. env_read E tr (-1) n = None)"

definition cut_off :: "env \<Rightarrow> network_worker \<Rightarrow> bool" where
  "cut_off E n \<longleftrightarrow> connected n \<and> connfd_tcp n = -1 \<and> (pf_fd (pf n) = -1 \<or> unreadable E)"

lemma poll_pf_fields:
  assumes "poll_pf E s = (r, u)"
  shows "qw u = qw s" and "qn u = qn s" and "received (trace u) = received (trace s)"
    and "cut_off E (nw u) = cut_off E (nw s)" and "pf_fd (pf (nw u)) = pf_fd (pf (nw s))"
  using assms
  by (auto simp: poll_pf_def set_nw_def sys_poll_def cut_off_def Let_def split: prod.splits)

definition still_dead :: "env \<Rightarrow> 'a process_scheme \<Rightarrow> 'a process_scheme \<Rightarrow> bool" where
  "still_dead E s u \<longleftrightarrow> net_ok u \<and> cut_off E (nw u) \<and> pf_fd (pf (nw u)) = pf_fd (pf (nw s)) \<and> q (qw u) = q (qw s) \<and> received (trace u) = received (trace s)"

lemma get_time_received: "get_time E base tr = (u, tr') \<Longrightarrow> received tr' = received tr"
  using quiet_after_received [OF get_time_quiet] by blast

lemma dead_recv:
  assumes "cut_off E (nw s)" and "recv_command E junk s = Inr (b, u)"
  shows "cut_off E (nw u) \<and> pf_fd (pf (nw u)) = pf_fd (pf (nw s)) \<and> q (qw u) = q (qw s) \<and> received (trace u) = received (trace s)"
proof -
  obtain r s1 where p: "poll_pf E s = (r, s1)" by (meson surj_pair)
  have "pf_revents (pf (nw s1)) = 0 \<or> unreadable E" "connfd_tcp (nw s) = -1"
    using assms(1) p by (auto simp: poll_pf_def sys_poll_def set_nw_def cut_off_def Let_def split: prod.splits)
  then have "nw u = nw s1 \<and> qw u = qw s1 \<and> received (trace u) = received (trace s1)"
    using assms(2) p by (auto simp: recv_command_def do_recv_def sys_read_def unreadable_def split: if_splits)
  with poll_pf_fields [OF p] assms(1) show ?thesis by simp
qed

lemma dead_send:
  assumes ok: "net_ok s" and ret: "missing_return E \<noteq> None"
    and item: "nqi_ok (length (heap s)) item" "nqi_action item = nq_send"
    and dead: "cut_off E (nw s)" and out: "send_item E item s = Inr (b, u)"
  shows "cut_off E (nw u) \<and> pf_fd (pf (nw u)) = pf_fd (pf (nw s)) \<and> q (qw u) = q (qw s) \<and> received (trace u) = received (trace s)"
proof -
  obtain r s1 where p: "poll_pf E s = (r, s1)" by (meson surj_pair)
  note s1 = poll_pf_inv [OF net_inv_refl [OF ok] p]
  obtain a where a: "nqi_buff item = Some a" "a < length (heap s)" using item by (auto simp: nqi_ok_def)
  obtain k tr2 where w: "sys_write E (conn_fd (nw s1)) (header_bytes \<lparr>sh_code = unat (nqi_data0 item), sh_nbytes = nqi_nbytes item\<rparr>)
      (trace s1) = (k, tr2)" by (meson surj_pair)
  have "cb_wf (heap s ! a)" using ok a(2) by (simp add: net_ok_def heap_wf_nth)
  from write_data_returns [OF this] obtain r' tr3 where
    d: "write_data E (heap s ! a) (conn_fd (nw s1)) (nqi_nbytes item) (total_bytes item) tr2 = Inr (r', tr3)"
    "quiet_after tr2 tr3" by blast
  have "received tr3 = received (trace s1)"
    using quiet_after_received quiet_after_trans [OF quiet_calls(1) [OF w] d(2)] by blast
  moreover have "u = s1\<lparr>trace := (if r' \<noteq> 0 then tr3 @ [Stderr ''Connection Closed''] else tr3)\<rparr>"
    using out send_item_eq [OF p ret a(1), of k tr2 r' tr3] a(2) s1(2) w d(1) by simp
  ultimately show ?thesis using poll_pf_fields [OF p] dead by simp
qed

lemma dead_base:
  assumes "timeout (nw s) = 0" and "cut_off E (nw s)" and "nqi_action item = nq_none"
    and "base_process_nqi E udp item s = Inr (b, u)"
  shows "cut_off E (nw u) \<and> pf_fd (pf (nw u)) = pf_fd (pf (nw s)) \<and> q (qw u) = q (qw s) \<and> received (trace u) = received (trace s)"
  using assms
  by (auto simp: base_process_nqi_def when_s_def cut_off_def push_qn_def Let_def
      split: prod.splits dest!: get_time_received)

lemma next_item_ok:
  assumes "net_ok s" and "poll (qn s) = (item, qn')"
  shows "net_ok (s\<lparr>qn := qn'\<rparr>) \<and> nqi_ok (length (heap s)) item"
  using assms(2,1)
  by (cases rule: poll_cases) (auto simp: net_ok_def queues_ok_def nqi_ok_def null_nqi_def)

lemma dead_step:
  assumes ok: "net_ok s" and ret: "missing_return E \<noteq> None" and dead: "cut_off E (nw s)"
    and out: "network_step E udp junk s = Inr u"
  shows "still_dead E s u"
proof -
  obtain item qn' where p: "poll (qn s) = (item, qn')" by (meson surj_pair)
  define t where "t = s\<lparr>qn := qn'\<rparr>"
  have t: "net_ok t" "nqi_ok (length (heap t)) item" "cut_off E (nw t)" "timeout (nw t) = 0"
    using next_item_ok [OF ok p] dead ok by (simp_all add: t_def net_ok_def)
  obtain b u1 where r: "process_nqi E udp junk item t = Inr (b, u1)"
    using out by (auto simp: network_step_def network_round_def p t_def [symmetric] split: sum.splits)
  have "cut_off E (nw u1) \<and> pf_fd (pf (nw u1)) = pf_fd (pf (nw t)) \<and> q (qw u1) = q (qw t) \<and> received (trace u1) = received (trace t)"
  proof (cases "nqi_action item")
    case nq_none
    with r dead_base [OF t(4,3), of item udp b u1] show ?thesis by (simp add: process_nqi_def)
  next
    case nq_send
    with r dead_send [OF t(1) ret t(2) _ t(3), of b u1] show ?thesis by (simp add: process_nqi_def)
  next
    case nq_recv
    with r dead_recv [OF t(3), of junk b u1] show ?thesis by (simp add: process_nqi_def)
  next
    case nq_send_ack
    with t(2) show ?thesis by (simp add: nqi_ok_def)
  qed
  moreover have "nw u = nw u1 \<and> qw u = qw u1 \<and> received (trace u) = received (trace u1)"
    using out r by (auto simp: network_step_def network_round_def p t_def [symmetric] stderr_def split: if_splits)
  moreover have "net_ok u" using network_step_inv [OF net_inv_refl [OF ok] ret, of udp junk] out
    by (simp add: net_inv_def)
  ultimately show ?thesis by (simp add: still_dead_def t_def)
qed

lemma dead_rounds:
  assumes "still_dead E s0 s" and "missing_return E \<noteq> None" and "network_rounds E udp junk n s = Inr u"
  shows "still_dead E s0 u"
  using assms(1,3)
proof (induction n arbitrary: s)
  case 0
  then show ?case by simp
next
  case (Suc n)
  then obtain s1 where s1: "network_step E udp (junk n) s = Inr s1" "network_rounds E udp junk n s1 = Inr u"
    by (auto split: sum.splits)
  have "still_dead E s s1"
    using dead_step [OF _ assms(2) _ s1(1)] Suc.prems(1) by (simp add: still_dead_def)
  then have "still_dead E s0 s1" using Suc.prems(1) by (simp add: still_dead_def)
  with Suc.IH s1(2) show ?case by blast
qed

lemma open_connection_dead:
  assumes "wait_for_connection E (port (nw s)) (trace s) = Inr (-1, tr)" and "open_connection E udp s = Inr u"
  shows "dead_connection (nw u) \<and> qw u = qw s \<and> received (trace u) = received (trace s) \<and> timeout (nw u) = timeout (nw s)"
proof -
  have "received tr = received (trace s)"
    using quiet_after_received [OF wait_for_connection_quiet(1) [OF assms(1)]] .
  then show ?thesis
    using assms
    by (auto simp: open_connection_def accept_tcp_def when_s_def stderr_def open_udp_def assign_def set_nw_def
        touch_last_recv_def dead_connection_def sys_sock_def Let_def split: prod.splits if_splits
        dest!: get_time_received)
qed

text \<open>
  C38. A failing \<open>accept\<close> cuts the thread off for good: the connection is marked as open with
  descriptor -1, and from then on, after any number of rounds, no byte is ever received, no
  command queued and no new client waited for.
\<close>

theorem failed_accept_is_final:
  assumes "net_ok s" and "missing_return E \<noteq> None" and "\<not> connected (nw s)" and "q (qn s) = []"
    and "wait_for_connection E (port (nw s)) (trace s) = Inr (-1, tr)"
    and "network_rounds E udp junk (Suc n) s = Inr s'"
  shows "dead_connection (nw s') \<and> q (qw s') = q (qw s) \<and> received (trace s') = received (trace s)"
proof -
  obtain s1 where s1: "network_step E udp (junk n) s = Inr s1" "network_rounds E udp junk n s1 = Inr s'"
    using assms(6) by (auto split: sum.splits)
  have "poll (qn s) = (null_nqi, qn s)"
    using assms(1,4) by (simp add: poll_def net_ok_def queues_ok_def)
  moreover have "s\<lparr>qn := qn s\<rparr> = s" by simp
  ultimately obtain b u where u: "base_process_nqi E udp null_nqi s = Inr (b, u)"
    and s1u: "nw s1 = nw u \<and> qw s1 = qw u \<and> received (trace s1) = received (trace u)"
    using s1(1) by (auto simp: network_step_def network_round_def process_nqi_def null_nqi_def stderr_def split: sum.splits if_splits)
  obtain v where v: "open_connection E udp s = Inr v"
    using u assms(3) by (auto simp: base_process_nqi_def when_s_def split: sum.splits)
  note dv = open_connection_dead [OF assms(5) v]
  have "base_process_nqi E udp null_nqi s = base_process_nqi E udp null_nqi v"
    using v assms(3) dv by (simp add: base_process_nqi_def when_s_def dead_connection_def)
  moreover have "cut_off E (nw v)" using dv by (simp add: cut_off_def dead_connection_def)
  ultimately have "cut_off E (nw u) \<and> pf_fd (pf (nw u)) = -1 \<and> q (qw u) = q (qw s) \<and> received (trace u) = received (trace s)"
    using u dead_base [of v E null_nqi udp b u] dv assms(1) by (simp add: net_ok_def null_nqi_def dead_connection_def)
  moreover have "net_ok s1"
    using network_step_inv [OF net_inv_refl [OF assms(1)] assms(2), of udp "junk n"] s1(1)
    by (simp add: net_inv_def)
  ultimately have s1d: "still_dead E s1 s1" "pf_fd (pf (nw s1)) = -1" "q (qw s1) = q (qw s)"
    "received (trace s1) = received (trace s)" using s1u by (simp_all add: still_dead_def)
  from dead_rounds [OF s1d(1) assms(2) s1(2)] s1d(2-4) show ?thesis
    by (simp add: still_dead_def cut_off_def dead_connection_def)
qed

theorem failed_accept_is_final_witness:
  "\<exists>s'. network_rounds (sample_env\<lparr>env_sock := \<lambda>tr c. case c of Socket ty \<Rightarrow> 4 | Accept fd \<Rightarrow> -1 | _ \<Rightarrow> 0\<rparr>) False
       (\<lambda>i. null_wqi) 3 (sample_process\<lparr>nw := sample_network\<lparr>connected := False\<rparr>\<rparr>) = Inr s'
     \<and> received (trace s') = []"
proof -
  let ?E = "sample_env\<lparr>env_sock := \<lambda>tr c. case c of Socket ty \<Rightarrow> 4 | Accept fd \<Rightarrow> -1 | _ \<Rightarrow> 0\<rparr>"
  let ?s = "sample_process\<lparr>nw := sample_network\<lparr>connected := False\<rparr>\<rparr>"
  have ok: "net_ok ?s" using sample_process_ok by (simp add: net_ok_def queues_ok_def sample_process_def sample_network_def)
  obtain tr where "wait_for_connection ?E (port (nw ?s)) (trace ?s) = Inr (-1, tr)"
    by (simp add: wait_for_connection_def open_listen_def sys_sock_def Let_def)
  moreover have "\<exists>s'. network_rounds ?E False (\<lambda>i. null_wqi) (Suc 2) ?s = Inr s'"
    by (simp add: numeral_2_eq_2 network_step_def network_round_def poll_def sample_process_def sample_network_def null_nqi_def
      process_nqi_def recv_command_def do_recv_def poll_pf_def sys_poll_def sample_env_def set_nw_def POLLIN_def
      get_time_def gettimeofday_def assign_def push_qn_def safe_queue_new_def base_process_nqi_def when_s_def
      open_connection_def accept_tcp_def wait_for_connection_def open_listen_def sys_sock_def stderr_def
      touch_last_recv_def enqueue_def Let_def)
  moreover have "missing_return ?E \<noteq> None" "\<not> connected (nw ?s)" "q (qn ?s) = []"
    by (simp_all add: sample_env_def sample_process_def)
  ultimately show ?thesis
    using failed_accept_is_final [OF ok, of ?E tr False "\<lambda>i. null_wqi" 2]
    by (auto simp: sample_process_def received_def numeral_3_eq_3 numeral_2_eq_2)
qed

end
