(* ===== verification/System.thy ===== *)
theory System
  imports LunaBurn TitanBurn Network Initialization
begin

text \<open>
  The running program: the worker thread and the network thread, one round of either at a time in
  any order, over the same state. A round is atomic here; the threads share the two queues,
  whose operations are atomic, the flag \<open>connected\<close>, the rings and the outside. What happens after a
  thread has called \<open>exit\<close> is in \<open>Shutdown\<close>.
\<close>

section \<open>Steps\<close>

inductive sys_step ::
    "(work_queue_item \<Rightarrow> 'a process_scheme \<Rightarrow> error + 'a process_scheme) \<Rightarrow> env \<Rightarrow> bool
     \<Rightarrow> 'a process_scheme \<Rightarrow> 'a process_scheme \<Rightarrow> bool"
  for wqv E udp where
  worker_round: "worker_step wqv s = Inr s' \<Longrightarrow> sys_step wqv E udp s s'"
| network_round: "network_step E udp junk s = Inr s' \<Longrightarrow> sys_step wqv E udp s s'"

inductive_cases sys_stepE: "sys_step wqv E udp s s'"

text \<open>
  How a run stops: with the error of a round; or killed by \<open>SIGPIPE\<close>, at a write of the network thread that fails.
  Only that thread writes to sockets: the worker writes to files.
\<close>

inductive sys_stop ::
    "(work_queue_item \<Rightarrow> 'a process_scheme \<Rightarrow> error + 'a process_scheme) \<Rightarrow> env \<Rightarrow> bool
     \<Rightarrow> 'a process_scheme \<Rightarrow> error \<Rightarrow> bool"
  for wqv E udp where
  worker_stop: "worker_step wqv s = Inl e \<Longrightarrow> sys_stop wqv E udp s e"
| network_stop: "network_step E udp junk s = Inl e \<Longrightarrow> sys_stop wqv E udp s e"
| network_killed: "network_step E udp junk s = Inr s' \<Longrightarrow> d \<in> set (sigpipe_points (trace s) (trace s')) \<Longrightarrow>
    sys_stop wqv E udp s (Killed d)"

inductive_simps sys_stop_iff: "sys_stop wqv E udp s e"

text \<open>
  The ways to stop that are left, for a run in which \<open>s\<close> was reached: \<open>exit(1)\<close> or \<open>SIGPIPE\<close>, the pins being as they are
  in \<open>s\<close>; and undefined behaviour in the one place where the code has it, the missing return value of \<open>send_header\<close>.
\<close>

definition stop_ok :: "env \<Rightarrow> 'a process_scheme \<Rightarrow> error \<Rightarrow> bool" where
  "stop_ok E s e \<longleftrightarrow> (case e of
       Exit status tr \<Rightarrow> status = 1 \<and> pin_level tr = pin_level (trace s)
     | Killed tr \<Rightarrow> pin_level tr = pin_level (trace s)
     | Undefined \<Rightarrow> missing_return E = None \<and> nqi_action (fst (poll (qn s))) = nq_send
     | Out_of_range \<Rightarrow> False)"

section \<open>The invariant of the whole\<close>

lemma net_next_ok:
  assumes "net_next s s'" and "net_ok s'"
  obtains xs ys n tr where
    "s' = s\<lparr>qw := (qw s)\<lparr>q := xs\<rparr>, qn := (qn s)\<lparr>q := ys\<rparr>, nw := n, trace := tr\<rparr>"
    "list_all wqi_ok xs" "list_all (nqi_ok (length (heap s))) ys" "timeout n = 0"
proof -
  from assms(1) obtain xs ys n tr where
    s': "s' = s\<lparr>qw := (qw s)\<lparr>q := xs\<rparr>, qn := (qn s)\<lparr>q := ys\<rparr>, nw := n, trace := tr\<rparr>"
    unfolding net_next_def by blast
  with assms(2) that show thesis by (simp add: net_ok_def queues_ok_def)
qed

text \<open>Facts about any engine, in the contract's context.\<close>

context engine
begin

lemma ok_net_ok: "ok s \<Longrightarrow> timeout (nw s) = 0 \<Longrightarrow> net_ok s"
  using ok_wf by (auto simp: net_ok_def vis_wf_def)

lemma ok_trace:
  assumes "ok s"
  shows "ok (s\<lparr>trace := tr\<rparr>)"
proof -
  have "list_all wqi_ok (q (qw s))" "list_all (nqi_ok (length (heap s))) (q (qn s))"
    using ok_wf [OF assms] by (simp_all add: vis_wf_defs)
  from ok_network [OF assms this, where n = "nw s" and tr = tr] show ?thesis by simp
qed

lemma worker_round_ok:
  assumes "ok s"
  obtains s' where "worker_step wqv s = Inr s'" "ok s'" "nw s' = nw s"
proof -
  have "length (snd (snd (send_view s))) = 13"
    using ok_wf [OF assms] by (simp add: send_view_def vis_wf_length)
  from ensuresE [OF step_law [OF this]] assms obtain s' where
    s': "worker_step wqv s = Inr s'" "ok s'" "sends_from (send_view s) (send_view s')"
    using sends_from_refl by blast
  then have "nw s' = nw s" by (simp add: send_view_def)
  with s' that show thesis by blast
qed

lemma network_round_ok:
  assumes "ok s" and "timeout (nw s) = 0" and "network_step E udp junk s = Inr s'"
  shows "ok s' \<and> timeout (nw s') = 0"
proof -
  have "net_inv s [] s'"
    using network_step_law [OF net_inv_refl [OF ok_net_ok [OF assms(1,2)]], of E udp junk] assms(3) by simp
  then have "net_next s s'" "net_ok s'" by (simp_all add: net_inv_def)
  then obtain xs ys n tr where
    "s' = s\<lparr>qw := (qw s)\<lparr>q := xs\<rparr>, qn := (qn s)\<lparr>q := ys\<rparr>, nw := n, trace := tr\<rparr>"
    "list_all wqi_ok xs" "list_all (nqi_ok (length (heap s))) ys" "timeout n = 0" by (rule net_next_ok)
  with ok_network [OF assms(1)] show ?thesis by simp
qed

lemma system_ok:
  assumes "(sys_step wqv E udp)\<^sup>*\<^sup>* s s'" and "ok s" and "timeout (nw s) = 0"
  shows "ok s' \<and> timeout (nw s') = 0"
  using assms(1)
proof (induction rule: rtranclp_induct)
  case base
  with assms show ?case by simp
next
  case (step t u)
  from step(2) show ?case
  proof (rule sys_stepE)
    assume "worker_step wqv t = Inr u"
    then show ?thesis using worker_round_ok [of t] step(3) by fastforce
  next
    fix junk assume "network_step E udp junk t = Inr u"
    then show ?thesis using network_round_ok step(3) by blast
  qed
qed

lemma system_stops:
  assumes "ok s" and "timeout (nw s) = 0" and "sys_stop wqv E udp s e"
  shows "stop_ok E s e"
  using assms(3)
proof cases
  case worker_stop
  with worker_round_ok [OF assms(1)] show ?thesis by fastforce
next
  case (network_stop junk)
  with network_step_law [OF net_inv_refl [OF ok_net_ok [OF assms(1,2)]], of E udp junk]
  show ?thesis by (auto simp: exits_def stops_badly_def stop_ok_def)
next
  case (network_killed junk s' d)
  with network_step_law [OF net_inv_refl [OF ok_net_ok [OF assms(1,2)]], of E udp junk]
  have "undriven_after (trace s) (trace s')" by (simp add: net_inv_def)
  from undriven_pin_level [OF sigpipe_undriven [OF this network_killed(3)]] network_killed(1)
  show ?thesis by (simp add: stop_ok_def fun_eq_iff)
qed

end

section \<open>Runs of either engine\<close>

lemma luna_run_safe:
  assumes "(sys_step (luna_visit E C) E udp)\<^sup>*\<^sup>* s s'" and "luna_wf C s" and "timeout (nw s) = 0"
  shows "luna_wf C s'" and "timeout (nw s') = 0" and "sys_stop (luna_visit E C) E udp s' e \<Longrightarrow> stop_ok E s' e"
  using luna.system_ok [OF assms] luna.system_stops by blast+

lemma titan_run_safe:
  assumes "(sys_step (titan_visit E C) E udp)\<^sup>*\<^sup>* s s'" and "vis_wf s" and "timeout (nw s) = 0"
  shows "vis_wf s'" and "timeout (nw s') = 0" and "sys_stop (titan_visit E C) E udp s' e \<Longrightarrow> stop_ok E s' e"
  using titan.system_ok [OF assms] titan.system_stops by blast+

text \<open>A round of the Luna worker keeps the invariant of a burn, and the network thread cannot break it.\<close>

lemma luna_round_burn_inv:
  assumes "luna_wf C t" and "burn_inv C t" and "worker_step (luna_visit E C) t = Inr u"
  shows "burn_inv C u"
proof -
  obtain item qw' where p: "poll (qw t) = (item, qw')" by (meson surj_pair)
  have "null_item (qw t) = null_wqi" "list_all wqi_ok (q (qw t))"
    using assms(1) by (simp_all add: luna_wf_def vis_wf_defs)
  with p have "wqi_ok item \<and> (\<exists>xs. qw' = (qw t)\<lparr>q := xs\<rparr> \<and> list_all wqi_ok xs)"
    by (cases rule: poll_cases) (auto simp: wqi_ok_def null_wqi_def intro: exI [of _ "[]"])
  then have "wqi_ok item" "luna_wf C (t\<lparr>qw := qw'\<rparr>)" using luna.ok_queue [OF assms(1)] by auto
  moreover have "luna_visit E C item (t\<lparr>qw := qw'\<rparr>) = Inr u" using assms(3) p by (simp add: worker_step_def)
  moreover have "burn_inv C (t\<lparr>qw := qw'\<rparr>)" using assms(2) by (simp add: burn_inv_def)
  ultimately show ?thesis using luna_visit_burn_inv by blast
qed

lemma luna_run_burn_inv:
  assumes "(sys_step (luna_visit E C) E udp)\<^sup>*\<^sup>* s s'" and "luna_wf C s" and "timeout (nw s) = 0" and "burn_inv C s"
  shows "burn_inv C s'"
  using assms(1)
proof (induction rule: rtranclp_induct)
  case base
  with assms show ?case by simp
next
  case (step t u)
  have t: "luna_wf C t" "timeout (nw t) = 0" using luna_run_safe [OF step(1) assms(2,3)] by simp_all
  from step(2) show ?case
  proof (rule sys_stepE)
    assume "worker_step (luna_visit E C) t = Inr u"
    with t(1) step(3) show ?thesis by (rule luna_round_burn_inv)
  next
    fix junk assume "network_step E udp junk t = Inr u"
    with network_step_law [OF net_inv_refl [OF luna.ok_net_ok [OF t]], of E udp junk]
    have "net_next t u" by (simp add: net_inv_def)
    then show ?thesis using step(3) by (auto simp: net_next_def burn_inv_def)
  qed
qed

end
