(* ===== verification/Shutdown.thy ===== *)
theory Shutdown
  imports System
begin

text \<open>
  The end of the program. \<open>exit\<close>, called by the network thread, runs the handler that \<open>main\<close> registered with \<open>atexit\<close>,
  \<open>initialize_pins\<close>, and then ends the process; but it does not stop the worker thread, which goes on visiting items
  until the process is gone: between the calls of the handler, and after it. A death by \<open>SIGPIPE\<close> runs no handler.
\<close>

section \<open>While the process exits\<close>

text \<open>The calls of the handler.\<close>

definition at_exit :: "event list" where
  "at_exit = initialize_pins []"

lemma initialize_pins_at_exit: "initialize_pins tr = tr @ at_exit"
  by (simp add: at_exit_def initialize_pins_def)

text \<open>
  From the state \<open>s0\<close> in which \<open>exit\<close> was called: the items that the worker has visited since, the calls of the handler
  that are left, and the state. The network thread runs the handler and touches nothing else. The process may end whenever
  no call is left.
\<close>

inductive exiting ::
    "(work_queue_item \<Rightarrow> 'a process_scheme \<Rightarrow> error + 'a process_scheme) \<Rightarrow> 'a process_scheme
     \<Rightarrow> work_queue_item list \<Rightarrow> event list \<Rightarrow> 'a process_scheme \<Rightarrow> bool"
  for wqv s0 where
  exit_called: "exiting wqv s0 [] at_exit s0"
| exit_call: "exiting wqv s0 xs (e # es) s \<Longrightarrow> exiting wqv s0 xs es (s\<lparr>trace := trace s @ [e]\<rparr>)"
| exit_worker: "exiting wqv s0 xs es s \<Longrightarrow> worker_step wqv s = Inr t \<Longrightarrow>
    exiting wqv s0 (xs @ [fst (poll (qw s))]) es t"

text \<open>The handler alone.\<close>

lemma exiting_handler: "exiting wqv s0 xs (es @ fs) s \<Longrightarrow> exiting wqv s0 xs fs (s\<lparr>trace := trace s @ es\<rparr>)"
proof (induction es arbitrary: s)
  case Nil
  then show ?case by simp
next
  case (Cons e es)
  from Cons.IH [OF exit_call] Cons.prems show ?case by simp
qed

lemma exiting_alone: "exiting wqv s0 [] [] (s0\<lparr>trace := trace s0 @ at_exit\<rparr>)"
proof (rule exiting_handler)
  show "exiting wqv s0 [] (at_exit @ []) s0" using exit_called [of wqv s0] by simp
qed

section \<open>What the worker can still do\<close>

text \<open>
  The contract: an item that is not an \<open>opener\<close> leaves every pin alone or at its safe level.
\<close>

locale exit_engine = engine ok wqv
  for ok :: "'a worker_visitor_scheme \<Rightarrow> bool" and wqv +
  fixes opener :: "work_queue_item \<Rightarrow> bool"
  assumes shut_law: "ok s \<Longrightarrow> wqi_ok item \<Longrightarrow> wqv item s = Inr s' \<Longrightarrow> \<not> opener item \<Longrightarrow> only_shuts (trace s) (trace s')"
begin

lemma exiting_ok:
  assumes "exiting wqv s0 xs es s" and "ok s0"
  shows "ok s"
  using assms(1)
proof (induction rule: exiting.induct)
  case exit_called
  show ?case by (rule assms(2))
next
  case (exit_call xs e es s)
  from ok_trace [OF exit_call.IH] show ?case .
next
  case (exit_worker xs es s t)
  then show ?case using worker_round_ok [OF exit_worker.IH] by fastforce
qed

lemma round_only_shuts:
  assumes "ok s" and "worker_step wqv s = Inr t" and "\<not> opener (fst (poll (qw s)))"
  shows "only_shuts (trace s) (trace t)"
proof -
  obtain item qw' where p: "poll (qw s) = (item, qw')" by (meson surj_pair)
  have "null_item (qw s) = null_wqi" "list_all wqi_ok (q (qw s))" using ok_wf [OF assms(1)] by (simp_all add: vis_wf_defs)
  with p have "wqi_ok item \<and> (\<exists>xs. qw' = (qw s)\<lparr>q := xs\<rparr> \<and> list_all wqi_ok xs)"
    by (cases rule: poll_cases) (auto simp: wqi_ok_def null_wqi_def intro: exI [of _ "[]"])
  then have "wqi_ok item" "ok (s\<lparr>qw := qw'\<rparr>)" using ok_queue [OF assms(1)] by auto
  moreover have "wqv item (s\<lparr>qw := qw'\<rparr>) = Inr t" using assms(2) p by (simp add: worker_step_def)
  ultimately show ?thesis using shut_law [of "s\<lparr>qw := qw'\<rparr>" item t] assms(3) p by simp
qed

text \<open>Without an opener in the window, each pin is at its safe level, or the handler has still to drive it.\<close>

lemma exiting_pins:
  assumes "exiting wqv s0 xs es s" and "ok s0" and "\<forall>x \<in> set xs. \<not> opener x"
  shows "(\<exists>ds. at_exit = ds @ es)
    \<and> (\<forall>p \<in> set init_pins. pin_level (trace s) p = Some (safe_level p) \<or> Gpio_write p (safe_level p) \<in> set es)"
  using assms(1,3)
proof (induction rule: exiting.induct)
  case exit_called
  show ?case by (simp add: at_exit_def initialize_pins_def init_pins_def safe_level_def pin_defs)
next
  case (exit_call xs e es s)
  then obtain ds where ds: "at_exit = ds @ e # es" by auto
  have "e \<in> set at_exit" unfolding ds by simp
  then have e: "e = Gpio_fsel_outp q \<or> e = Gpio_write q (safe_level q)"
    if "q = (case e of Gpio_fsel_outp q \<Rightarrow> q | Gpio_write q v \<Rightarrow> q)" for q
    using that by (auto simp: at_exit_def initialize_pins_def safe_level_def pin_defs)
  have "pin_level (trace s @ [e]) p = Some (safe_level p)"
    if "pin_level (trace s) p = Some (safe_level p) \<or> Gpio_write p (safe_level p) = e" for p
    using that e by (auto simp: pin_level_snoc split: event.splits)
  moreover have "at_exit = (ds @ [e]) @ es" using ds by simp
  moreover have "pin_level (trace s) p = Some (safe_level p) \<or> Gpio_write p (safe_level p) = e
      \<or> Gpio_write p (safe_level p) \<in> set es" if "p \<in> set init_pins" for p
    using exit_call that by auto
  ultimately show ?case by (auto simp del: append_assoc intro: exI [of _ "ds @ [e]"])
next
  case (exit_worker xs es s t)
  then have "only_shuts (trace s) (trace t)"
    using round_only_shuts [OF exiting_ok [OF exit_worker.hyps(1) assms(2)]] by simp
  with exit_worker show ?case unfolding only_shuts_def by (metis in_set_conv_decomp butlast_snoc in_set_butlastD)
qed

lemma exit_safe:
  assumes "exiting wqv s0 xs [] s" and "ok s0" and "\<forall>x \<in> set xs. \<not> opener x"
  shows "safe_pins (trace s)"
  using exiting_pins [OF assms] by (simp add: safe_pins_iff)

end

interpretation luna_exit: exit_engine "luna_wf C" "luna_visit E C" luna_opener
  for C E
  by unfold_locales (rule luna_only_shuts)

interpretation titan_exit: exit_engine vis_wf "titan_visit E C" titan_opener
  for C E
  by unfold_locales (rule titan_only_shuts)


section \<open>What can go wrong\<close>

text \<open>
  A valve can be open when the process is gone, and stays open. With the start of a burn still in the work queue, the
  network thread calls \<open>exit\<close>, its handler runs to its end, and then the worker opens the main valve.
\<close>

definition poll_fails :: env where
  "poll_fails = sample_env\<lparr>env_poll := \<lambda>tr fd. (-1, 0)\<rparr>"

definition about_to_burn :: luna_visitor where
  "about_to_burn = sample_luna\<lparr>qw := enqueue (timed_wqi 10) (safe_queue_new null_wqi),
     qn := enqueue (null_nqi\<lparr>nqi_action := nq_recv\<rparr>) (safe_queue_new null_nqi)\<rparr>"

lemma about_to_burn_wf: "luna_wf sample_config (about_to_burn\<lparr>trace := tr\<rparr>)"
  using sample_luna_wf by (auto simp: luna_wf_def vis_wf_defs about_to_burn_def wqi_ok_def nqi_ok_def)

theorem exit_race_opens_valve:
  "\<exists>tr u. sys_stop (luna_visit poll_fails sample_config) poll_fails False about_to_burn (Exit 1 tr)
     \<and> exiting (luna_visit poll_fails sample_config) (about_to_burn\<lparr>trace := tr\<rparr>) [timed_wqi 10] [] u
     \<and> pin_level (trace u) MAIN_VALVE = Some HIGH"
proof -
  define tr where "tr = [Sys_poll 5 (-1) 0, Stderr ''Poll failed'']"
  let ?v = "luna_visit poll_fails sample_config" and ?s = "about_to_burn\<lparr>trace := tr @ at_exit\<rparr>"
  have "network_step poll_fails False null_wqi about_to_burn = Inl (Exit 1 tr)"
    by (simp add: network_step_def network_round_def poll_def about_to_burn_def null_nqi_def sample_network_def
        process_nqi_def recv_command_def do_recv_def poll_pf_def sys_poll_def poll_fails_def set_nw_def
        safe_queue_new_def enqueue_def Let_def tr_def)
  then have stop: "sys_stop ?v poll_fails False about_to_burn (Exit 1 tr)" by (rule network_stop)
  have run: "exiting ?v (about_to_burn\<lparr>trace := tr\<rparr>) [] [] ?s"
    using exiting_alone [of ?v "about_to_burn\<lparr>trace := tr\<rparr>"] by simp
  let ?t = "?s\<lparr>qw := (qw ?s)\<lparr>q := []\<rparr>\<rparr>"
  have "luna_wf sample_config ?t"
    using luna.ok_queue [OF about_to_burn_wf, of "[]" "tr @ at_exit"] by simp
  from luna_ign2_visit [OF this, of "timed_wqi 10" poll_fails] obtain u where
    u: "luna_visitTimed poll_fails sample_config (timed_wqi 10) ?t = Inr u" "pin_level (trace u) MAIN_VALVE = Some HIGH"
    by auto
  have q: "poll (qw ?s) = (timed_wqi 10, (qw ?s)\<lparr>q := []\<rparr>)"
    by (simp add: poll_def about_to_burn_def safe_queue_new_def enqueue_def)
  then have "worker_step ?v ?s = Inr u" using u(1) by (simp add: worker_step_def luna_visit_def visit_def)
  from exit_worker [OF run this] q have "exiting ?v (about_to_burn\<lparr>trace := tr\<rparr>) [timed_wqi 10] [] u" by simp
  with stop u(2) show ?thesis by blast
qed

text \<open>
  Nor does a client that goes away in the middle of a burn leave the controller safe: the next frame is written to a broken
  socket, the signal kills the process, no handler runs, and the main valve stays open.
\<close>

definition gone_client :: env where
  "gone_client = sample_env\<lparr>env_write := \<lambda>tr fd bs. None\<rparr>"

definition burning_and_sending :: luna_visitor where
  "burning_and_sending = sample_luna\<lparr>burn_on := True, trace := [Gpio_write MAIN_VALVE HIGH],
     qn := enqueue (null_nqi\<lparr>nqi_action := nq_send, nqi_buff := Some 3, nqi_data0 := 12\<rparr>) (safe_queue_new null_nqi)\<rparr>"

theorem sigpipe_leaves_valve_open:
  "\<exists>tr. sys_stop (luna_visit gone_client sample_config) gone_client False burning_and_sending (Killed tr)
     \<and> luna_wf sample_config burning_and_sending \<and> pin_level tr MAIN_VALVE = Some HIGH"
proof -
  define tr where "tr = [Gpio_write MAIN_VALVE HIGH, Sys_poll 5 1 1, Sys_write 5 [] (-1)]"
  have wf: "luna_wf sample_config burning_and_sending"
    using sample_luna_wf
    by (auto simp: luna_wf_def vis_wf_defs burning_and_sending_def nqi_ok_def intro!: exI [of _ lc3])
  obtain s' where "network_step gone_client False null_wqi burning_and_sending = Inr s'" "trace s' = tr"
    by (simp add: network_step_def network_round_def poll_def burning_and_sending_def null_nqi_def sample_network_def
        process_nqi_def send_item_def write_blocked_never send_header_eq sys_write_def conn_fd_def deref_def write_data.simps
        poll_pf_def sys_poll_def gone_client_def sample_env_def set_nw_def safe_queue_new_def enqueue_def Let_def tr_def)
  moreover have "tr \<in> set (sigpipe_points (trace burning_and_sending) tr)"
    by (simp add: sigpipe_points_def tr_def burning_and_sending_def broken_write_def upt_rec)
  ultimately have "sys_stop (luna_visit gone_client sample_config) gone_client False burning_and_sending (Killed tr)"
    using network_killed by metis
  moreover have "pin_level tr MAIN_VALVE = Some HIGH" by (simp add: tr_def pin_level_def)
  ultimately show ?thesis using wf by blast
qed

end
