(* ===== verification/MainProgram.thy ===== *)
theory MainProgram
  imports Shutdown "HOL-Library.Monad_Syntax"
begin

text \<open>
  \<open>src/final/ini_config.cpp\<close> and \<open>main.cpp\<close>: from the configuration file to the running threads.
  Boost's parser is the parameter \<open>po\<close>: what the file gives for a description of the options, or
  \<open>None\<close> for the exception that it throws. Defaults, required options and the conversion to the
  type of the variable are documented behaviour of \<open>store\<close> and \<open>notify\<close> and written out. What
  \<open>main\<close> prints to \<open>std::cout\<close> is left out.
\<close>

section \<open>The options\<close>

datatype ini_value = Ini_nat nat | Ini_int int | Ini_bool bool | Ini_float rat | Ini_string string | Ini_ints "int list"

datatype ini_default = Required | Default ini_value | Optional

type_synonym ini_store = "string \<Rightarrow> ini_value option"

definition ini_options :: "(string \<times> ini_default) list" where
  "ini_options =
     [(''Server.Port'', Required),
      (''Server.Protocol'', Default (Ini_string ''TCP'')),
      (''Control.engine_type'', Default (Ini_int 0)),
      (''Control.use_gitvc'', Default (Ini_bool False)),
      (''Control.Time_between_gitvc'', Default (Ini_int 0)),
      (''Control.Gitvc_wait_time'', Default (Ini_int 0)),
      (''Control.Gitvc_times'', Optional),
      (''Control.Ignition_on'', Required),
      (''Control.Preignite_ms'', Required),
      (''Control.Hotflow_ms'', Required),
      (''Pressure.Pressure_shutoff'', Default (Ini_bool True)),
      (''Pressure.Pressure_slope'', Required),
      (''Pressure.Pressure_yint'', Required),
      (''Pressure.Pressure_max'', Default (Ini_int 800)),
      (''Pressure.Pressure_min'', Default (Ini_int 300))]"

definition ini_store_defaults :: "ini_store \<Rightarrow> ini_store" where
  "ini_store_defaults m k =
     (case m k of
        Some v \<Rightarrow> Some v
      | None \<Rightarrow> (case map_of ini_options k of Some (Default v) \<Rightarrow> Some v | _ \<Rightarrow> None))"

fun as_unsigned :: "ini_value \<Rightarrow> int option" where
  "as_unsigned (Ini_nat n) = (if n < 4294967296 then Some (int n) else None)"
| "as_unsigned _ = None"

fun as_int :: "ini_value \<Rightarrow> int option" where
  "as_int (Ini_int i) = (if in_int i then Some i else None)"
| "as_int _ = None"

fun as_bool :: "ini_value \<Rightarrow> bool option" where
  "as_bool (Ini_bool b) = Some b"
| "as_bool _ = None"

fun as_float :: "ini_value \<Rightarrow> rat option" where
  "as_float (Ini_float x) = Some x"
| "as_float _ = None"

fun as_ints :: "ini_value \<Rightarrow> int list option" where
  "as_ints (Ini_ints is) = (if list_all in_int is then Some is else None)"
| "as_ints _ = None"

text \<open>The values \<open>init_config\<close> gives to \<open>main\<close>; a vector that the file does not mention stays empty.\<close>

record ini_config =
  ini_port :: int
  ini_preignite_ms :: int
  ini_hotflow_ms :: int
  ini_globals :: config

definition init_config :: "(string \<Rightarrow> ini_store option) \<Rightarrow> string \<Rightarrow> ini_config option" where
  "init_config po filename =
     do {
       file \<leftarrow> po filename;
       let m = ini_store_defaults file;
       port \<leftarrow> m ''Server.Port'' \<bind> as_unsigned;
       et \<leftarrow> m ''Control.engine_type'' \<bind> as_int;
       ug \<leftarrow> m ''Control.use_gitvc'' \<bind> as_bool;
       tbg \<leftarrow> m ''Control.Time_between_gitvc'' \<bind> as_int;
       gwt \<leftarrow> m ''Control.Gitvc_wait_time'' \<bind> as_int;
       gt \<leftarrow> (case m ''Control.Gitvc_times'' of None \<Rightarrow> Some [] | Some v \<Rightarrow> as_ints v);
       ign \<leftarrow> m ''Control.Ignition_on'' \<bind> as_bool;
       pre \<leftarrow> m ''Control.Preignite_ms'' \<bind> as_int;
       hot \<leftarrow> m ''Control.Hotflow_ms'' \<bind> as_int;
       ps \<leftarrow> m ''Pressure.Pressure_shutoff'' \<bind> as_bool;
       slope \<leftarrow> m ''Pressure.Pressure_slope'' \<bind> as_float;
       yint \<leftarrow> m ''Pressure.Pressure_yint'' \<bind> as_float;
       pmax \<leftarrow> m ''Pressure.Pressure_max'' \<bind> as_int;
       pmin \<leftarrow> m ''Pressure.Pressure_min'' \<bind> as_int;
       Some \<lparr>ini_port = port, ini_preignite_ms = pre, ini_hotflow_ms = hot,
         ini_globals = \<lparr>engine_type = et, time_between_gitvc = tbg, gitvc_wait_time = gwt,
           pressure_slope = slope, pressure_yint = yint, pressure_min = pmin, pressure_max = pmax,
           preignite_us = 0, hotflow_us = 0, ignition_on = ign, pressure_shutoff = ps,
           use_gitvc = ug, gitvc_times = gt\<rparr>\<rparr>
     }"

section \<open>\<open>main\<close>\<close>

text \<open>
  How \<open>main\<close> gets on: an uncaught exception of Boost, a return with its status, or the two
  threads started over the state given. Undefined behaviour is \<open>Inl\<close>.
\<close>

datatype main_outcome =
    Uncaught_exception
  | Main_returns int "event list"
  | Luna_runs config luna_visitor
  | Titan_runs config titan_visitor

definition stderr_line :: "string \<Rightarrow> event list \<Rightarrow> event list" where
  "stderr_line msg tr = tr @ [Stderr msg]"

text \<open>\<open>preignite_us = preignite_ms * 1000\<close>, an \<open>int\<close> product.\<close>

definition times_1000 :: "int \<Rightarrow> error + int" where
  "times_1000 ms = (if in_int (ms * 1000) then Inr (ms * 1000) else Inl Undefined)"

definition test_adcs :: "env \<Rightarrow> RPiGPIOPin \<Rightarrow> event list \<Rightarrow> error + event list" where
  "test_adcs E j8_24 tr =
     (case exec [register_pin 0 ADC_0_CS, register_pin 1 ADC_1_CS, register_pin 2 ADC_2_CS]
             (adc_block_new j8_24 3) of
        Inl e \<Rightarrow> Inl e
      | Inr adcs \<Rightarrow>
          (case read_item_num E adcs 2 True 0 tr of
             Inl e \<Rightarrow> Inl e
           | Inr (v, tr) \<Rightarrow> Inr (snd (read_item E (adc_info_new LC_ADC True 0) tr))))"

text \<open>
  The state the threads start on. The junk holds what C++ leaves indeterminate: the members of
  the network worker that its constructor does not set and the contents of the rings.
\<close>

text \<open>
  The port is an \<open>unsigned int\<close> that goes to a parameter of type \<open>int\<close>: one of \<open>2^31\<close> or more, which the check
  \<open>port <= 0\<close> lets pass, becomes negative.
\<close>

definition int_of_unsigned :: "int \<Rightarrow> int" where
  "int_of_unsigned p = sint (word_of_int p :: 32 word)"

definition first_process ::
    "env \<Rightarrow> network_worker \<Rightarrow> (nat \<Rightarrow> nat \<Rightarrow> byte) \<Rightarrow> int \<Rightarrow> event list \<Rightarrow> process" where
  "first_process E m junk p tr =
     (let (base, tr) = set_base_time E 0 tr;
          initial = null_nqi\<lparr>nqi_action := nq_recv\<rparr>;
          (n, tr) = network_worker_new E m (int_of_unsigned p) base tr
      in \<lparr>qn = enqueue initial (safe_queue_new null_nqi), qw = safe_queue_new null_wqi,
          heap = [circular_buffer_new (push_bit 16 1) (junk 0)], base_time = base, nw = n, trace = tr\<rparr>)"

definition start_threads ::
    "env \<Rightarrow> network_worker \<Rightarrow> (nat \<Rightarrow> nat \<Rightarrow> byte) \<Rightarrow> config \<Rightarrow> int \<Rightarrow> event list \<Rightarrow> error + main_outcome" where
  "start_threads E m junk C p tr =
     (let s = first_process E m junk p tr
      in if engine_type C = 0
         then (case luna_visitor_new C junk s of Inl e \<Rightarrow> Inl e | Inr v \<Rightarrow> Inr (Luna_runs C v))
         else (case titan_visitor_new C junk s of Inl e \<Rightarrow> Inl e | Inr v \<Rightarrow> Inr (Titan_runs C v)))"

definition start_hardware ::
    "env \<Rightarrow> RPiGPIOPin \<Rightarrow> network_worker \<Rightarrow> (nat \<Rightarrow> nat \<Rightarrow> byte) \<Rightarrow> config \<Rightarrow> int \<Rightarrow> event list
     \<Rightarrow> error + main_outcome" where
  "start_hardware E j8_24 m junk C p tr =
     (let ok = env_bcm E tr; tr = tr @ [Bcm_init ok]
      in if \<not> ok
         then Inr (Main_returns 1 (stderr_line ''bcm2835_init failed. Are you running as root??'' tr))
         else if engine_type C \<noteq> 0 \<and> engine_type C \<noteq> 1
         then Inr (Main_returns 1 (stderr_line ''Unknown engine type'' tr))
         else
           (let tr = (if engine_type C = 0 then initialize_pins tr else titan_initialize_pins tr);
                (r, tr) = initialize_spi E tr
            in if r \<noteq> 0 then Inr (Main_returns 1 (stderr_line ''Could not initialize SPI.'' tr))
               else if env_atexit E \<noteq> 0
               then Inr (Main_returns 1 (stderr_line ''Could not register exit function.'' tr))
               else (case test_adcs E j8_24 tr of Inl e \<Rightarrow> Inl e | Inr tr \<Rightarrow> start_threads E m junk C p tr)))"

definition main_program ::
    "env \<Rightarrow> (string \<Rightarrow> ini_store option) \<Rightarrow> RPiGPIOPin \<Rightarrow> network_worker \<Rightarrow> (nat \<Rightarrow> nat \<Rightarrow> byte)
     \<Rightarrow> string list \<Rightarrow> error + main_outcome" where
  "main_program E po j8_24 m junk argv =
     (if length argv < 2 then Inr (Main_returns 1 [])
      else
        (case init_config po (argv ! 1) of
           None \<Rightarrow> Inr Uncaught_exception
         | Some ini \<Rightarrow>
             (case (times_1000 (ini_preignite_ms ini), times_1000 (ini_hotflow_ms ini)) of
                (Inr pre, Inr hot) \<Rightarrow>
                  (if pre < 0 \<or> pre > 5000000
                   then Inr (Main_returns 1 (stderr_line ''Incorrect preignite time.'' []))
                   else if ini_hotflow_ms ini < 0 \<or> ini_hotflow_ms ini > 15000000
                   then Inr (Main_returns 1 (stderr_line ''Incorrect hotflow time.'' []))
                   else if ini_port ini \<le> 0
                   then Inr (Main_returns 1 (stderr_line ''Port must be larger than zero.'' []))
                   else start_hardware E j8_24 m junk
                     ((ini_globals ini)\<lparr>preignite_us := pre, hotflow_us := hot\<rparr>) (ini_port ini) [])
              | _ \<Rightarrow> Inl Undefined)))"

section \<open>The start of the hardware\<close>

lemma test_adcs_returns:
  "\<exists>tr'. test_adcs E j8_24 tr = Inr tr' \<and> pin_level tr' = (pin_level tr)(ADC_2_CS \<mapsto> HIGH)"
proof -
  have pins: "pin_level (snd (read_item E idx tr)) = (pin_level tr)(ADC_2_CS \<mapsto> HIGH)"
    if "pin idx = ADC_2_CS" for idx tr
    using that by (simp add: fun_eq_iff read_item_pins pin_defs)
  let ?blk = "\<lparr>adc_cs_pin = [ADC_0_CS, ADC_1_CS, ADC_2_CS]\<rparr>"
  have blk: "exec [register_pin 0 ADC_0_CS, register_pin 1 ADC_1_CS, register_pin 2 ADC_2_CS] (adc_block_new j8_24 3)
      = (Inr ?blk :: error + adc_block)"
    by (simp add: register_pin_def adc_block_new_def eval_nat_numeral)
  obtain v tr1 where r: "read_item_num E ?blk 2 True 0 tr = Inr (v, tr1)"
    "pin_level tr1 = (pin_level tr)(ADC_2_CS \<mapsto> HIGH)"
    using pins [of "\<lparr>pin = ADC_2_CS, pad = 0, single_channel = True, channel = ucast (0 :: byte)\<rparr>" tr]
    by (auto simp: read_item_num_def eval_nat_numeral prod_eq_iff)
  have "pin_level (snd (read_item E (adc_info_new LC_ADC True 0) tr1)) = (pin_level tr)(ADC_2_CS \<mapsto> HIGH)"
    using pins [of "adc_info_new LC_ADC True 0" tr1] r(2) by (simp add: adc_info_new_def LC_ADC_def)
  then show ?thesis unfolding test_adcs_def blk by (simp add: r(1))
qed

lemma initialize_spi_pins:
  "initialize_spi E tr = (r, tr') \<Longrightarrow> (r = 0) = env_bcm E tr \<and> pin_level tr' = pin_level tr"
  by (auto simp: initialize_spi_def Let_def fun_eq_iff pin_level_snoc split: if_splits)
     (simp_all add: pin_level_append pin_level_def)

lemma first_process_ok:
  assumes "first_process E m junk p tr = s"
  shows "queues_ok s" and "heap_wf (heap s)" and "timeout (nw s) = 0" and "port (nw s) = int_of_unsigned p"
    and "q (qn s) = [null_nqi\<lparr>nqi_action := nq_recv\<rparr>]" and "q (qw s) = []"
    and "pin_level (trace s) = pin_level tr"
proof -
  obtain base tr1 where b: "set_base_time E 0 tr = (base, tr1)" by (meson surj_pair)
  obtain u tr2 where n: "get_time E base tr1 = (u, tr2)" by (meson surj_pair)
  have s: "s = \<lparr>qn = enqueue (null_nqi\<lparr>nqi_action := nq_recv\<rparr>) (safe_queue_new null_nqi),
      qw = safe_queue_new null_wqi, heap = [circular_buffer_new (push_bit 16 1) (junk 0)], base_time = base,
      nw = m\<lparr>port := int_of_unsigned p, connfd_tcp := -1, connfd_udp := -1, timeout := 0, last_recv := u\<rparr>, trace = tr2\<rparr>"
    using assms b n by (simp add: first_process_def network_worker_new_def)
  have "quiet_after tr tr2"
    using get_time_quiet [OF b [unfolded set_base_time_def]] get_time_quiet [OF n] quiet_after_trans by blast
  from quiet_after_pin_level [OF this] have "pin_level tr2 = pin_level tr" by (rule ext)
  with s show "pin_level (trace s) = pin_level tr" by simp
  from s show "queues_ok s" "timeout (nw s) = 0" "port (nw s) = int_of_unsigned p"
    "q (qn s) = [null_nqi\<lparr>nqi_action := nq_recv\<rparr>]" "q (qw s) = []"
    by (simp_all add: queues_ok_def nqi_ok_def null_nqi_def)
  have "cb_wf (circular_buffer_new (push_bit 16 1) (junk 0))"
    by (simp add: cb_wf_def circular_buffer_new_def push_bit_eq_mult)
  with s show "heap_wf (heap s)" by (simp add: heap_wf_def)
qed

section \<open>The constructors of the visitors\<close>

text \<open>The visitor built over a process: the members, and the delays of the three stages.\<close>

lemma worker_visitor_new_ok:
  assumes "queues_ok p" and "heap_wf (heap p)"
  obtains s where "worker_visitor_new C junk p = Inr s" "vis_wf s" "\<not> burn_on s"
    and "nw s = nw p" "trace s = trace p" "qn s = qn p" "qw s = qw p" "base_time s = base_time p"
    and "time_delay (til_item ign2 (ti_list s)) = word_of_int (preignite_us C)"
    and "time_delay (til_item ign3 (ti_list s)) = word_of_int (hotflow_us C)"
    and "\<not> enabled (til_item ign2 (ti_list s))" and "\<not> enabled (til_item ign3 (ti_list s))"
proof -
  obtain til hp where new: "timed_item_list_new TI_COUNT (push_bit 17 12) junk (heap p) = Inr (til, hp)"
    by (auto simp: timed_item_list_new_def Let_def TI_COUNT_def temp_ti_list_def)
  note t = tis_new [OF new] and wf = til_new_wf [OF new]
  define s0 where "s0 = process.extend (p\<lparr>heap := hp\<rparr>)
    (worker_visitor.fields null_nqi \<lparr>adc_dat = 0, adc_t = 0\<rparr> 0 til 0 700 False)"
  have s0: "nw s0 = nw p" "trace s0 = trace p" "qn s0 = qn p" "qw s0 = qw p" "base_time s0 = base_time p"
    "heap s0 = hp" "ti_list s0 = til" "burn_on s0 = False"
    by (simp_all add: s0_def process.defs worker_visitor.defs)
  define til' where "til' = til_upd gitvc (\<lambda>ti. ti\<lparr>time_delay := word_of_int (gitvc_wait_time C)\<rparr>)
    (til_upd ign3 (\<lambda>ti. ti\<lparr>time_delay := word_of_int (hotflow_us C)\<rparr>)
      (til_upd ign2 (\<lambda>ti. ti\<lparr>time_delay := word_of_int (preignite_us C)\<rparr>) til))"
  let ?delays = "[on_list (til_set_delay ign2 (word_of_int (preignite_us C))),
    on_list (til_set_delay ign3 (word_of_int (hotflow_us C))),
    on_list (til_set_delay gitvc (word_of_int (gitvc_wait_time C)))]"
  have run: "worker_visitor_new C junk p = exec ?delays s0"
    unfolding worker_visitor_new_def new s0_def by simp
  have eq: "exec ?delays s0 = Inr (s0\<lparr>ti_list := til'\<rparr>)"
    using wf by (simp add: on_list_def stage_ops s0 til'_def)
  have cb: "cb_wf (circular_buffer_new (push_bit 17 12) j)" for j
    by (simp add: cb_wf_def circular_buffer_new_def push_bit_eq_mult)
  have "heap_wf hp" using assms(2) cb by (auto simp: heap_wf_def t(3) list_all_iff)
  moreover have "wiring_ok hp (tis til)"
    using temp_ti_list_wf(2) [of "length (heap p)" hp til] t by simp
  moreover have "queues_ok s0" using assms(1) by (auto simp: queues_ok_def s0 t(3) nqi_ok_def list_all_iff) 
  ultimately have s0_wf: "vis_wf s0" using wf by (simp add: vis_wf_def s0)
  have "ensures (vis_wf :: worker_visitor \<Rightarrow> bool) (exec ?delays) vis_wf" by (intro keeps_rules keeps) simp_all
  from ensuresE [OF this s0_wf] eq have "vis_wf (s0\<lparr>ti_list := til'\<rparr>)" by (metis sum.inject(2))
  moreover have "\<not> enabled (til_item ign2 til)" "\<not> enabled (til_item ign3 til)"
    by (simp_all add: til_item_def t(1) temp_ti_list_def timed_item_new_def)
  moreover have "til_item ign2 til' = (til_item ign2 til)\<lparr>time_delay := word_of_int (preignite_us C)\<rparr>"
    "til_item ign3 til' = (til_item ign3 til)\<lparr>time_delay := word_of_int (hotflow_us C)\<rparr>"
    using wf by (simp_all add: til'_def stage_items stage_ops til_upd_eq(2))
  ultimately show thesis by (intro that [OF run [unfolded eq]]) (simp_all add: s0)
qed

text \<open>The state from which the threads of a Luna run, and that of a Titan.\<close>

definition luna_start :: "config \<Rightarrow> luna_visitor \<Rightarrow> bool" where
  "luna_start C s \<longleftrightarrow> luna_wf C s \<and> burn_inv C s \<and> \<not> burn_on s \<and> timeout (nw s) = 0
     \<and> safe_pins (trace s) \<and> \<not> enabled (til_item ign2 (ti_list s)) \<and> \<not> enabled (til_item ign3 (ti_list s))
     \<and> q (qn s) = [null_nqi\<lparr>nqi_action := nq_recv\<rparr>] \<and> q (qw s) = []"

definition titan_start :: "titan_visitor \<Rightarrow> bool" where
  "titan_start s \<longleftrightarrow> vis_wf s \<and> \<not> burn_on s \<and> timeout (nw s) = 0 \<and> safe_pins (trace s)
     \<and> \<not> enabled (til_item ign2 (ti_list s)) \<and> \<not> enabled (til_item ign3 (ti_list s))
     \<and> q (qn s) = [null_nqi\<lparr>nqi_action := nq_recv\<rparr>] \<and> q (qw s) = []"

lemma start_threads_returns:
  assumes "engine_type C = 0 \<or> engine_type C = 1" and "safe_pins tr"
  shows "\<exists>out. start_threads E m junk C p tr = Inr out
    \<and> (if engine_type C = 0 then \<exists>s. out = Luna_runs C s \<and> port (nw s) = int_of_unsigned p \<and> (config_ok C \<longrightarrow> luna_start C s)
       else \<exists>s. out = Titan_runs C s \<and> port (nw s) = int_of_unsigned p \<and> titan_start s)"
proof -
  define s0 where "s0 = first_process E m junk p tr"
  note p = first_process_ok [OF s0_def [symmetric]]
  obtain v where v: "worker_visitor_new C junk s0 = Inr v" "vis_wf v" "\<not> burn_on v" "nw v = nw s0" "trace v = trace s0"
    "qn v = qn s0" "qw v = qw s0" "time_delay (til_item ign3 (ti_list v)) = word_of_int (hotflow_us C)"
    "\<not> enabled (til_item ign2 (ti_list v))" "\<not> enabled (til_item ign3 (ti_list v))"
    using worker_visitor_new_ok [OF p(1,2), of C junk] by metis
  have safe: "safe_pins (trace v)" using assms(2) p(7) v(5) by (simp add: safe_pins_def)
  show ?thesis
  proof (cases "engine_type C = 0")
    case True
    define l :: luna_visitor where "l = worker_visitor.extend v (luna_visitor.fields False 0)"
    have l: "heap l = heap v" "qn l = qn v" "qw l = qw v" "nw l = nw v" "trace l = trace v" "ti_list l = ti_list v"
      "burn_on l = burn_on v" "gitvc_count l = 0"
      by (simp_all add: l_def worker_visitor.defs luna_visitor.defs)
    have "vis_wf l" using v(2) by (simp add: vis_wf_defs l)
    then have "luna_start C l" if "config_ok C"
      using that v p safe by (simp add: luna_start_def luna_wf_def count_ok_def burn_inv_def l)
    moreover have "start_threads E m junk C p tr = Inr (Luna_runs C l)"
      using True v(1) by (simp add: start_threads_def luna_visitor_new_def l_def flip: s0_def)
    ultimately show ?thesis using True p(4) v(4) l(4) by auto
  next
    case False
    have "titan_start v" using v p safe by (simp add: titan_start_def)
    moreover have "start_threads E m junk C p tr = Inr (Titan_runs C v)"
      using False v(1) by (simp add: start_threads_def titan_visitor_new_def flip: s0_def)
    ultimately show ?thesis using False p(4) v(4) by auto
  qed
qed

lemma start_hardware_returns:
  "\<exists>out. start_hardware E j8_24 m junk C p [] = Inr out
    \<and> (case out of
         Main_returns r tr \<Rightarrow> r = 1 \<and> (pin_level tr = (\<lambda>p. None) \<or> safe_pins tr)
           \<and> (\<exists>ok us. tr = Bcm_init ok # us)
       | Luna_runs D s \<Rightarrow> D = C \<and> engine_type C = 0 \<and> port (nw s) = int_of_unsigned p \<and> (config_ok C \<longrightarrow> luna_start C s)
       | Titan_runs D s \<Rightarrow> D = C \<and> engine_type C = 1 \<and> port (nw s) = int_of_unsigned p \<and> titan_start s
       | Uncaught_exception \<Rightarrow> False)"
proof (cases "env_bcm E [] \<and> (engine_type C = 0 \<or> engine_type C = 1)")
  case False
  then show ?thesis
    by (auto simp: start_hardware_def Let_def stderr_line_def pin_level_def)
next
  case True
  define tr where "tr = (if engine_type C = 0 then initialize_pins [Bcm_init True] else titan_initialize_pins [Bcm_init True])"
  have "safe_pins tr" by (simp add: tr_def safe_pins_def pin_level_titan_init pin_level_init pin_defs)
  moreover have "\<exists>us. tr = Bcm_init True # us"
    by (simp add: tr_def initialize_pins_def titan_initialize_pins_def)
  ultimately have tr: "safe_pins tr" "\<exists>us. tr = Bcm_init True # us" by simp_all
  obtain r tr1 where spi: "initialize_spi E tr = (r, tr1)" by (meson surj_pair)
  then have tr1: "safe_pins tr1" "\<exists>us. tr1 = Bcm_init True # us"
    using tr initialize_spi_pins [OF spi] by (auto simp: safe_pins_def initialize_spi_def Let_def split: if_splits)
  obtain tr2 where adc: "test_adcs E j8_24 tr1 = Inr tr2" "pin_level tr2 = (pin_level tr1)(ADC_2_CS \<mapsto> HIGH)"
    using test_adcs_returns by blast
  then have tr2: "safe_pins tr2" using tr1(1) by (simp add: safe_pins_def pin_defs)
  have run: "start_hardware E j8_24 m junk C p [] =
      (if r \<noteq> 0 then Inr (Main_returns 1 (stderr_line ''Could not initialize SPI.'' tr1))
       else if env_atexit E \<noteq> 0 then Inr (Main_returns 1 (stderr_line ''Could not register exit function.'' tr1))
       else start_threads E m junk C p tr2)"
    using True spi adc(1) unfolding start_hardware_def tr_def by (auto simp: Let_def)
  have "safe_pins (stderr_line msg tr1)" "\<exists>ok us. stderr_line msg tr1 = Bcm_init ok # us" for msg
    using tr1 by (auto simp: safe_pins_def stderr_line_def)
  moreover note start_threads_returns [of C tr2 E m junk p] tr2 True
  ultimately show ?thesis unfolding run by (auto split: if_splits)
qed

section \<open>Properties\<close>

lemma times_1000_Inr: "times_1000 ms = Inr us \<longleftrightarrow> in_int (ms * 1000) \<and> us = ms * 1000"
  by (auto simp: times_1000_def)

text \<open>Every outcome of \<open>main\<close>, with the settings that the threads start with.\<close>

definition settings :: "ini_config \<Rightarrow> config" where
  "settings ini = (ini_globals ini)\<lparr>preignite_us := ini_preignite_ms ini * 1000, hotflow_us := ini_hotflow_ms ini * 1000\<rparr>"

definition checked :: "ini_config \<Rightarrow> network_worker \<Rightarrow> bool" where
  "checked ini n \<longleftrightarrow> 0 \<le> preignite_us (settings ini) \<and> preignite_us (settings ini) \<le> 5000000
     \<and> 0 \<le> hotflow_us (settings ini) \<and> hotflow_us (settings ini) \<le> INT_MAX
     \<and> 0 < ini_port ini \<and> port n = int_of_unsigned (ini_port ini)"

lemma main_program_outcomes:
  "case main_program E po j8_24 m junk argv of
      Inl e \<Rightarrow> e = Undefined \<and> (\<exists>ini. init_config po (argv ! 1) = Some ini
        \<and> \<not> (in_int (ini_preignite_ms ini * 1000) \<and> in_int (ini_hotflow_ms ini * 1000)))
    | Inr Uncaught_exception \<Rightarrow> init_config po (argv ! 1) = None
    | Inr (Main_returns r tr) \<Rightarrow> r = 1 \<and> (pin_level tr = (\<lambda>p. None) \<or> safe_pins tr)
    | Inr (Luna_runs C s) \<Rightarrow> engine_type C = 0 \<and> (\<exists>ini. init_config po (argv ! 1) = Some ini \<and> C = settings ini
        \<and> checked ini (nw s)) \<and> (config_ok C \<longrightarrow> luna_start C s)
    | Inr (Titan_runs C s) \<Rightarrow> engine_type C = 1 \<and> (\<exists>ini. init_config po (argv ! 1) = Some ini \<and> C = settings ini
        \<and> checked ini (nw s)) \<and> titan_start s"
proof -
  consider (usage) "length argv < 2" | (config) "2 \<le> length argv" "init_config po (argv ! 1) = None"
    | (ini) ini where "2 \<le> length argv" "init_config po (argv ! 1) = Some ini" by force
  then show ?thesis
  proof cases
    case (ini ini)
    let ?p = "ini_preignite_ms ini * 1000" and ?h = "ini_hotflow_ms ini * 1000"
    show ?thesis
    proof (cases "in_int ?p \<and> in_int ?h")
      case False
      then have "main_program E po j8_24 m junk argv = Inl Undefined"
        using ini by (auto simp: main_program_def times_1000_def)
      with ini False show ?thesis by simp
    next
      case True
      consider (bad) msg where "main_program E po j8_24 m junk argv = Inr (Main_returns 1 (stderr_line msg []))"
        | (start) "main_program E po j8_24 m junk argv = start_hardware E j8_24 m junk (settings ini) (ini_port ini) []"
            "0 \<le> ?p" "?p \<le> 5000000" "0 \<le> ?h" "0 < ini_port ini"
      proof (cases "?p < 0 \<or> ?p > 5000000 \<or> ini_hotflow_ms ini < 0 \<or> ini_hotflow_ms ini > 15000000 \<or> ini_port ini \<le> 0")
        case True
        with \<open>in_int ?p \<and> in_int ?h\<close> ini have
          "\<exists>msg. main_program E po j8_24 m junk argv = Inr (Main_returns 1 (stderr_line msg []))"
          by (auto simp: main_program_def times_1000_def)
        with bad show thesis by blast
      next
        case False
        with \<open>in_int ?p \<and> in_int ?h\<close> ini show thesis
          by (intro start) (simp_all add: main_program_def times_1000_def settings_def)
      qed
      then show ?thesis
      proof cases
        case bad
        then show ?thesis by (simp add: stderr_line_def pin_level_def fun_eq_iff)
      next
        case start
        have "?h \<le> INT_MAX" using True by (simp add: in_int_def)
        with start have ok: "checked ini n \<longleftrightarrow> port n = int_of_unsigned (ini_port ini)" for n
          by (simp add: checked_def settings_def)
        obtain out where run: "start_hardware E j8_24 m junk (settings ini) (ini_port ini) [] = Inr out"
          and out: "case out of
              Main_returns r tr \<Rightarrow> r = 1 \<and> (pin_level tr = (\<lambda>p. None) \<or> safe_pins tr) \<and> (\<exists>ok us. tr = Bcm_init ok # us)
            | Luna_runs D s \<Rightarrow> D = settings ini \<and> engine_type (settings ini) = 0
                \<and> port (nw s) = int_of_unsigned (ini_port ini) \<and> (config_ok (settings ini) \<longrightarrow> luna_start (settings ini) s)
            | Titan_runs D s \<Rightarrow> D = settings ini \<and> engine_type (settings ini) = 1
                \<and> port (nw s) = int_of_unsigned (ini_port ini) \<and> titan_start s
            | Uncaught_exception \<Rightarrow> False"
          using start_hardware_returns [of E j8_24 m junk "settings ini" "ini_port ini"] by blast
        then show ?thesis using ini(2) start(1) ok by (cases out) auto
      qed
    qed
  qed (auto simp: main_program_def pin_level_def fun_eq_iff)
qed

text \<open>What a run of \<open>main\<close> that starts the threads has checked.\<close>

lemma main_program_cases:
  assumes "main_program E po j8_24 m junk argv = Inr out"
  shows "case out of
      Uncaught_exception \<Rightarrow> init_config po (argv ! 1) = None
    | Main_returns r tr \<Rightarrow> r = 1 \<and> (pin_level tr = (\<lambda>p. None) \<or> safe_pins tr)
    | Luna_runs C s \<Rightarrow> engine_type C = 0 \<and> 0 \<le> preignite_us C \<and> preignite_us C \<le> 5000000
        \<and> 0 \<le> hotflow_us C \<and> hotflow_us C \<le> INT_MAX \<and> (config_ok C \<longrightarrow> luna_start C s)
    | Titan_runs C s \<Rightarrow> engine_type C = 1 \<and> 0 \<le> preignite_us C \<and> preignite_us C \<le> 5000000
        \<and> 0 \<le> hotflow_us C \<and> hotflow_us C \<le> INT_MAX \<and> titan_start s"
  using main_program_outcomes [of po argv E j8_24 m junk] assms
  by (auto simp: checked_def split: main_outcome.splits)

text \<open>A configuration that works: \<open>src/final/coldflow.ini\<close>.\<close>

definition coldflow_ini :: "string \<Rightarrow> ini_store option" where
  "coldflow_ini f =
     (if f = ''coldflow.ini'' then
        Some (map_of
          [(''Server.Port'', Ini_nat 1234), (''Server.Protocol'', Ini_string ''TCP''),
           (''Control.engine_type'', Ini_int 0), (''Control.use_gitvc'', Ini_bool False),
           (''Control.Preignite_ms'', Ini_int 750), (''Control.Hotflow_ms'', Ini_int 2000),
           (''Control.Ignition_on'', Ini_bool False), (''Pressure.Pressure_shutoff'', Ini_bool False),
           (''Pressure.Pressure_slope'', Ini_float (-2820505 / 10000000)),
           (''Pressure.Pressure_yint'', Ini_float (10645 / 10)),
           (''Pressure.Pressure_max'', Ini_int 800), (''Pressure.Pressure_min'', Ini_int 300)])
      else None)"

definition coldflow_config :: ini_config where
  "coldflow_config = \<lparr>ini_port = 1234, ini_preignite_ms = 750, ini_hotflow_ms = 2000,
     ini_globals = \<lparr>engine_type = 0, time_between_gitvc = 0, gitvc_wait_time = 0,
       pressure_slope = -2820505 / 10000000, pressure_yint = 10645 / 10, pressure_min = 300, pressure_max = 800,
       preignite_us = 0, hotflow_us = 0, ignition_on = False, pressure_shutoff = False,
       use_gitvc = False, gitvc_times = []\<rparr>\<rparr>"

lemma init_config_coldflow: "init_config coldflow_ini ''coldflow.ini'' = Some coldflow_config"
  by (simp add: init_config_def coldflow_ini_def ini_store_defaults_def ini_options_def in_int_def
      INT_MIN_def INT_MAX_def coldflow_config_def)

text \<open>With acceptable settings and hardware that comes up, \<open>main\<close> starts the threads.\<close>

lemma main_starts:
  assumes "2 \<le> length argv" and "init_config po (argv ! 1) = Some ini"
    and "0 \<le> ini_preignite_ms ini" and "ini_preignite_ms ini \<le> 5000"
    and "0 \<le> ini_hotflow_ms ini" and "ini_hotflow_ms ini \<le> 2147483"
    and "0 < ini_port ini" and "engine_type (ini_globals ini) = 0 \<or> engine_type (ini_globals ini) = 1"
    and "\<And>tr. env_bcm E tr" and "env_atexit E = 0"
  defines "C \<equiv> (ini_globals ini)\<lparr>preignite_us := ini_preignite_ms ini * 1000, hotflow_us := ini_hotflow_ms ini * 1000\<rparr>"
  shows "if engine_type C = 0 then \<exists>s. main_program E po j8_24 m junk argv = Inr (Luna_runs C s)
    else \<exists>s. main_program E po j8_24 m junk argv = Inr (Titan_runs C s)"
proof -
  have times: "times_1000 (ini_preignite_ms ini) = Inr (ini_preignite_ms ini * 1000)"
    "times_1000 (ini_hotflow_ms ini) = Inr (ini_hotflow_ms ini * 1000)"
    using assms(3-6) by (simp_all add: times_1000_def in_int_def INT_MIN_def INT_MAX_def)
  have run: "main_program E po j8_24 m junk argv = start_hardware E j8_24 m junk C (ini_port ini) []"
    using assms(1-7) by (simp add: main_program_def times C_def)
  define tr where "tr = (if engine_type C = 0 then initialize_pins [Bcm_init True] else titan_initialize_pins [Bcm_init True])"
  obtain tr1 where spi: "initialize_spi E tr = (0, tr1)"
    using assms(9) by (simp add: initialize_spi_def Let_def)
  obtain tr2 where adc: "test_adcs E j8_24 tr1 = Inr tr2" "pin_level tr2 = (pin_level tr1)(ADC_2_CS \<mapsto> HIGH)"
    using test_adcs_returns by blast
  have "safe_pins tr" by (simp add: tr_def safe_pins_def pin_level_titan_init pin_level_init pin_defs)
  then have "safe_pins tr2" using adc(2) initialize_spi_pins [OF spi] by (simp add: safe_pins_def pin_defs)
  moreover have C: "engine_type C = 0 \<or> engine_type C = 1" using assms(8) by (simp add: C_def)
  ultimately obtain out where "start_threads E m junk C (ini_port ini) tr2 = Inr out"
    "if engine_type C = 0 then \<exists>s. out = Luna_runs C s else \<exists>s. out = Titan_runs C s"
    using start_threads_returns [of C tr2 E m junk "ini_port ini"] by (auto split: if_splits)
  moreover have "start_hardware E j8_24 m junk C (ini_port ini) [] = start_threads E m junk C (ini_port ini) tr2"
    using C assms(9,10) spi adc(1) unfolding start_hardware_def tr_def by (auto simp: Let_def)
  ultimately show ?thesis unfolding run by (auto split: if_splits)
qed

text \<open>The configuration of \<open>coldflow.ini\<close> after \<open>main\<close> has converted the times.\<close>

definition sample_run :: "main_outcome \<Rightarrow> bool" where
  "sample_run out \<longleftrightarrow> main_program sample_env coldflow_ini RPI_V2_GPIO_P1_24 sample_network (\<lambda>a i. 0)
     [''final'', ''coldflow.ini''] = Inr out"

lemma sample_run_luna:
  "\<exists>s. sample_run (Luna_runs ((ini_globals coldflow_config)\<lparr>preignite_us := 750000, hotflow_us := 2000000\<rparr>) s)"
  using main_starts [of "[''final'', ''coldflow.ini'']" coldflow_ini coldflow_config sample_env
      RPI_V2_GPIO_P1_24 sample_network "\<lambda>a i. 0"] init_config_coldflow
  by (simp add: sample_run_def coldflow_config_def sample_env_def)



text \<open>
  C1. A Luna controller from start to end, whatever the sensors, the clients and the files do and however the rounds of its
  two threads interleave, with fewer than \<open>INT_MAX\<close> pulse times configured. In every state that it reaches from \<open>main\<close> on, its
  data is well-formed, and no burn is unattended: a burn that is on has its end armed since the moment the main valve was
  opened, with the configured length. It throws no exception, and there are three ways to stop. It calls \<open>exit(1)\<close>, with the
  pins as they were; the exit handler then shuts everything, and what can take a pin from its safe state again before the
  process is gone is only a command, an ignition, the start of a burn or a pulse that the worker, which nobody stops, visits
  meanwhile. It is killed by \<open>SIGPIPE\<close> at a write to a broken socket, with the pins as they were: nothing shuts the
  valves. Or it meets undefined behaviour, in one place only: the missing return value of \<open>send_header\<close>, when the network
  thread takes a send out of its queue and the compiler does not let such a call return. (Not counted is what the model takes
  as defined: the first value of \<open>connected\<close>, which nothing sets, as an arbitrary \<open>bool\<close>, and the two threads' unsynchronised
  accesses to that flag and the rings, round by round.)
\<close>

theorem luna_program_safe:
  assumes "main_program E po j8_24 m junk argv = Inr (Luna_runs C s)" and "config_ok C"
    and "(sys_step (luna_visit E C) E udp)\<^sup>*\<^sup>* s s'"
  shows "luna_wf C s' \<and> burn_inv C s'
    \<and> (\<forall>e. sys_stop (luna_visit E C) E udp s' e \<longrightarrow> (case e of
         Exit status tr \<Rightarrow> status = 1 \<and> pin_level tr = pin_level (trace s')
           \<and> (\<forall>xs u. exiting (luna_visit E C) (s'\<lparr>trace := tr\<rparr>) xs [] u \<longrightarrow>
                luna_wf C u \<and> ((\<forall>x \<in> set xs. \<not> luna_opener x) \<longrightarrow> safe_pins (trace u)))
       | Killed tr \<Rightarrow> pin_level tr = pin_level (trace s')
       | Undefined \<Rightarrow> missing_return E = None \<and> nqi_action (fst (poll (qn s'))) = nq_send
       | Out_of_range \<Rightarrow> False))"
proof -
  have s: "luna_wf C s" "timeout (nw s) = 0" "burn_inv C s"
    using main_program_cases [OF assms(1)] assms(2) by (simp_all add: luna_start_def)
  note s' = luna_run_safe [OF assms(3) s(1,2)] and burn = luna_run_burn_inv [OF assms(3) s]
  have exits: "luna_wf C u \<and> ((\<forall>x \<in> set xs. \<not> luna_opener x) \<longrightarrow> safe_pins (trace u))"
    if "exiting (luna_visit E C) (s'\<lparr>trace := tr\<rparr>) xs [] u" for tr xs u
    using luna_exit.exiting_ok [OF that luna.ok_trace [OF s'(1)]] luna_exit.exit_safe [OF that luna.ok_trace [OF s'(1)]]
    by blast
  have "case e of
         Exit status tr \<Rightarrow> status = 1 \<and> pin_level tr = pin_level (trace s')
           \<and> (\<forall>xs u. exiting (luna_visit E C) (s'\<lparr>trace := tr\<rparr>) xs [] u \<longrightarrow>
                luna_wf C u \<and> ((\<forall>x \<in> set xs. \<not> luna_opener x) \<longrightarrow> safe_pins (trace u)))
       | Killed tr \<Rightarrow> pin_level tr = pin_level (trace s')
       | Undefined \<Rightarrow> missing_return E = None \<and> nqi_action (fst (poll (qn s'))) = nq_send
       | Out_of_range \<Rightarrow> False" if "sys_stop (luna_visit E C) E udp s' e" for e
    using s'(3) [OF that] exits by (cases e) (simp_all add: stop_ok_def)
  with s'(1) burn show ?thesis by blast
qed

theorem luna_program_safe_witness:
  "\<exists>C s s'. sample_run (Luna_runs C s) \<and> sys_step (luna_visit sample_env C) sample_env False s s' \<and> luna_wf C s'"
proof -
  obtain C s where s: "sample_run (Luna_runs C s)" "config_ok C"
    using sample_run_luna by (force simp: config_ok_def coldflow_config_def INT_MAX_def)
  then have "luna_wf C s"
    using main_program_cases [of sample_env coldflow_ini] by (fastforce simp: sample_run_def luna_start_def)
  then obtain s' where "worker_step (luna_visit sample_env C) s = Inr s'"
    using luna.worker_round_ok by blast
  then have step: "sys_step (luna_visit sample_env C) sample_env False s s'" by (rule worker_round)
  then have run: "(sys_step (luna_visit sample_env C) sample_env False)\<^sup>*\<^sup>* s s'" by (rule r_into_rtranclp)
  from luna_program_safe [OF s(1) [unfolded sample_run_def] s(2) run] s step show ?thesis by blast
qed

text \<open>
  C25. A Titan controller from start to end, in the same way and with no condition on the configuration: its data stays
  well-formed, it throws no exception, and it stops by \<open>exit(1)\<close>, with the pins as they were, after which the handler shuts
  everything and only a command or an ignition that the worker still visits can take a pin from its safe state; by
  \<open>SIGPIPE\<close>, with the pins as they were and nothing that shuts the valves; or by undefined behaviour at the missing return
  value of \<open>send_header\<close>, with the same two things taken as defined.
\<close>

theorem titan_program_safe:
  assumes "main_program E po j8_24 m junk argv = Inr (Titan_runs C s)"
    and "(sys_step (titan_visit E C) E udp)\<^sup>*\<^sup>* s s'"
  shows "vis_wf s'
    \<and> (\<forall>e. sys_stop (titan_visit E C) E udp s' e \<longrightarrow> (case e of
         Exit status tr \<Rightarrow> status = 1 \<and> pin_level tr = pin_level (trace s')
           \<and> (\<forall>xs u. exiting (titan_visit E C) (s'\<lparr>trace := tr\<rparr>) xs [] u \<longrightarrow>
                vis_wf u \<and> ((\<forall>x \<in> set xs. \<not> titan_opener x) \<longrightarrow> safe_pins (trace u)))
       | Killed tr \<Rightarrow> pin_level tr = pin_level (trace s')
       | Undefined \<Rightarrow> missing_return E = None \<and> nqi_action (fst (poll (qn s'))) = nq_send
       | Out_of_range \<Rightarrow> False))"
proof -
  have s: "vis_wf s" "timeout (nw s) = 0"
    using main_program_cases [OF assms(1)] by (simp_all add: titan_start_def)
  note s' = titan_run_safe [OF assms(2) s]
  have exits: "vis_wf u \<and> ((\<forall>x \<in> set xs. \<not> titan_opener x) \<longrightarrow> safe_pins (trace u))"
    if "exiting (titan_visit E C) (s'\<lparr>trace := tr\<rparr>) xs [] u" for tr xs u
    using titan_exit.exiting_ok [OF that titan.ok_trace [OF s'(1)]] titan_exit.exit_safe [OF that titan.ok_trace [OF s'(1)]]
    by blast
  have "case e of
         Exit status tr \<Rightarrow> status = 1 \<and> pin_level tr = pin_level (trace s')
           \<and> (\<forall>xs u. exiting (titan_visit E C) (s'\<lparr>trace := tr\<rparr>) xs [] u \<longrightarrow>
                vis_wf u \<and> ((\<forall>x \<in> set xs. \<not> titan_opener x) \<longrightarrow> safe_pins (trace u)))
       | Killed tr \<Rightarrow> pin_level tr = pin_level (trace s')
       | Undefined \<Rightarrow> missing_return E = None \<and> nqi_action (fst (poll (qn s'))) = nq_send
       | Out_of_range \<Rightarrow> False" if "sys_stop (titan_visit E C) E udp s' e" for e
    using s'(3) [OF that] exits by (cases e) (simp_all add: stop_ok_def)
  with s'(1) show ?thesis by blast
qed

definition titan_ini :: "string \<Rightarrow> ini_store option" where
  "titan_ini f = map_option (\<lambda>m. m(''Control.engine_type'' \<mapsto> Ini_int 1)) (coldflow_ini ''coldflow.ini'')"

lemma titan_ini_starts:
  "\<exists>C s. main_program sample_env titan_ini RPI_V2_GPIO_P1_24 sample_network (\<lambda>a i. 0)
     [''final'', ''titan.ini''] = Inr (Titan_runs C s)"
proof -
  have ini: "init_config titan_ini ''titan.ini'' = Some (coldflow_config\<lparr>ini_globals :=
      (ini_globals coldflow_config)\<lparr>engine_type := 1\<rparr>\<rparr>)"
    by (simp add: init_config_def titan_ini_def coldflow_ini_def ini_store_defaults_def ini_options_def
        in_int_def INT_MIN_def INT_MAX_def coldflow_config_def)
  then show ?thesis
    using main_starts [of "[''final'', ''titan.ini'']" titan_ini _ sample_env
        RPI_V2_GPIO_P1_24 sample_network "\<lambda>a i. 0"]
    by (fastforce simp: coldflow_config_def sample_env_def)
qed

theorem titan_program_safe_witness:
  "\<exists>C s s'. main_program sample_env titan_ini RPI_V2_GPIO_P1_24 sample_network (\<lambda>a i. 0)
       [''final'', ''titan.ini''] = Inr (Titan_runs C s)
     \<and> sys_step (titan_visit sample_env C) sample_env False s s' \<and> vis_wf s'"
proof -
  obtain C s where s: "main_program sample_env titan_ini RPI_V2_GPIO_P1_24 sample_network (\<lambda>a i. 0)
      [''final'', ''titan.ini''] = Inr (Titan_runs C s)"
    using titan_ini_starts by blast
  then have "vis_wf s" using main_program_cases [OF s] by (simp add: titan_start_def)
  then obtain s' where "worker_step (titan_visit sample_env C) s = Inr s'"
    using titan.worker_round_ok by blast
  then have step: "sys_step (titan_visit sample_env C) sample_env False s s'" by (rule worker_round)
  then have run: "(sys_step (titan_visit sample_env C) sample_env False)\<^sup>*\<^sup>* s s'" by (rule r_into_rtranclp)
  from titan_program_safe [OF s run] s step show ?thesis by blast
qed

text \<open>
  C35. The upper limit on the length of a burn is dead code. It compares milliseconds with
  15000000, the number of microseconds in fifteen seconds: a length up to 2147483 ms, more than
  half an hour, is accepted, and a longer one is undefined behaviour in the multiplication before
  the check, so that no non-negative length is ever refused.
\<close>

theorem hotflow_limit_is_dead:
  assumes "2 \<le> length argv" and "init_config po (argv ! 1) = Some ini" and "0 \<le> ini_hotflow_ms ini"
  shows "main_program E po j8_24 m junk argv \<noteq> Inr (Main_returns 1 (stderr_line ''Incorrect hotflow time.'' []))
    \<and> (2147483 < ini_hotflow_ms ini \<longrightarrow> main_program E po j8_24 m junk argv = Inl Undefined)"
proof
  let ?h = "ini_hotflow_ms ini"
  let ?bad = "Inr (Main_returns 1 (stderr_line ''Incorrect hotflow time.'' []))"
  have "?h \<le> 15000000" if "in_int (?h * 1000)" using that by (simp add: in_int_def INT_MAX_def)
  moreover have "start_hardware E j8_24 m junk C p [] \<noteq> ?bad" for C p
    using start_hardware_returns [of E j8_24 m junk C p] by (auto simp: stderr_line_def)
  ultimately show "main_program E po j8_24 m junk argv \<noteq> ?bad"
    using assms by (auto simp: main_program_def times_1000_def stderr_line_def)
  show "2147483 < ?h \<longrightarrow> main_program E po j8_24 m junk argv = Inl Undefined"
    using assms by (auto simp: main_program_def times_1000_def in_int_def INT_MAX_def)
qed

theorem hotflow_limit_is_dead_witness:
  "main_program sample_env (\<lambda>f. map_option (\<lambda>m. m(''Control.Hotflow_ms'' \<mapsto> Ini_int 3000000))
       (coldflow_ini f)) RPI_V2_GPIO_P1_24 sample_network (\<lambda>a i. 0) [''final'', ''coldflow.ini''] = Inl Undefined"
proof -
  let ?po = "\<lambda>f. map_option (\<lambda>m. m(''Control.Hotflow_ms'' \<mapsto> Ini_int 3000000)) (coldflow_ini f)"
  have "init_config ?po ''coldflow.ini'' = Some (coldflow_config\<lparr>ini_hotflow_ms := 3000000\<rparr>)"
    by (simp add: init_config_def coldflow_ini_def ini_store_defaults_def ini_options_def
        in_int_def INT_MIN_def INT_MAX_def coldflow_config_def)
  then show ?thesis
    using hotflow_limit_is_dead [of "[''final'', ''coldflow.ini'']" ?po] by simp
qed

text \<open>How \<open>init_config\<close> reads an option that has the type of its variable, if it is there.\<close>

definition or_default :: "'a option \<Rightarrow> 'a \<Rightarrow> 'a" where
  "or_default x d = (case x of None \<Rightarrow> d | Some v \<Rightarrow> v)"

lemma stored_required:
  "file k = map_option c x \<Longrightarrow> map_of ini_options k = Some Required \<Longrightarrow> ini_store_defaults file k = map_option c x"
  "file k = map_option c x \<Longrightarrow> map_of ini_options k = Some Optional \<Longrightarrow> ini_store_defaults file k = map_option c x"
  by (cases x; simp add: ini_store_defaults_def)+

lemma stored_default:
  "file k = map_option c x \<Longrightarrow> map_of ini_options k = Some (Default (c d)) \<Longrightarrow>
    ini_store_defaults file k = Some (c (or_default x d))"
  by (cases x) (simp_all add: ini_store_defaults_def or_default_def)

lemma bind_if_Some: "((if b then Some x else None) \<bind> f) = (if b then f x else None)"
  by simp


definition first_six :: ini_store where
  "first_six = map_of
     [(''Server.Port'', Ini_nat 1234), (''Control.Ignition_on'', Ini_bool True), (''Control.Preignite_ms'', Ini_int 750),
      (''Control.Hotflow_ms'', Ini_int 2000), (''Pressure.Pressure_slope'', Ini_float 1), (''Pressure.Pressure_yint'', Ini_float 0)]"


end
