(* ===== verification/OnLine.thy ===== *)
theory OnLine
  imports Network
begin

text \<open>
  What the network thread does while a client is there: polling and receiving on a connection that
  stays up neither lose it nor write to it. The echo server and the telemetry of the controller
  are judged on such a connection.
\<close>

section \<open>A connection that stays up\<close>

definition on_line :: "int \<Rightarrow> 'a process_scheme \<Rightarrow> bool" where
  "on_line fd s \<longleftrightarrow> connected (nw s) \<and> connfd_tcp (nw s) = fd \<and> connfd_udp (nw s) = -1 \<and> timeout (nw s) = 0"

text \<open>A peer that neither closes the connection nor stops taking bytes.\<close>

definition stays_up :: "env \<Rightarrow> int \<Rightarrow> bool" where
  "stays_up E fd \<longleftrightarrow> takes_all E fd \<and> (\<forall>tr. env_read E tr fd 1 \<noteq> Some [])"

lemma poll_pf_on_line:
  assumes "poll_pf E s = (r, u)"
  shows "on_line fd u = on_line fd s \<and> qn u = qn s \<and> qw u = qw s \<and> received (trace u) = received (trace s)
    \<and> fd_bytes (trace u) fd = fd_bytes (trace s) fd \<and> process.more u = process.more s \<and> base_time u = base_time s"
  using assms
  by (auto simp: poll_pf_def sys_poll_def set_nw_def on_line_def received_simps fd_bytes_one Let_def split: prod.splits)

lemma get_time_on_line:
  "get_time E base tr = (v, tr') \<Longrightarrow> received tr' = received tr \<and> fd_bytes tr' fd = fd_bytes tr fd"
  using get_time_fd_bytes get_time_quiet quiet_after_received by metis

lemma do_recv_on_line:
  assumes "on_line fd s" and "stays_up E fd" and "do_recv E fd 1 s = Inr (result, bs, u)"
  shows "on_line fd u \<and> qn u = qn s \<and> qw u = qw s \<and> received (trace u) = received (trace s) @ bs
    \<and> fd_bytes (trace u) fd = fd_bytes (trace s) fd \<and> length bs \<le> 1 \<and> (result \<le> 0 \<longleftrightarrow> bs = [])
    \<and> process.more u = process.more s"
proof -
  obtain r s1 where p: "poll_pf E s = (r, s1)" by (meson surj_pair)
  note s1 = poll_pf_on_line [OF p, of fd]
  obtain n bs' tr where rd: "sys_read E fd 1 (trace s1) = (n, bs', tr)" by (meson prod_cases3)
  note t = sys_read_trace [OF rd]
  have up: "env_read E tr' fd 1 \<noteq> Some []" for tr' using assms(2) by (simp add: stays_up_def)
  have n: "n \<noteq> 0" using rd up [of "trace s1"] by (auto simp: sys_read_def Let_def min_def split: option.splits if_splits)
  obtain v tr1 where v: "get_time E (base_time s1) tr = (v, tr1)" by (meson surj_pair)
  note v' = get_time_on_line [OF v, of fd]
  have "(if r \<ge> 0 then
      (if pf_revents (pf (nw s1)) AND POLLIN = 0 then Inr (-2, [], s1)
       else (case (if n > 0 then exec [touch_last_recv E, assign (set_nw (has_acked_update (\<lambda>_. False)))] else exec [])
                (s1\<lparr>trace := tr\<rparr>) of Inl e \<Rightarrow> Inl e | Inr s \<Rightarrow> Inr (n, bs', s)))
     else Inl (Exit 1 (trace s1 @ [Stderr ''Poll failed'']))) = Inr (result, bs, u)"
    using assms(3) n by (simp only: do_recv_def p prod.case rd simp_thms if_False)
  then show ?thesis
    using assms(1) s1 t v v'
    by (auto simp: touch_last_recv_def assign_def set_nw_def on_line_def received_simps fd_bytes_one split: if_splits)
qed

end
