(* ===== verification/Telemetry.thy ===== *)
theory Telemetry
  imports System OnLine
begin

text \<open>
  From the sensors to the client: the two threads composed. The worker appends readings to the rings and
  queues send items, the network thread turns each item into a frame; what arrives is, sensor by
  sensor, a gapless piece of the sensor's stream.
\<close>

section \<open>What telemetry is about\<close>

text \<open>The queue, the connection and the ranges sent so far, the rings, and the bytes on the wire.\<close>

type_synonym tele_state = "send_state \<times> circular_buffer list \<times> byte list"

definition tele_view :: "int \<Rightarrow> 'a worker_visitor_scheme \<Rightarrow> tele_state" where
  "tele_view fd s = (send_view s, heap s, fd_bytes (trace s) fd)"

text \<open>The code of sensor \<open>i\<close> in a header.\<close>

definition sensor_byte :: "nat \<Rightarrow> byte" where
  "sensor_byte i = of_nat (wq_code (item_actions ! i))"

text \<open>What a visit of the worker does to it: nothing, a reading, or a reading and a send.\<close>

inductive tele_visit :: "tele_state \<Rightarrow> tele_state \<Rightarrow> bool" where
  unseen: "tele_visit v v"
| reading: "i < 10 \<Longrightarrow> fst (ts ! i) = Some a \<Longrightarrow> length p = 16 \<Longrightarrow> add_data (hp ! a) p = Inr b \<Longrightarrow>
    tele_visit ((xs, n, ts), hp, w) ((xs, n, ts), hp[a := b], w)"
| sending: "i < 10 \<Longrightarrow> fst (ts ! i) = Some a \<Longrightarrow> length p = 16 \<Longrightarrow> add_data (hp ! a) p = Inr b \<Longrightarrow>
    nqi_action y = nq_send \<Longrightarrow> nqi_buff y = Some a \<Longrightarrow> nqi_data0 y = sensor_byte i \<Longrightarrow>
    total_bytes y = snd (ts ! i) \<Longrightarrow> nqi_nbytes y = bytes_written b - snd (ts ! i) \<Longrightarrow>
    tele_visit ((xs, n, ts), hp, w)
      ((xs @ (if connected n \<and> nqi_nbytes y > 0 then [y] else []), n, ts[i := (Some a, bytes_written b)]), hp[a := b], w)"

section \<open>What leaves it alone\<close>

lemma preserves_tele: "preserves send_view c \<Longrightarrow> preserves heap c \<Longrightarrow> preserves (\<lambda>s. fd_bytes (trace s) fd) c
    \<Longrightarrow> preserves (tele_view fd) c"
  by (simp add: preserves_def tele_view_def)

lemma preserves_heap_check:
  "check_ti_list_from u i k s = Inr s' \<Longrightarrow> heap s' = heap s \<and> trace s' = trace s"
proof (induction u i k s rule: check_ti_list_from.induct)
  case (1 u i k s)
  show ?case
    using "1.prems" "1.IH" by (subst (asm) check_ti_list_from.simps) (simp split: if_splits)
qed

lemma preserves_heap_statements [untouched]:
  "preserves heap (gpio p v)" "preserves heap (push_qw x)" "preserves heap (read_clock E)"
  "preserves heap (on_list g)" "preserves heap (enable_now a)" "preserves heap (set_ti i h)"
  "preserves heap (\<lambda>s. check_ti_list (g' s) s)" "preserves heap (visitDefault item)"
  "preserves heap (assign (burn_on_update f))" "preserves heap (assign (\<lambda>s. s\<lparr>start_time_nitr := k s\<rparr>))"
  by (auto simp: preserves_def process_stmts read_clock_def on_list_def enable_now_def set_ti_def
    check_ti_list_def preserves_heap_check visitDefault_def assign_def split: prod.splits sum.splits)

lemma preserves_wire_statements [untouched]:
  fixes fd :: int
  defines "wire \<equiv> (\<lambda>s :: 'a worker_visitor_scheme. fd_bytes (trace s) fd)"
  shows "preserves wire (gpio p v)" "preserves wire (push_qw x)" "preserves wire (read_clock E)"
  "preserves wire (on_list g)" "preserves wire (enable_now a)" "preserves wire (set_ti i h)"
  "preserves wire (\<lambda>s. check_ti_list (g' s) s)" "preserves wire (visitDefault item)"
  "preserves wire (assign (burn_on_update f))" "preserves wire (assign (\<lambda>s. s\<lparr>start_time_nitr := k s\<rparr>))"
  by (auto simp: preserves_def wire_def process_stmts read_clock_def on_list_def enable_now_def set_ti_def
    check_ti_list_def preserves_heap_check visitDefault_def assign_def gpio_write_def fd_bytes_one
    split: prod.splits sum.splits dest: get_time_fd_bytes)

lemma preserves_tele_statements [untouched]:
  "preserves (tele_view fd) (gpio p v)" "preserves (tele_view fd) (push_qw x)" "preserves (tele_view fd) (read_clock E)"
  "preserves (tele_view fd) (on_list (til_set_delay a d))" "preserves (tele_view fd) (on_list (til_disable a))"
  "preserves (tele_view fd) (enable_now a)" "preserves (tele_view fd) (set_ti i (\<lambda>s x. x\<lparr>scheduled := g s\<rparr>))"
  "preserves (tele_view fd) (\<lambda>s. check_ti_list (g' s) s)" "preserves (tele_view fd) (visitDefault item)"
  "preserves (tele_view fd) (assign (burn_on_update f))"
  "preserves (tele_view fd) (assign (\<lambda>s. s\<lparr>start_time_nitr := k s\<rparr>))"
  by (intro preserves_tele untouched)+

lemma preserves_tele_handlers [untouched]:
  "preserves (tele_view fd) (worker_visitIgn E C item)" "preserves (tele_view fd) (visitNone E item)"
  unfolding worker_visitIgn_def visitNone_def by (intro preserves_rules untouched)+

lemma preserves_tele_visitProc [untouched]: "preserves (tele_view fd) (worker_visitProc item)"
  unfolding worker_visitProc_def
  by (auto split: option.splits send_code.splits intro!: preserves_rules untouched)

section \<open>A visit of the worker\<close>

text \<open>The log files are not the connection.\<close>

definition logs_apart :: "env \<Rightarrow> int \<Rightarrow> bool" where
  "logs_apart E fd \<longleftrightarrow> (\<forall>tr f. env_open E tr f \<noteq> fd)"

lemma sys_write_other: "sys_write E g bs tr = (r, tr') \<Longrightarrow> g \<noteq> fd \<Longrightarrow> fd_bytes tr' fd = fd_bytes tr fd"
  by (auto simp: sys_write_def Let_def fd_bytes_one split: option.splits)

lemma write_data_other:
  assumes "write_data E b g n off tr = Inr (r, tr')" and "g \<noteq> fd"
  shows "fd_bytes tr' fd = fd_bytes tr fd"
  using assms
proof (induction E b g n off tr rule: write_data.induct)
  case (1 E b g n off tr)
  show ?case
    using "1.prems"(1)
    by (subst (asm) write_data.simps)
      (auto simp: Let_def fd_bytes_one sys_write_other [OF _ "1.prems"(2)] "1.IH" "1.prems"(2)
        split: if_splits sum.splits prod.splits)
qed

lemma write_from_nqi_other:
  assumes "write_from_nqi E hp item tr = Inr (r, tr')" and "logs_apart E fd"
  shows "fd_bytes tr' fd = fd_bytes tr fd"
  using assms
  by (auto simp: write_from_nqi_def write_buff_def sys_open_def sys_close_def logs_apart_def Let_def fd_bytes_one
      split: option.splits if_splits sum.splits prod.splits dest!: write_data_other)

lemma sampled_wire: "fd_bytes (trace (sampled E C i v tr s)) fd = fd_bytes tr fd"
  by (simp add: sampled_def pressure_step_def shut_down_def Let_def gpio_write_def fd_bytes_one)

lemma send_view_sent:
  "send_view (sent i bw s) =
     (q (qn s) @ (if connected (nw s) \<and> nqi_nbytes (nqi_for (nq_item s) bw (ti_at i s)) > 0
                  then [nqi_for (nq_item s) bw (ti_at i s)] else []),
      nw s, (snd (snd (send_view s)))[i := (ti_buffer (ti_at i s), bw)])"
  by (simp add: send_view_def sent_def Let_def map_update)

text \<open>A visit to a timed item of the base class.\<close>

lemma tele_sensor:
  assumes wf: "vis_wf s" and i: "extra_datap item = Some i" "i < 10"
    and out: "worker_visitTimed E C item s = Inr s'" and fd: "logs_apart E fd"
  shows "tele_visit (tele_view fd s) (tele_view fd s')"
proof -
  obtain u tr0 where u: "get_time E (base_time s) (trace s) = (u, tr0)" by (meson surj_pair)
  have i13: "i < 13" using i(2) by simp
  have sens: "at_sensor i s" using wf i(2) by (simp add: at_sensor_def)
  obtain a where a: "ti_buffer (ti_at i s) = Some a" using at_sensor_ring [OF sens] by auto
  obtain v tr where r: "read_item E (adc_info (ti_at i s)) tr0 = (v, tr)" by (meson surj_pair)
  obtain b s1 where b: "add_data (heap s ! a) (reading_bytes \<lparr>adc_dat = ucast v, adc_t = u\<rparr>) = Inr b"
    and s1: "s1 = (sampled E C i v tr (s\<lparr>now := u, trace := tr0\<rparr>))\<lparr>heap := (heap s)[a := b]\<rparr>" "vis_wf s1"
    and skip: "u - last_send (ti_at i s) \<le> 500000 \<Longrightarrow> worker_visitTimed E C item s = Inr s1"
    and send: "u - last_send (ti_at i s) > 500000 \<Longrightarrow> \<exists>r tr'.
      worker_visitTimed E C item s = Inr ((sent i (bytes_written b) s1)\<lparr>trace := tr'\<rparr>)
      \<and> write_from_nqi E (heap s1) (nqi_for (nq_item s) (bytes_written b) (ti_at i s)) (trace s1) = Inr (r, tr')"
    by (rule visitTimed_sensor [OF wf i u a r]) blast
  have wire: "fd_bytes (trace s1) fd = fd_bytes (trace s) fd"
    using read_item_fd_bytes [of E "adc_info (ti_at i s)" tr0 fd] r get_time_fd_bytes [OF u, of fd] by (simp add: s1(1) sampled_wire)
  have view: "send_view s1 = send_view s"
    using send_view_sampled [of i "s\<lparr>now := u, trace := tr0\<rparr>" E C v tr] wf i(2) by (simp add: s1(1) at_sensor_def)
  have ts: "snd (snd (send_view s)) ! i = (Some a, nbytes_last_send (ti_at i s))"
    using send_view_nth [OF wf i13] a by simp
  have ti1: "ti_at i s1 = (ti_at i s)\<lparr>scheduled := u\<rparr>"
    using ti_at_sampled [of i "s\<lparr>now := u, trace := tr0\<rparr>" E C v tr] wf i(2) by (simp add: s1(1) at_sensor_def)
  obtain xs n ts' where sv: "send_view s = (xs, n, ts')" by (meson prod_cases3)
  have sv': "xs = q (qn s1)" "n = nw s1" using view sv by (simp_all add: send_view_def)
  show ?thesis
  proof (cases "u - last_send (ti_at i s) \<le> 500000")
    case True
    then have "s' = s1" using skip out by simp
    then have "tele_view fd s' = ((xs, n, ts'), (heap s)[a := b], fd_bytes (trace s) fd)"
      using wire view sv s1(1) by (simp add: tele_view_def)
    then show ?thesis
      using tele_visit.reading [OF i(2) _ length_reading_bytes b] ts sv by (simp add: tele_view_def)
  next
    case False
    then obtain r tr' where s': "s' = (sent i (bytes_written b) s1)\<lparr>trace := tr'\<rparr>"
      and w: "write_from_nqi E (heap s1) (nqi_for (nq_item s) (bytes_written b) (ti_at i s)) (trace s1) = Inr (r, tr')"
      using send out by (auto simp: not_le)
    let ?y = "nqi_for (nq_item s1) (bytes_written b) (ti_at i s1)"
    have "tele_view fd s' = ((xs @ (if connected n \<and> nqi_nbytes ?y > 0 then [?y] else []), n,
        ts'[i := (Some a, bytes_written b)]), (heap s)[a := b], fd_bytes (trace s) fd)"
      using write_from_nqi_other [OF w fd] wire view sv sv' a
      by (simp add: tele_view_def s' send_view_sent ti1) (simp add: s1(1))
    moreover have "nqi_action ?y = nq_send" "nqi_buff ?y = Some a" "nqi_data0 ?y = sensor_byte i"
      "total_bytes ?y = snd (ts' ! i)" "nqi_nbytes ?y = bytes_written b - snd (ts' ! i)"
      using ts sv a ti_action_nth [OF wf i13] by (simp_all add: nqi_for_def ti1 sensor_byte_def)
    ultimately show ?thesis
      using tele_visit.sending [OF i(2) _ length_reading_bytes b, of ts' ?y] ts sv by (simp add: tele_view_def)
  qed
qed

lemma tele_visitTimed:
  assumes wf: "vis_wf s" and item: "wqi_ok item" "wqi_action item = wq_timed"
    and out: "worker_visitTimed E C item s = Inr s'" and fd: "logs_apart E fd"
  shows "tele_visit (tele_view fd s) (tele_view fd s')"
proof -
  obtain i where i: "extra_datap item = Some i" "i < 13" using item by (auto simp: wqi_ok_def)
  obtain u tr0 where u: "get_time E (base_time s) (trace s) = (u, tr0)" by (meson surj_pair)
  note u' = get_time_fd_bytes [OF u, of fd]
  show ?thesis
  proof (cases "i < 10")
    case False
    then have "s' = s\<lparr>now := u, trace := tr0, ti_list := (ti_list s)\<lparr>tis := (tis (ti_list s))
        [i := (\<lambda>x. x\<lparr>scheduled := u\<rparr>) (tis (ti_list s) ! i)]\<rparr>\<rparr>"
      using visitTimed_stage [OF wf i(1) _ i(2) u] out by (simp add: ti_at_def)
    moreover have "send_view (s\<lparr>ti_list := (ti_list s)\<lparr>tis := (tis (ti_list s))
        [i := (\<lambda>x. x\<lparr>scheduled := u\<rparr>) (tis (ti_list s) ! i)]\<rparr>\<rparr>) = send_view s"
      by (rule send_view_update_item) simp
    ultimately have "tele_view fd s' = tele_view fd s" using u' by (simp add: tele_view_def send_view_def)
    then show ?thesis by (simp add: unseen)
  next
    case True
    from tele_sensor [OF wf i(1) this out fd] show ?thesis .
  qed
qed

text \<open>Both engines wrap it the same way.\<close>

lemma tele_engine_visitTimed:
  assumes "vis_wf s" and "wqi_ok item" and "wqi_action item = wq_timed" and "logs_apart E fd"
    and stages: "\<And>i. preserves (tele_view fd) (exec (stages i))"
    and out: "exec [read_clock E,
        with_ti item (\<lambda>i. exec
          [set_ti i (\<lambda>s ti. ti\<lparr>scheduled := now s\<rparr>),
           if_s (\<lambda>s. ti_buffer (ti_at i s) \<noteq> None) [worker_visitTimed E C item] (stages i)])] s = Inr s'"
  shows "tele_visit (tele_view fd s) (tele_view fd s')"
proof -
  obtain i where i: "extra_datap item = Some i" "i < 13" using assms(2,3) by (auto simp: wqi_ok_def)
  obtain s1 where s1: "read_clock E s = Inr s1" "vis_wf s1"
    using ensuresE [OF keeps_statements(2) assms(1)] by blast
  have "ensures vis_wf (set_ti i (\<lambda>s ti. ti\<lparr>scheduled := now s\<rparr>)) vis_wf"
    by (rule keeps_set_ti) (simp add: harmless_def)
  then obtain s2 where s2: "set_ti i (\<lambda>s ti. ti\<lparr>scheduled := now s\<rparr>) s1 = Inr s2" "vis_wf s2"
    using s1(2) by (auto elim: ensuresE)
  have view: "tele_view fd s2 = tele_view fd s"
    using preservesD [OF preserves_tele_statements(3) s1(1), of fd]
      preservesD [OF preserves_tele_statements(7) s2(1), of fd] by simp
  have "(if ti_buffer (ti_at i s2) \<noteq> None then worker_visitTimed E C item s2 else exec (stages i) s2) = Inr s'"
    using out i s1 s2(1) vis_wf_length [OF s1(2)]
    by (simp add: with_ti_def if_s_def exec_two exec_single del: exec.simps split: if_splits)
  then show ?thesis
    using tele_visitTimed [OF s2(2) assms(2,3) _ assms(4)] preservesD [OF stages] view tele_visit.unseen
    by (metis (no_types, lifting))
qed

section \<open>The contract\<close>

text \<open>What the composition relies on, beyond the contract of an engine: a visit is one of those of \<open>tele_visit\<close>.\<close>

locale telemetry_engine = engine ok wqv
  for ok :: "'a worker_visitor_scheme \<Rightarrow> bool" and wqv +
  fixes E :: env
  assumes tele_law: "ok s \<Longrightarrow> wqi_ok item \<Longrightarrow> logs_apart E fd \<Longrightarrow> wqv item s = Inr s' \<Longrightarrow>
    tele_visit (tele_view fd s) (tele_view fd s')"

lemma preserves_tele_luna [untouched]:
  "preserves (tele_view fd) (assign (gitvc_on_update f))" "preserves (tele_view fd) (assign (gitvc_count_update g))"
  "preserves (tele_view fd) incr_gitvc_count"
  by (auto simp: preserves_def assign_def incr_gitvc_count_def tele_view_def send_view_def split: if_splits)

lemma preserves_tele_gitvc_delay [untouched]: "preserves (tele_view fd) (set_gitvc_delay C)"
proof -
  have "preserves (tele_view fd) (on_list (til_set_delay gitvc d) :: 'a luna_visitor_scheme \<Rightarrow> _)" for d
    by (rule untouched)
  then show ?thesis by (auto simp: preserves_def set_gitvc_delay_def Let_def split: if_splits)
qed

lemma preserves_tele_stages [untouched]:
  "preserves (tele_view fd) (luna_ign2 C)" "preserves (tele_view fd) luna_ign3" "preserves (tele_view fd) (luna_gitvc C)"
  "preserves (tele_view fd) titan_ign2" "preserves (tele_view fd) titan_ign3"
  unfolding luna_ign2_def luna_ign3_def luna_gitvc_def titan_ign2_def titan_ign3_def
  by (intro preserves_rules untouched)+

lemma preserves_tele_proc [untouched]:
  "preserves (tele_view fd) (luna_visitProc item)" "preserves (tele_view fd) (titan_visitProc item)"
  unfolding luna_visitProc_def titan_visitProc_def
  by (auto split: option.splits send_code.splits intro!: preserves_rules untouched)

lemma tele_visit_cases:
  assumes "\<And>s'. visitTimed item s = Inr s' \<Longrightarrow> wqi_action item = wq_timed \<Longrightarrow> tele_visit (tele_view fd s) (tele_view fd s')"
    and "preserves (tele_view fd) (visitProc item)"
    and "visit E visitProc visitTimed (worker_visitIgn E C) item s = Inr s'"
  shows "tele_visit (tele_view fd s) (tele_view fd s')"
proof -
  have same: "tele_visit (tele_view fd s) (tele_view fd s')" if "preserves (tele_view fd) c" "c s = Inr s'" for c
    using preservesD [OF that] tele_visit.unseen by simp
  show ?thesis
    using assms(3,1) same [OF assms(2)] same [OF preserves_tele_handlers(1)]
      same [OF preserves_tele_handlers(2)] same [OF preserves_tele_statements(9)]
    unfolding visit_def by (cases "wqi_action item") auto
qed

interpretation luna_tele: telemetry_engine "luna_wf C" "luna_visit E C" E
  for C E
proof
  fix s s' :: "'a luna_visitor_scheme" and item fd
  assume s: "luna_wf C s" "wqi_ok item" "logs_apart E fd" "luna_visit E C item s = Inr s'"
  show "tele_visit (tele_view fd s) (tele_view fd s')"
  proof (rule tele_visit_cases)
    show "visit E luna_visitProc (luna_visitTimed E C) (worker_visitIgn E C) item s = Inr s'"
      using s(4) by (simp add: luna_visit_def)
    fix t assume "luna_visitTimed E C item s = Inr t" "wqi_action item = wq_timed"
    then show "tele_visit (tele_view fd s) (tele_view fd t)"
      unfolding luna_visitTimed_def using s
      by (intro tele_engine_visitTimed [OF _ s(2) _ s(3)]) (auto simp: luna_wf_def intro!: preserves_rules untouched)
  qed (rule untouched)
qed

interpretation titan_tele: telemetry_engine vis_wf "titan_visit E C" E
  for C E
proof
  fix s s' :: "'a worker_visitor_scheme" and item fd
  assume s: "vis_wf s" "wqi_ok item" "logs_apart E fd" "titan_visit E C item s = Inr s'"
  show "tele_visit (tele_view fd s) (tele_view fd s')"
  proof (rule tele_visit_cases)
    show "visit E titan_visitProc (titan_visitTimed E C) (worker_visitIgn E C) item s = Inr s'"
      using s(4) by (simp add: titan_visit_def)
    fix t assume "titan_visitTimed E C item s = Inr t" "wqi_action item = wq_timed"
    then show "tele_visit (tele_view fd s) (tele_view fd t)"
      unfolding titan_visitTimed_def using s
      by (intro tele_engine_visitTimed [OF _ s(2) _ s(3)]) (auto intro!: preserves_rules untouched)
  qed (rule untouched)
qed

section \<open>The invariant\<close>

text \<open>A frame, what the frames of one code carry, and the queued items of one ring.\<close>

definition frame :: "byte \<times> byte list \<Rightarrow> byte list" where
  "frame f = header_bytes \<lparr>sh_code = unat (fst f), sh_nbytes = of_nat (length (snd f))\<rparr> @ snd f"

definition carried :: "byte \<Rightarrow> (byte \<times> byte list) list \<Rightarrow> byte list" where
  "carried c fs = concat (map snd (filter (\<lambda>f. fst f = c) fs))"

definition pending :: "nat \<Rightarrow> network_queue_item list \<Rightarrow> network_queue_item list" where
  "pending a xs = filter (\<lambda>y. nqi_action y = nq_send \<and> nqi_buff y = Some a) xs"

text \<open>The items name consecutive pieces of a stream, from offset \<open>p\<close> to \<open>e\<close>.\<close>

fun pieces :: "nat \<Rightarrow> network_queue_item list \<Rightarrow> nat \<Rightarrow> bool" where
  "pieces p [] e \<longleftrightarrow> p = e"
| "pieces p (y # ys) e \<longleftrightarrow> unat (total_bytes y) = p \<and> pieces (p + unat (nqi_nbytes y)) ys e"

lemma pieces_append: "pieces p ys m \<Longrightarrow> pieces m zs e \<Longrightarrow> pieces p (ys @ zs) e"
  by (induction ys arbitrary: p) auto

lemma pieces_le: "pieces p ys e \<Longrightarrow> p \<le> e"
  by (induction ys arbitrary: p) fastforce+

text \<open>
  For one sensor, against its stream \<open>st\<close> and offset \<open>p0\<close> at the start: its frames carry the \<open>k\<close> bytes from
  \<open>p0\<close> on, the queued items the following ones up to \<open>l\<close>, its \<open>nbytes_last_send\<close>.
\<close>

definition sensor_inv ::
    "nat \<Rightarrow> byte list \<Rightarrow> byte list \<Rightarrow> network_queue_item list \<Rightarrow> circular_buffer list \<Rightarrow> nat \<Rightarrow> nat \<Rightarrow> bool" where
  "sensor_inv p0 st out xs hp a l \<longleftrightarrow>
     (\<exists>more k. holds (hp ! a) (st @ more) \<and> length (st @ more) < 4294967296
        \<and> out = slice p0 k (st @ more) \<and> pieces (p0 + k) (pending a xs) l \<and> l \<le> length (st @ more))"

definition tele_inv :: "(nat \<Rightarrow> nat) \<Rightarrow> (nat \<Rightarrow> byte list) \<Rightarrow> tele_state \<Rightarrow> bool" where
  "tele_inv p0 st v \<longleftrightarrow> (case v of ((xs, n, ts), hp, w) \<Rightarrow>
     connected n \<and> length ts = 13
     \<and> (\<forall>i < 10. \<forall>j < 10. fst (ts ! i) = fst (ts ! j) \<longrightarrow> i = j)
     \<and> (\<forall>y \<in> set xs. nqi_action y = nq_send \<longrightarrow> (\<exists>i < 10. nqi_buff y = fst (ts ! i) \<and> nqi_data0 y = sensor_byte i))
     \<and> (\<exists>fs. w = concat (map frame fs)
         \<and> (\<forall>i < 10. \<exists>a < length hp. fst (ts ! i) = Some a
              \<and> sensor_inv (p0 i) (st i) (carried (sensor_byte i) fs) xs hp a (unat (snd (ts ! i))))))"

lemma sensor_inv_other: "b = hp ! a \<Longrightarrow> sensor_inv p0 st out xs hp a l \<Longrightarrow> pending a ys = [] \<Longrightarrow> hp' ! a = b \<Longrightarrow>
    sensor_inv p0 st out (xs @ ys) hp' a l"
  by (simp add: sensor_inv_def pending_def)

text \<open>A reading goes to the end of the stream, as long as the counter does not wrap.\<close>

lemma add_data_count:
  assumes "add_data b p = Inr b'"
  shows "bytes_written b' = bytes_written b + of_nat (length p)"
  using assms
proof (induction b p rule: add_data.induct)
  case (1 b p)
  show ?case
    using "1.prems"
    by (subst (asm) add_data.simps)
      (auto simp: Let_def split: if_splits sum.splits dest!: "1.IH")
qed

lemma reading_appends:
  assumes "holds b st" and "length st < 4294967296" and "add_data b p = Inr b'" and "length p = 16"
    and "bytes_written b \<le> bytes_written b'"
  shows "holds b' (st @ p)" and "length (st @ p) < 4294967296" and "unat (bytes_written b') = length (st @ p)"
proof -
  have "unat (bytes_written b) = length st" using ring.count_law [OF assms(1,2)] .
  moreover have "bytes_written b \<le> bytes_written b + 16" using assms(4,5) add_data_count [OF assms(3)] by simp
  then have "unat (bytes_written b) + 16 < 4294967296" by (simp add: no_olen_add_nat)
  ultimately show len: "length (st @ p) < 4294967296" using assms(4) by simp
  then show h: "holds b' (st @ p)" using ring.add_law [OF assms(1), of p] assms(3) by auto
  show "unat (bytes_written b') = length (st @ p)" using ring.count_law [OF h len] .
qed

lemma sensor_inv_reading:
  assumes "sensor_inv p0 st out xs hp a l" and "add_data (hp ! a) p = Inr b" and "length p = 16"
    and "bytes_written (hp ! a) \<le> bytes_written b" and "hp' ! a = b"
  shows "sensor_inv p0 st out xs hp' a l"
    and "unat (total_bytes y) = l \<Longrightarrow> nqi_nbytes y = bytes_written b - total_bytes y \<Longrightarrow> nqi_action y = nq_send \<Longrightarrow>
      nqi_buff y = Some a \<Longrightarrow> sensor_inv p0 st out (xs @ (if nqi_nbytes y > 0 then [y] else [])) hp' a (unat (bytes_written b))"
proof -
  obtain more k where h: "holds (hp ! a) (st @ more)" "length (st @ more) < 4294967296"
    and out: "out = slice p0 k (st @ more)" and pcs: "pieces (p0 + k) (pending a xs) l" and l: "l \<le> length (st @ more)"
    using assms(1) by (auto simp: sensor_inv_def)
  note b = reading_appends [OF h assms(2-4)]
  have "p0 + k \<le> length (st @ more)" using pieces_le [OF pcs] l by simp
  then have out': "out = slice p0 k (st @ more @ p)" using out by (simp add: slice_def)
  show "sensor_inv p0 st out xs hp' a l"
    unfolding sensor_inv_def using b out' pcs l assms(5)
    by (intro exI [of _ "more @ p"] exI [of _ k]) simp
  assume y: "unat (total_bytes y) = l" "nqi_nbytes y = bytes_written b - total_bytes y" "nqi_action y = nq_send"
    "nqi_buff y = Some a"
  have "unat (nqi_nbytes y) = unat (bytes_written b) - l"
    using y(1,2) b(3) l by (subst y(2)) (simp add: unat_sub_le word_le_nat_alt)
  moreover have "nqi_nbytes y > 0 \<or> nqi_nbytes y = 0" by (simp add: word_gt_0)
  ultimately have "pieces l (if nqi_nbytes y > 0 then [y] else []) (unat (bytes_written b))"
    using y(1) b(3) l by auto
  then have "pieces (p0 + k) (pending a (xs @ (if nqi_nbytes y > 0 then [y] else []))) (unat (bytes_written b))"
    using pieces_append [OF pcs] y(3,4) by (simp add: pending_def)
  then show "sensor_inv p0 st out (xs @ (if nqi_nbytes y > 0 then [y] else [])) hp' a (unat (bytes_written b))"
    unfolding sensor_inv_def using b out' assms(5)
    by (intro exI [of _ "more @ p"] exI [of _ k]) simp
qed

text \<open>No ring's counter wraps from one state to the next.\<close>

definition counting :: "circular_buffer list \<Rightarrow> circular_buffer list \<Rightarrow> bool" where
  "counting hp hp' \<longleftrightarrow> (\<forall>a < length hp. bytes_written (hp ! a) \<le> bytes_written (hp' ! a))"

lemma tele_inv_reading:
  assumes inv: "tele_inv p0 st ((xs, n, ts), hp, w)" and i: "i < 10" "fst (ts ! i) = Some a"
    and p: "length p = 16" "add_data (hp ! a) p = Inr b" and count: "counting hp (hp[a := b])"
  shows "tele_inv p0 st ((xs, n, ts), hp[a := b], w)"
proof -
  from inv obtain fs where fs: "w = concat (map frame fs)"
    and sens: "\<And>j. j < 10 \<Longrightarrow> \<exists>a < length hp. fst (ts ! j) = Some a
        \<and> sensor_inv (p0 j) (st j) (carried (sensor_byte j) fs) xs hp a (unat (snd (ts ! j)))"
    and inj: "\<And>j. j < 10 \<Longrightarrow> fst (ts ! i) = fst (ts ! j) \<Longrightarrow> i = j"
    using i(1) by (auto simp: tele_inv_def)
  have a: "a < length hp" using sens [OF i(1)] i(2) by auto
  then have mono: "bytes_written (hp ! a) \<le> bytes_written b" using count by (auto simp: counting_def)
  have "\<exists>a' < length hp. fst (ts ! j) = Some a'
      \<and> sensor_inv (p0 j) (st j) (carried (sensor_byte j) fs) xs (hp[a := b]) a' (unat (snd (ts ! j)))"
    if j: "j < 10" for j
  proof (cases "j = i")
    case True
    then show ?thesis using sens [OF j] sensor_inv_reading(1) [OF _ p(2,1) mono, of _ _ _ _ _ "hp[a := b]"] a i(2) by auto
  next
    case False
    then have "fst (ts ! j) \<noteq> Some a" using inj [OF j] i(2) by auto
    then show ?thesis
      using sens [OF j] sensor_inv_other [of _ hp _ _ _ _ xs _ "[]" "hp[a := b]"] by (auto simp: pending_def)
  qed
  with inv fs show ?thesis by (auto simp: tele_inv_def)
qed

lemma tele_inv_sending:
  assumes inv: "tele_inv p0 st ((xs, n, ts), hp, w)" and i: "i < 10" "fst (ts ! i) = Some a"
    and p: "length p = 16" "add_data (hp ! a) p = Inr b"
    and y: "nqi_action y = nq_send" "nqi_buff y = Some a" "nqi_data0 y = sensor_byte i"
      "total_bytes y = snd (ts ! i)" "nqi_nbytes y = bytes_written b - snd (ts ! i)"
    and count: "counting hp (hp[a := b])"
  shows "tele_inv p0 st ((xs @ (if connected n \<and> nqi_nbytes y > 0 then [y] else []), n,
      ts[i := (Some a, bytes_written b)]), hp[a := b], w)"
proof -
  let ?ys = "if connected n \<and> nqi_nbytes y > 0 then [y] else []"
  let ?ts = "ts[i := (Some a, bytes_written b)]"
  from inv obtain fs where fs: "w = concat (map frame fs)" and n: "connected n" and len: "length ts = 13"
    and sens: "\<And>j. j < 10 \<Longrightarrow> \<exists>a < length hp. fst (ts ! j) = Some a
        \<and> sensor_inv (p0 j) (st j) (carried (sensor_byte j) fs) xs hp a (unat (snd (ts ! j)))"
    and inj: "\<And>j k. j < 10 \<Longrightarrow> k < 10 \<Longrightarrow> fst (ts ! j) = fst (ts ! k) \<Longrightarrow> j = k"
    and items: "\<And>x. x \<in> set xs \<Longrightarrow> nqi_action x = nq_send \<Longrightarrow>
        \<exists>i < 10. nqi_buff x = fst (ts ! i) \<and> nqi_data0 x = sensor_byte i"
    by (auto simp: tele_inv_def)
  have a: "a < length hp" using sens [OF i(1)] i(2) by auto
  then have mono: "bytes_written (hp ! a) \<le> bytes_written b" using count by (auto simp: counting_def)
  have fst_ts: "fst (?ts ! j) = fst (ts ! j)" for j
    using i len by (cases "j = i") auto
  have "\<exists>a' < length hp. fst (ts ! j) = Some a'
      \<and> sensor_inv (p0 j) (st j) (carried (sensor_byte j) fs) (xs @ ?ys) (hp[a := b]) a' (unat (snd (?ts ! j)))"
    if j: "j < 10" for j
  proof (cases "j = i")
    case True
    then show ?thesis
      using sens [OF j] sensor_inv_reading(2) [OF _ p(2,1) mono, of _ _ _ _ _ "hp[a := b]" y] a i y n len by auto
  next
    case False
    then have "fst (ts ! j) \<noteq> Some a" using inj [of j i] j i by auto
    moreover from this have "a' \<noteq> a \<Longrightarrow> pending a' ?ys = []" for a'
      using y(2) by (simp add: pending_def)
    ultimately show ?thesis
      using sens [OF j] sensor_inv_other [of _ hp _ _ _ _ xs _ ?ys "hp[a := b]"] False by (auto split del: if_split)
  qed
  moreover have "\<exists>i < 10. nqi_buff x = fst (ts ! i) \<and> nqi_data0 x = sensor_byte i"
    if "x \<in> set (xs @ ?ys)" "nqi_action x = nq_send" for x
    using that items i y by (auto split: if_splits)
  ultimately show ?thesis
    using fs n len inj unfolding tele_inv_def
    by (simp only: prod.case fst_ts) (auto split del: if_split)
qed

lemma tele_inv_visit:
  assumes inv: "tele_inv p0 st v" and step: "tele_visit v v'" and count: "counting (fst (snd v)) (fst (snd v'))"
  shows "tele_inv p0 st v'"
  using step
proof cases
  case unseen
  with inv show ?thesis by simp
next
  case reading
  with inv count show ?thesis by (auto intro: tele_inv_reading)
next
  case (sending i ts a p hp b y xs n w)
  from tele_inv_sending [OF inv [unfolded sending(1)] sending(3-11)] count show ?thesis by (simp add: sending(1,2))
qed

text \<open>Items of other kinds come and go without effect.\<close>

lemma tele_inv_filter:
  assumes "tele_inv p0 st ((xs, n, ts), hp, w)" and "connected m"
    and "filter (\<lambda>y. nqi_action y = nq_send) ys = filter (\<lambda>y. nqi_action y = nq_send) xs"
  shows "tele_inv p0 st ((ys, m, ts), hp, w)"
proof -
  have "pending a ys = filter (\<lambda>y. nqi_buff y = Some a) (filter (\<lambda>y. nqi_action y = nq_send) ys)"
    "pending a xs = filter (\<lambda>y. nqi_buff y = Some a) (filter (\<lambda>y. nqi_action y = nq_send) xs)" for a
    by (simp_all add: pending_def conj_commute)
  then have "pending a ys = pending a xs" for a using assms(3) by simp
  moreover have "y \<in> set xs" if "y \<in> set ys" "nqi_action y = nq_send" for y
    using arg_cong [OF assms(3), of set] that by auto
  ultimately show ?thesis using assms(1,2) by (auto simp: tele_inv_def sensor_inv_def)
qed

lemma sensor_byte_inj: "i < 10 \<Longrightarrow> j < 10 \<Longrightarrow> sensor_byte i = sensor_byte j \<Longrightarrow> i = j"
proof -
  have "inj_on sensor_byte (set [0, 1, 2, 3, 4, 5, 6, 7, 8, 9])"
    by (simp add: sensor_byte_def item_actions_def)
  moreover assume "i < 10" "j < 10" "sensor_byte i = sensor_byte j"
  ultimately show "i = j" by (elim inj_onD) (simp_all, presburger+)
qed

text \<open>A frame goes out: it carries the next bytes of its sensor's stream.\<close>

lemma tele_inv_frame:
  assumes inv: "tele_inv p0 st ((y # xs, n, ts), hp, w)" and send: "nqi_action y = nq_send"
    and a: "nqi_buff y = Some a" and lap: "unat (bytes_written (hp ! a)) \<le> unat (total_bytes y) + unat (nbytes (hp ! a))"
    and m: "connected m"
    and out: "\<And>full. holds (hp ! a) full \<Longrightarrow> length full < 4294967296 \<Longrightarrow>
      unat (total_bytes y) + unat (nqi_nbytes y) \<le> length full \<Longrightarrow> length full \<le> unat (total_bytes y) + unat (nbytes (hp ! a)) \<Longrightarrow>
      w' = w @ frame (nqi_data0 y, slice (unat (total_bytes y)) (unat (nqi_nbytes y)) full)"
  shows "tele_inv p0 st ((xs, m, ts), hp, w')"
proof -
  from inv obtain fs where w: "w = concat (map frame fs)" and len: "length ts = 13"
    and sens: "\<forall>j < 10. \<exists>a < length hp. fst (ts ! j) = Some a
        \<and> sensor_inv (p0 j) (st j) (carried (sensor_byte j) fs) (y # xs) hp a (unat (snd (ts ! j)))"
    and inj: "\<forall>j < 10. \<forall>k < 10. fst (ts ! j) = fst (ts ! k) \<longrightarrow> j = k"
    and items: "\<forall>x \<in> set (y # xs). nqi_action x = nq_send \<longrightarrow>
        (\<exists>i < 10. nqi_buff x = fst (ts ! i) \<and> nqi_data0 x = sensor_byte i)"
    unfolding tele_inv_def prod.case by blast
  obtain i where i: "i < 10" "fst (ts ! i) = Some a" "nqi_data0 y = sensor_byte i"
    using items send a by auto
  obtain more k where h: "holds (hp ! a) (st i @ more)" "length (st i @ more) < 4294967296"
    and car: "carried (sensor_byte i) fs = slice (p0 i) k (st i @ more)"
    and pcs: "pieces (p0 i + k) (y # pending a xs) (unat (snd (ts ! i)))"
    and l: "unat (snd (ts ! i)) \<le> length (st i @ more)"
    using sens [rule_format, OF i(1)] i(2) send a by (auto simp: sensor_inv_def pending_def)
  define d where "d = slice (unat (total_bytes y)) (unat (nqi_nbytes y)) (st i @ more)"
  have tot: "unat (total_bytes y) = p0 i + k" and rest: "pieces (p0 i + k + unat (nqi_nbytes y)) (pending a xs) (unat (snd (ts ! i)))"
    using pcs by simp_all
  have range: "unat (total_bytes y) + unat (nqi_nbytes y) \<le> length (st i @ more)"
    using pieces_le [OF rest] l tot by simp
  have w': "w' = concat (map frame (fs @ [(sensor_byte i, d)]))"
    using out [OF h range] lap ring.count_law [OF h] w i(3) by (simp add: d_def)
  have "\<exists>a < length hp. fst (ts ! j) = Some a
        \<and> sensor_inv (p0 j) (st j) (carried (sensor_byte j) (fs @ [(sensor_byte i, d)])) xs hp a (unat (snd (ts ! j)))"
    if j: "j < 10" for j
  proof (cases "j = i")
    case True
    have "carried (sensor_byte i) (fs @ [(sensor_byte i, d)]) = slice (p0 i) (k + unat (nqi_nbytes y)) (st i @ more)"
      using car by (simp add: carried_def d_def tot slice_append)
    then have "sensor_inv (p0 i) (st i) (carried (sensor_byte i) (fs @ [(sensor_byte i, d)])) xs hp a (unat (snd (ts ! i)))"
      unfolding sensor_inv_def using h rest l
      by (intro exI [of _ more] exI [of _ "k + unat (nqi_nbytes y)"]) (simp add: add.assoc)
    then show ?thesis using sens [rule_format, OF j] i(2) True by auto
  next
    case False
    then have "fst (ts ! j) \<noteq> Some a" "sensor_byte j \<noteq> sensor_byte i"
      using inj [rule_format, OF j i(1)] i(2) sensor_byte_inj [OF j i(1)] False by auto
    moreover from this have "carried (sensor_byte j) (fs @ [(sensor_byte i, d)]) = carried (sensor_byte j) fs"
      by (auto simp: carried_def)
    moreover have "sensor_inv o0 s0 cs (y # xs) hp b l = sensor_inv o0 s0 cs xs hp b l" if "b \<noteq> a" for o0 s0 cs b l
      using a that by (simp add: sensor_inv_def pending_def)
    ultimately show ?thesis using sens [rule_format, OF j] by metis
  qed
  then have all: "\<forall>j < 10. \<exists>a < length hp. fst (ts ! j) = Some a
      \<and> sensor_inv (p0 j) (st j) (carried (sensor_byte j) (fs @ [(sensor_byte i, d)])) xs hp a (unat (snd (ts ! j)))"
    by blast
  have "\<forall>x \<in> set xs. nqi_action x = nq_send \<longrightarrow> (\<exists>i < 10. nqi_buff x = fst (ts ! i) \<and> nqi_data0 x = sensor_byte i)"
    using items by simp
  with w' m len inj all show ?thesis unfolding tele_inv_def prod.case by blast
qed

section \<open>A round of the network thread\<close>

text \<open>None of the queued pieces has been overwritten.\<close>

definition unlapped :: "'a process_scheme \<Rightarrow> bool" where
  "unlapped s \<longleftrightarrow> (\<forall>y \<in> set (q (qn s)). nqi_action y = nq_send \<longrightarrow>
     (\<forall>a. nqi_buff y = Some a \<longrightarrow> unat (bytes_written (heap s ! a)) \<le> unat (total_bytes y) + unat (nbytes (heap s ! a))))"

definition send_items :: "network_queue_item list \<Rightarrow> network_queue_item list" where
  "send_items xs = filter (\<lambda>y. nqi_action y = nq_send) xs"

text \<open>A round that sends nothing leaves the wire and the send items alone.\<close>

lemma quiet_round:
  assumes line: "on_line fd t" and up: "stays_up E fd"
    and out: "process_nqi E udp junk item t = Inr (ok, u)"
    and item: "nqi_action item \<noteq> nq_send"
  shows "on_line fd u \<and> fd_bytes (trace u) fd = fd_bytes (trace t) fd \<and> send_items (q (qn u)) = send_items (q (qn t))"
proof (cases "nqi_action item")
  case nq_recv
  then have r: "recv_command E junk t = Inr (ok, u)" using out by (simp add: process_nqi_def)
  have fd: "connfd_tcp (nw t) = fd" using line by (simp add: on_line_def)
  obtain result bs v where d: "do_recv E fd 1 t = Inr (result, bs, v)"
    and u: "u = (if result \<le> 0 then v else v\<lparr>qw := enqueue (junk\<lparr>wqi_action := wq_process, wqi_data0 := hd bs\<rparr>) (qw v)\<rparr>)"
    using r by (auto simp: recv_command_def fd push_qw_def split: sum.splits if_splits)
  from do_recv_on_line [OF line up d] show ?thesis by (auto simp: u on_line_def)
next
  case nq_none
  obtain x tr where x: "get_time E (base_time t) (trace t) = (x, tr)" by (meson surj_pair)
  have "connected (nw t)" "timeout (nw t) = 0" using line by (simp_all add: on_line_def)
  then have "u = t\<lparr>trace := tr, qn := enqueue (item\<lparr>nqi_action := nq_recv\<rparr>) (qn t)\<rparr>"
    using out nq_none x by (auto simp: process_nqi_def base_process_nqi_def when_s_def push_qn_def Let_def)
  then show ?thesis using line get_time_fd_bytes [OF x] by (simp add: on_line_def send_items_def)
next
  case nq_send_ack
  then show ?thesis using out line by (auto simp: process_nqi_def split: option.splits)
qed (use item in simp)

lemma send_item_shape:
  "send_item E item t = Inr (ok, v) \<Longrightarrow> v = t\<lparr>nw := (nw t)\<lparr>pf := pf (nw v)\<rparr>, trace := trace v\<rparr> \<and> ok"
  by (auto simp: send_item_def send_header_def poll_pf_def set_nw_def Let_def
      split: prod.splits if_splits sum.splits option.splits)

lemma tele_round_send:
  fixes s v :: "'a worker_visitor_scheme"
  assumes ok: "net_ok s" and line: "on_line fd s" and up: "stays_up E fd" and ret: "missing_return E \<noteq> None"
    and xs: "q (qn s) = item # xs" and item: "nqi_action item = nq_send" and lap: "unlapped s"
    and inv: "tele_inv p0 st ((q (qn s), nw s, ts), heap s, fd_bytes (trace s) fd)"
    and out: "process_nqi E udp junk item (s\<lparr>qn := (qn s)\<lparr>q := xs\<rparr>\<rparr>) = Inr (ok', v)"
  shows "ok' \<and> q (qn v) = xs \<and> on_line fd v \<and> tele_inv p0 st ((xs, nw v, ts), heap s, fd_bytes (trace v) fd)"
proof -
  define t where "t = s\<lparr>qn := (qn s)\<lparr>q := xs\<rparr>\<rparr>"
  have ok_t: "net_ok t" using ok xs by (simp add: t_def net_ok_def queues_ok_def)
  obtain a where a: "nqi_buff item = Some a" "a < length (heap s)"
    using ok xs item by (auto simp: net_ok_def queues_ok_def nqi_ok_def)
  have fd: "conn_fd (nw t) = fd" "connected (nw t)" using line by (simp_all add: t_def on_line_def conn_fd_def)
  have trace_t: "trace t = trace s" by (simp add: t_def)
  have sends: "send_item E item t = Inr (ok', v)" using out item by (simp add: process_nqi_def t_def)
  obtain x tr where v: "v = t\<lparr>nw := (nw t)\<lparr>pf := x\<rparr>, trace := tr\<rparr>" "ok'"
    using send_item_shape [OF sends] by metis
  have wire: "fd_bytes (trace v) fd = fd_bytes (trace s) fd
      @ frame (nqi_data0 item, slice (unat (total_bytes item)) (unat (nqi_nbytes item)) full)"
    if "holds (heap s ! a) full" "length full < 4294967296"
      "unat (total_bytes item) + unat (nqi_nbytes item) \<le> length full"
      "length full \<le> unat (total_bytes item) + unat (nbytes (heap s ! a))" for full
  proof -
    have h: "holds (heap t ! a) full" "a < length (heap t)" "length full \<le> unat (total_bytes item) + unat (nbytes (heap t ! a))"
      using that a(2) by (simp_all add: t_def)
    from send_item_writes [OF ok_t ret a(1) h(2,1) that(2,3) h(3)] up sends show ?thesis
      using that(3) by (auto simp: fd stays_up_def frame_def trace_t)
  qed
  have lap': "unat (bytes_written (heap s ! a)) \<le> unat (total_bytes item) + unat (nbytes (heap s ! a))"
    using lap xs item a(1) by (simp add: unlapped_def)
  have "connected (nw v)" using v fd(2) by simp
  from tele_inv_frame [OF inv [unfolded xs] item a(1) lap' this wire] v line show ?thesis
    by (simp add: t_def on_line_def)
qed

lemma tele_round:
  fixes s u :: "'a worker_visitor_scheme"
  assumes ok: "net_ok s" and line: "on_line fd s" and up: "stays_up E fd" and ret: "missing_return E \<noteq> None"
    and out: "network_step E udp junk s = Inr u" and lap: "unlapped s" and inv: "tele_inv p0 st (tele_view fd s)"
  shows "on_line fd u \<and> tele_inv p0 st (tele_view fd u)"
proof -
  have nxt: "net_next s u" "net_ok u"
    using network_step_inv [OF net_inv_refl [OF ok] ret, of udp junk] out by (simp_all add: net_inv_def)
  then have same: "heap u = heap s" "ti_list u = ti_list s"
    by (auto simp: net_next_def)
  obtain ts where ts: "snd (snd (send_view s)) = ts" by simp
  have views: "tele_view fd s = ((q (qn s), nw s, ts), heap s, fd_bytes (trace s) fd)"
    "tele_view fd u = ((q (qn u), nw u, ts), heap s, fd_bytes (trace u) fd)"
    using ts same by (auto simp: tele_view_def send_view_def)
  obtain item qn' where p: "poll (qn s) = (item, qn')" by (meson surj_pair)
  define t where "t = s\<lparr>qn := qn'\<rparr>"
  have line': "on_line fd t" using line by (simp add: t_def on_line_def)
  obtain ok' v where r: "process_nqi E udp junk item t = Inr (ok', v)"
    and u: "u = (if ok' then v else v\<lparr>trace := trace v @ [Stderr ''Could not process request on network thread'']\<rparr>)"
    using out by (auto simp: network_step_def network_round_def p t_def stderr_def split: sum.splits if_splits)
  show ?thesis
  proof (cases "nqi_action item = nq_send")
    case False
    have "on_line fd v \<and> fd_bytes (trace v) fd = fd_bytes (trace t) fd \<and> send_items (q (qn v)) = send_items (q (qn t))"
      by (rule quiet_round [OF line' up r False])
    moreover have "send_items (q (qn t)) = send_items (q (qn s))"
      using p by (cases rule: poll_cases) (use False in \<open>simp_all add: t_def send_items_def\<close>)
    ultimately have "on_line fd u" "fd_bytes (trace u) fd = fd_bytes (trace s) fd"
      "send_items (q (qn u)) = send_items (q (qn s))"
      by (auto simp: u t_def on_line_def fd_bytes_one)
    moreover have "connected (nw u)" using \<open>on_line fd u\<close> by (simp add: on_line_def)
    ultimately show ?thesis
      using tele_inv_filter [OF inv [unfolded views(1)], of "nw u" "q (qn u)"] views(2) by (simp add: send_items_def)
  next
    case True
    have null: "null_item (qn s) = null_nqi" using ok by (simp add: net_ok_def queues_ok_def)
    obtain xs where xs: "q (qn s) = item # xs" "qn' = (qn s)\<lparr>q := xs\<rparr>"
      using p by (cases rule: poll_cases) (use True null in \<open>auto simp: null_nqi_def\<close>)
    from tele_round_send [OF ok line up ret xs(1) True lap inv [unfolded views(1)] r [unfolded t_def xs(2)]]
    have v: "ok'" "q (qn v) = xs" "on_line fd v" "tele_inv p0 st ((xs, nw v, ts), heap s, fd_bytes (trace v) fd)"
      by simp_all
    moreover have "u = v" using u v(1) by simp
    ultimately show ?thesis using views(2) by simp
  qed
qed

section \<open>The run\<close>

text \<open>A round of either thread that comes in time: no queued piece was overwritten, no counter wraps.\<close>

definition on_time_step ::
    "(work_queue_item \<Rightarrow> 'a process_scheme \<Rightarrow> error + 'a process_scheme) \<Rightarrow> env \<Rightarrow> bool
     \<Rightarrow> 'a process_scheme \<Rightarrow> 'a process_scheme \<Rightarrow> bool" where
  "on_time_step wqv E udp s s' \<longleftrightarrow> sys_step wqv E udp s s' \<and> unlapped s \<and> counting (heap s) (heap s')"

context telemetry_engine
begin

lemma tele_worker_round:
  assumes "ok s" and "tele_inv p0 st (tele_view fd s)" and "logs_apart E fd"
    and out: "worker_step wqv s = Inr s'" and "counting (heap s) (heap s')"
  shows "tele_inv p0 st (tele_view fd s')"
proof -
  obtain item qw' where p: "poll (qw s) = (item, qw')" by (meson surj_pair)
  have "null_item (qw s) = null_wqi" "list_all wqi_ok (q (qw s))"
    using ok_wf [OF assms(1)] by (simp_all add: vis_wf_defs)
  with p have "wqi_ok item \<and> (\<exists>xs. qw' = (qw s)\<lparr>q := xs\<rparr> \<and> list_all wqi_ok xs)"
    by (cases rule: poll_cases) (auto simp: wqi_ok_def null_wqi_def intro: exI [of _ "[]"])
  then have "wqi_ok item" "ok (s\<lparr>qw := qw'\<rparr>)" using ok_queue [OF assms(1)] by auto
  moreover have "wqv item (s\<lparr>qw := qw'\<rparr>) = Inr s'" using out p by (simp add: worker_step_def)
  moreover have "tele_view fd (s\<lparr>qw := qw'\<rparr>) = tele_view fd s" by (simp add: tele_view_def)
  ultimately have "tele_visit (tele_view fd s) (tele_view fd s')"
    using tele_law [OF _ _ assms(3)] by metis
  from tele_inv_visit [OF assms(2) this] assms(5) show ?thesis by (simp add: tele_view_def)
qed

lemma tele_run:
  assumes "(on_time_step wqv E udp)\<^sup>*\<^sup>* s s'" and "ok s" and "on_line fd s" and "stays_up E fd"
    and "logs_apart E fd" and "missing_return E \<noteq> None" and "tele_inv p0 st (tele_view fd s)"
  shows "ok s' \<and> on_line fd s' \<and> tele_inv p0 st (tele_view fd s')"
  using assms(1)
proof (induction rule: rtranclp_induct)
  case base
  with assms show ?case by simp
next
  case (step t u)
  have timeout: "timeout (nw t) = 0" using step(3) by (simp add: on_line_def)
  from step(2) have "sys_step wqv E udp t u" "unlapped t" "counting (heap t) (heap u)"
    by (simp_all add: on_time_step_def)
  from this(1) show ?case
  proof (rule sys_stepE)
    assume w: "worker_step wqv t = Inr u"
    obtain u' where "worker_step wqv t = Inr u'" "ok u'" "nw u' = nw t"
      using worker_round_ok [of t] step(3) by blast
    then have "ok u" "on_line fd u" using w step(3) by (simp_all add: on_line_def)
    with tele_worker_round [OF _ _ assms(5) w] step(3) \<open>counting (heap t) (heap u)\<close> show ?thesis by blast
  next
    fix junk assume n: "network_step E udp junk t = Inr u"
    have "ok u" using network_round_ok [OF _ timeout n] step(3) by blast
    with tele_round [OF ok_net_ok [OF _ timeout] _ assms(4,6) n \<open>unlapped t\<close>] step(3) show ?thesis by blast
  qed
qed

text \<open>At the start nothing is on the wire or queued for it.\<close>

lemma tele_start:
  fixes s :: "'a worker_visitor_scheme"
  assumes "ok s" and "on_line fd s" and "fd_bytes (trace s) fd = []" and "send_items (q (qn s)) = []"
    and rings: "\<And>i a. i < 10 \<Longrightarrow> ti_buffer (ti_at i s) = Some a \<Longrightarrow> holds (heap s ! a) (st i) \<and> length (st i) < 4294967296
      \<and> unat (nbytes_last_send (ti_at i s)) \<le> length (st i)"
  shows "tele_inv (\<lambda>i. unat (nbytes_last_send (ti_at i s))) st (tele_view fd s)"
proof -
  have wf: "vis_wf s" using ok_wf [OF assms(1)] .
  have len: "length (tis (ti_list s)) = 13" using vis_wf_length [OF wf] .
  have ring: "\<exists>a < length (heap s). ti_buffer (ti_at i s) = Some a" if "i < 10" for i
    using wf that wiring_ok_sensor [of "heap s" "tis (ti_list s)" i] by (auto simp: vis_wf_def ti_at_def)
  have inj: "i = j" if "i < 10" "j < 10" "ti_buffer (ti_at i s) = ti_buffer (ti_at j s)" for i j
    using wf that wiring_ok_inj [of "heap s" "tis (ti_list s)" i j] by (simp add: vis_wf_def ti_at_def)
  have none: "pending a (q (qn s)) = []" "\<forall>y \<in> set (q (qn s)). nqi_action y \<noteq> nq_send" for a
    using assms(4) by (auto simp: send_items_def pending_def filter_empty_conv)
  have "\<exists>a < length (heap s). ti_buffer (ti_at i s) = Some a
      \<and> sensor_inv (unat (nbytes_last_send (ti_at i s))) (st i) [] (q (qn s)) (heap s) a (unat (nbytes_last_send (ti_at i s)))"
    if i: "i < 10" for i
  proof -
    obtain a where a: "a < length (heap s)" "ti_buffer (ti_at i s) = Some a" using ring [OF i] by blast
    from rings [OF i a(2)] have "sensor_inv (unat (nbytes_last_send (ti_at i s))) (st i) [] (q (qn s)) (heap s) a
        (unat (nbytes_last_send (ti_at i s)))"
      unfolding sensor_inv_def none(1) by (intro exI [of _ "[]"] exI [of _ 0]) simp
    with a show ?thesis by blast
  qed
  moreover have "connected (nw s)" using assms(2) by (simp add: on_line_def)
  ultimately show ?thesis
    unfolding tele_inv_def tele_view_def send_view_def prod.case
    using len inj none(2) assms(3) by (intro conjI exI [of _ "[]"]) (auto simp: ti_at_def carried_def)
qed

lemma tele_complete:
  assumes "(on_time_step wqv E udp)\<^sup>*\<^sup>* s s'" and "ok s" and "on_line fd s" and "stays_up E fd"
    and "logs_apart E fd" and "missing_return E \<noteq> None" and "fd_bytes (trace s) fd = []" and "send_items (q (qn s)) = []"
    and "\<And>i a. i < 10 \<Longrightarrow> ti_buffer (ti_at i s) = Some a \<Longrightarrow> holds (heap s ! a) (st i) \<and> length (st i) < 4294967296
      \<and> unat (nbytes_last_send (ti_at i s)) \<le> length (st i)"
  shows "\<exists>fs. fd_bytes (trace s') fd = concat (map frame fs) \<and> (\<forall>i < 10. \<exists>a more k.
      ti_buffer (ti_at i s') = Some a \<and> holds (heap s' ! a) (st i @ more)
      \<and> carried (sensor_byte i) fs = slice (unat (nbytes_last_send (ti_at i s))) k (st i @ more)
      \<and> pieces (unat (nbytes_last_send (ti_at i s)) + k) (pending a (q (qn s'))) (unat (nbytes_last_send (ti_at i s'))))"
proof -
  let ?p0 = "\<lambda>i. unat (nbytes_last_send (ti_at i s))"
  have "tele_inv ?p0 st (tele_view fd s)" by (rule tele_start [OF assms(2,3,7,8)]) (rule assms(9))
  from tele_run [OF assms(1-6) this] have s': "ok s'" "tele_inv ?p0 st (tele_view fd s')" by simp_all
  have len: "length (tis (ti_list s')) = 13" using vis_wf_length [OF ok_wf [OF s'(1)]] .
  from s'(2) obtain fs where fs: "fd_bytes (trace s') fd = concat (map frame fs)"
    and sens: "\<forall>i < 10. \<exists>a < length (heap s').
        fst (map (\<lambda>x. (ti_buffer x, nbytes_last_send x)) (tis (ti_list s')) ! i) = Some a
        \<and> sensor_inv (?p0 i) (st i) (carried (sensor_byte i) fs) (q (qn s')) (heap s') a
            (unat (snd (map (\<lambda>x. (ti_buffer x, nbytes_last_send x)) (tis (ti_list s')) ! i)))"
    unfolding tele_inv_def tele_view_def send_view_def prod.case by blast
  have "\<exists>a more k. ti_buffer (ti_at i s') = Some a \<and> holds (heap s' ! a) (st i @ more)
      \<and> carried (sensor_byte i) fs = slice (?p0 i) k (st i @ more)
      \<and> pieces (?p0 i + k) (pending a (q (qn s'))) (unat (nbytes_last_send (ti_at i s')))" if "i < 10" for i
    using sens [rule_format, OF that] that len by (fastforce simp: sensor_inv_def ti_at_def)
  with fs show ?thesis by blast
qed

end

section \<open>Properties\<close>

text \<open>
  C7. Telemetry arrives in order, end to end, to a client connected over TCP that stays and takes every byte. From the
  moment it is connected, under the interleavings of the two threads of a Luna in which no 32-bit counter wraps and no
  piece is overwritten while it is queued, with logs on other descriptors and a send of a header that returns: the bytes on
  the wire are complete frames; the frames of
  a sensor carry the bytes of that sensor's stream from the offset at the start on, in order,
  without gap or repetition; and the items still queued name the bytes that follow, up to the last
  ones announced.
\<close>

theorem telemetry_in_order:
  assumes "(on_time_step (luna_visit E C) E udp)\<^sup>*\<^sup>* s s'" and "luna_wf C s" and "on_line fd s"
    and "stays_up E fd" and "logs_apart E fd" and "missing_return E \<noteq> None"
    and "fd_bytes (trace s) fd = []" and "send_items (q (qn s)) = []"
    and "\<And>i a. i < 10 \<Longrightarrow> ti_buffer (ti_at i s) = Some a \<Longrightarrow> holds (heap s ! a) (st i) \<and> length (st i) < 4294967296
      \<and> unat (nbytes_last_send (ti_at i s)) \<le> length (st i)"
  shows "\<exists>fs. fd_bytes (trace s') fd = concat (map frame fs) \<and> (\<forall>i < 10. \<exists>a more k.
      ti_buffer (ti_at i s') = Some a \<and> holds (heap s' ! a) (st i @ more)
      \<and> carried (sensor_byte i) fs = slice (unat (nbytes_last_send (ti_at i s))) k (st i @ more)
      \<and> pieces (unat (nbytes_last_send (ti_at i s)) + k) (pending a (q (qn s'))) (unat (nbytes_last_send (ti_at i s'))))"
  by (rule luna_tele.tele_complete [OF assms(1-8)]) (rule assms(9))

text \<open>A Luna with a client, one second after the start, that has sensor 0 to visit.\<close>

definition tele_env :: env where
  "tele_env = sample_env\<lparr>env_write := \<lambda>tr fd bs. Some (length bs)\<rparr>"

definition tele_luna :: luna_visitor where
  "tele_luna = sample_luna\<lparr>qw := enqueue (timed_wqi 0) (safe_queue_new null_wqi), trace := [Bcm_init True]\<rparr>"

lemma tele_luna_wf: "luna_wf sample_config tele_luna"
  using sample_luna_wf by (simp add: luna_wf_def vis_wf_defs tele_luna_def wqi_ok_def)

theorem telemetry_in_order_witness:
  "\<exists>s'. worker_step (luna_visit tele_env sample_config) tele_luna = Inr s'
    \<and> (\<exists>fs. fd_bytes (trace s') 5 = concat (map frame fs) \<and> (\<exists>a more k. ti_buffer (ti_at 0 s') = Some a
        \<and> holds (heap s' ! a) more \<and> carried (sensor_byte 0) fs = take k more
        \<and> pieces k (pending a (q (qn s'))) (unat (nbytes_last_send (ti_at 0 s')))))"
proof -
  obtain s' where s': "worker_step (luna_visit tele_env sample_config) tele_luna = Inr s'"
    using luna.worker_round_ok [OF tele_luna_wf] by blast
  have "counting (heap tele_luna) (heap s')"
    by (simp add: counting_def tele_luna_def sample_ring_def)
  moreover have "unlapped tele_luna" by (simp add: unlapped_def tele_luna_def)
  ultimately have run: "(on_time_step (luna_visit tele_env sample_config) tele_env False)\<^sup>*\<^sup>* tele_luna s'"
    using worker_round [OF s', of tele_env False] by (simp add: on_time_step_def r_into_rtranclp)
  have up: "on_line 5 tele_luna" "stays_up tele_env 5" "logs_apart tele_env 5" "missing_return tele_env \<noteq> None"
    by (simp_all add: tele_luna_def tele_env_def sample_env_def on_line_def sample_network_def stays_up_def
        takes_all_def logs_apart_def)
  have start: "fd_bytes (trace tele_luna) 5 = []" "send_items (q (qn tele_luna)) = []"
    by (simp_all add: tele_luna_def fd_bytes_one send_items_def)
  have rings: "ti_buffer (ti_at i tele_luna) = Some i \<and> nbytes_last_send (ti_at i tele_luna) = 0
      \<and> holds (heap tele_luna ! i) []" if "i < 10" for i
    using that sample_visitor_ring
    by (simp add: tele_luna_def ti_at_def sample_ring_def holds_def cb_wf_def)
      (simp add: sample_til_def temp_ti_list_def timed_item_new_def less_Suc_eq numeral_eq_Suc, elim disjE; simp)
  have "\<exists>fs. fd_bytes (trace s') 5 = concat (map frame fs) \<and> (\<forall>i < 10. \<exists>a more k.
      ti_buffer (ti_at i s') = Some a \<and> holds (heap s' ! a) ([] @ more)
      \<and> carried (sensor_byte i) fs = slice (unat (nbytes_last_send (ti_at i tele_luna))) k ([] @ more)
      \<and> pieces (unat (nbytes_last_send (ti_at i tele_luna)) + k) (pending a (q (qn s'))) (unat (nbytes_last_send (ti_at i s'))))"
    by (rule telemetry_in_order [OF run tele_luna_wf up start, where st = "\<lambda>i. []"]) (use rings in auto)
  then show ?thesis using s' rings [of 0] by (fastforce simp: slice_def)
qed

end
