(* ===== verification/SharedRing.thy ===== *)
theory SharedRing
  imports CircularBuffer
begin

text \<open>
  A ring that is written while it is sent. The worker appends readings to a sensor's ring and the
  network thread sends from it without a lock, one \<open>write\<close> call per chunk; between two calls of a
  \<open>write_data\<close> any number of readings may come in. A step here is one append or one chunk.
\<close>

section \<open>Steps\<close>

text \<open>
  A call of \<open>write_data\<close> on its way: the ring, the arguments \<open>n\<close> and \<open>offset\<close> of the current
  activation, the trace, and the result once it has returned. \<open>sr_added\<close> records what the worker
  has appended meanwhile.
\<close>

record sending_ring =
  sr_ring :: circular_buffer
  sr_added :: "byte list"
  sr_n :: size_t
  sr_offset :: size_t
  sr_trace :: "event list"
  sr_result :: "int option"

inductive race_step :: "env \<Rightarrow> int \<Rightarrow> sending_ring \<Rightarrow> sending_ring \<Rightarrow> bool"
  for E fd where
  append: "add_data (sr_ring r) p = Inr b \<Longrightarrow> race_step E fd r (r\<lparr>sr_ring := b, sr_added := sr_added r @ p\<rparr>)"
| chunk: "sr_result r = None \<Longrightarrow>
    write_chunk E (sr_ring r) fd (sr_n r) (sr_offset r) (sr_trace r) = Inr (Inr (n, off), tr) \<Longrightarrow>
    race_step E fd r (r\<lparr>sr_n := n, sr_offset := off, sr_trace := tr\<rparr>)"
| returns: "sr_result r = None \<Longrightarrow>
    write_chunk E (sr_ring r) fd (sr_n r) (sr_offset r) (sr_trace r) = Inr (Inl v, tr) \<Longrightarrow>
    race_step E fd r (r\<lparr>sr_result := Some v, sr_trace := tr\<rparr>)"

inductive_cases race_stepE: "race_step E fd r r'"

section \<open>The invariant\<close>

text \<open>
  Against the start \<open>r0\<close>, over the stream \<open>st\<close>: the ring holds the stream and what was added, and
  as long as nothing of the range has been overwritten, what went out is the first \<open>k\<close> bytes of
  the range and the call still has the rest to send.
\<close>

definition race_inv :: "env \<Rightarrow> int \<Rightarrow> byte list \<Rightarrow> sending_ring \<Rightarrow> sending_ring \<Rightarrow> bool" where
  "race_inv E fd st r0 r \<longleftrightarrow>
     (length (st @ sr_added r) < 4294967296 \<longrightarrow>
        holds (sr_ring r) (st @ sr_added r) \<and> nbytes (sr_ring r) = nbytes (sr_ring r0)
        \<and> (length (st @ sr_added r) \<le> unat (sr_offset r0) + unat (nbytes (sr_ring r0)) \<longrightarrow>
            (\<exists>k \<le> unat (sr_n r0).
               fd_bytes (sr_trace r) fd = fd_bytes (sr_trace r0) fd @ slice (unat (sr_offset r0)) k st
               \<and> unat (sr_n r) = unat (sr_n r0) - k \<and> unat (sr_offset r) = unat (sr_offset r0) + k
               \<and> (sr_result r = Some 0 \<and> no_zero_writes E \<longrightarrow> k = unat (sr_n r0)))))"

lemma race_inv_append:
  assumes inv: "race_inv E fd st r0 r" and add: "add_data (sr_ring r) p = Inr b"
  shows "race_inv E fd st r0 (r\<lparr>sr_ring := b, sr_added := sr_added r @ p\<rparr>)"
proof -
  have "holds b (st @ sr_added r @ p) \<and> nbytes b = nbytes (sr_ring r0)"
    if "length (st @ sr_added r @ p) < 4294967296"
    using add_data_appends [of "sr_ring r" "st @ sr_added r" p] add inv that
    by (auto simp: race_inv_def counter_ok_def)
  with inv show ?thesis by (simp add: race_inv_def)
qed

text \<open>The bytes of a chunk inside the range that is still in the ring continue the range.\<close>

lemma chunk_in_range:
  assumes "holds b (st @ xs)" and "length (st @ xs) \<le> o0 + unat (nbytes b)" and "o0 + k + j \<le> length st"
  shows "slice o0 k st @ ring_bytes b (o0 + k) j = slice o0 (k + j) st"
proof -
  have "ring_bytes b (o0 + k) j = slice (o0 + k) j (st @ xs)"
    using assms by (intro holds_ring_bytes) simp_all
  also have "\<dots> = slice (o0 + k) j st" using assms(3) by (simp add: slice_def)
  finally show ?thesis using assms(3) by (simp add: slice_append)
qed

lemma race_inv_chunk:
  assumes inv: "race_inv E fd st r0 r" and range: "unat (sr_offset r0) + unat (sr_n r0) \<le> length st"
    and out: "write_chunk E (sr_ring r) fd (sr_n r) (sr_offset r) (sr_trace r) = Inr (res, tr)"
    and none: "sr_result r = None"
  shows "race_inv E fd st r0 (case res of
      Inl v \<Rightarrow> r\<lparr>sr_result := Some v, sr_trace := tr\<rparr>
    | Inr (n, off) \<Rightarrow> r\<lparr>sr_n := n, sr_offset := off, sr_trace := tr\<rparr>)" (is "race_inv E fd st r0 ?r'")
proof -
  have same: "sr_ring ?r' = sr_ring r" "sr_added ?r' = sr_added r"
    by (auto split: sum.splits)
  let ?o = "unat (sr_offset r0)" and ?n = "unat (sr_n r0)"
  have "\<exists>k' \<le> ?n. fd_bytes (sr_trace ?r') fd = fd_bytes (sr_trace r0) fd @ slice ?o k' st
      \<and> unat (sr_n ?r') = ?n - k' \<and> unat (sr_offset ?r') = ?o + k'
      \<and> (sr_result ?r' = Some 0 \<and> no_zero_writes E \<longrightarrow> k' = ?n)"
    if len: "length (st @ sr_added r) < 4294967296" "length (st @ sr_added r) \<le> ?o + unat (nbytes (sr_ring r0))"
  proof -
    from inv len obtain k where h: "holds (sr_ring r) (st @ sr_added r)" "nbytes (sr_ring r) = nbytes (sr_ring r0)"
      and k: "k \<le> ?n" "fd_bytes (sr_trace r) fd = fd_bytes (sr_trace r0) fd @ slice ?o k st"
        "unat (sr_n r) = ?n - k" "unat (sr_offset r) = ?o + k"
      unfolding race_inv_def by blast
    have wf: "cb_wf (sr_ring r)" using h(1) by (simp add: holds_def)
    show ?thesis
    proof (cases "sr_n r = 0")
      case True
      then have "res = Inl 0" "tr = sr_trace r" using out by (auto simp: write_chunk_def)
      with True k show ?thesis by (intro exI [of _ k]) simp
    next
      case n: False
      from write_chunk_round [OF wf n, of E fd "sr_offset r" "sr_trace r"] obtain j tr2 where
        w: "write_chunk E (sr_ring r) fd (sr_n r) (sr_offset r) (sr_trace r) =
          (if j \<le> 0 then Inr (Inl j, tr2 @ [Stderr ''Error while writing.''])
           else Inr (Inr (sr_n r - word_of_int j, sr_offset r + word_of_int j), tr2))"
        and j: "-1 \<le> j" "j \<le> int (unat (sr_n r))" "j = 0 \<longrightarrow> \<not> no_zero_writes E"
        and bytes: "fd_bytes tr2 fd = fd_bytes (sr_trace r) fd @ ring_bytes (sr_ring r) (unat (sr_offset r)) (nat j)"
        by blast
      have res: "if j \<le> 0 then res = Inl j \<and> tr = tr2 @ [Stderr ''Error while writing.'']
          else res = Inr (sr_n r - word_of_int j, sr_offset r + word_of_int j) \<and> tr = tr2"
        using out unfolding w by (simp split: if_splits)
      show ?thesis
      proof (cases "j \<le> 0")
        case True
        with res j bytes k n show ?thesis
          by (intro exI [of _ k]) (auto simp: fd_bytes_one)
      next
        case False
        note u = word_of_int_chunk [of j "sr_n r", OF _ j(2)]
        have le: "k + nat j \<le> ?n" using j(2) k(1,3) False by linarith
        have "unat (sr_offset r + word_of_int j) = ?o + k + nat j"
          using u(3) False k(4) le range len(1) by (subst unat_add_no_wrap) simp_all
        moreover have "unat (sr_n r - word_of_int j) = ?n - (k + nat j)"
          using u(1) False k(3) by simp
        moreover have "fd_bytes tr fd = fd_bytes (sr_trace r0) fd @ slice ?o (k + nat j) st"
          using res False bytes k(2,4) chunk_in_range [OF h(1), of ?o k "nat j"] len(2) h(2) le range by simp
        ultimately show ?thesis
          using res False le none by (intro exI [of _ "k + nat j"]) simp
      qed
    qed
  qed
  with inv same show ?thesis by (simp add: race_inv_def)
qed

lemma race_inv_steps:
  assumes "(race_step E fd)\<^sup>*\<^sup>* r0 r" and "race_inv E fd st r0 r0"
    and range: "unat (sr_offset r0) + unat (sr_n r0) \<le> length st"
  shows "race_inv E fd st r0 r"
  using assms(1)
proof (induction rule: rtranclp_induct)
  case base
  show ?case by (rule assms(2))
next
  case (step r r')
  from step(2) show ?case
  proof (rule race_stepE)
    fix p b assume "r' = r\<lparr>sr_ring := b, sr_added := sr_added r @ p\<rparr>" "add_data (sr_ring r) p = Inr b"
    with race_inv_append [OF step(3)] show ?thesis by simp
  next
    fix n off tr
    assume "r' = r\<lparr>sr_n := n, sr_offset := off, sr_trace := tr\<rparr>" "sr_result r = None"
      "write_chunk E (sr_ring r) fd (sr_n r) (sr_offset r) (sr_trace r) = Inr (Inr (n, off), tr)"
    with race_inv_chunk [OF step(3) range, of "Inr (n, off)" tr] show ?thesis by simp
  next
    fix v tr
    assume "r' = r\<lparr>sr_result := Some v, sr_trace := tr\<rparr>" "sr_result r = None"
      "write_chunk E (sr_ring r) fd (sr_n r) (sr_offset r) (sr_trace r) = Inr (Inl v, tr)"
    with race_inv_chunk [OF step(3) range, of "Inl v" tr] show ?thesis by simp
  qed
qed

section \<open>Properties\<close>

text \<open>
  C17. Sending is safe against readings that come in meanwhile. Between any two \<open>write\<close> calls of a
  \<open>write_data\<close> the worker may append to the ring; as long as what has been added has not lapped the
  start of the range, the bytes that went out are the first bytes of the range as it was announced,
  the call has exactly the others left, and when it returns 0 the range is complete. No lock is
  needed for that: the capacity of the ring is the margin.
\<close>

theorem concurrent_send_correct:
  assumes "(race_step E fd)\<^sup>*\<^sup>* r r'" and "holds (sr_ring r) st" and "sr_added r = []" and "sr_result r = None"
    and "unat (sr_offset r) + unat (sr_n r) \<le> length st"
    and "length (st @ sr_added r') < 4294967296"
    and "length (st @ sr_added r') \<le> unat (sr_offset r) + unat (nbytes (sr_ring r))"
  shows "holds (sr_ring r') (st @ sr_added r')
    \<and> (\<exists>k \<le> unat (sr_n r). fd_bytes (sr_trace r') fd = fd_bytes (sr_trace r) fd @ slice (unat (sr_offset r)) k st
        \<and> unat (sr_n r') = unat (sr_n r) - k \<and> (sr_result r' = Some 0 \<and> no_zero_writes E \<longrightarrow> k = unat (sr_n r)))"
proof -
  have "race_inv E fd st r r"
    using assms(2-4) by (auto simp: race_inv_def slice_def intro!: exI [of _ 0])
  from race_inv_steps [OF assms(1) this assms(5)] assms(6,7) show ?thesis
    unfolding race_inv_def by blast
qed

text \<open>A ring of four bytes, of whose three the last two are being sent while a fourth comes in.\<close>

definition sample_race :: sending_ring where
  "sample_race = \<lparr>sr_ring = \<lparr>nbytes = 4, bytes_written = 3, data = [1, 2, 3, 9]\<rparr>, sr_added = [],
     sr_n = 2, sr_offset = 1, sr_trace = [], sr_result = None\<rparr>"

theorem concurrent_send_correct_witness:
  "\<exists>r'. (race_step sample_env 7)\<^sup>*\<^sup>* sample_race r' \<and> sr_added r' = [4] \<and> sr_result r' = None
     \<and> fd_bytes (sr_trace r') 7 = [2, 3]"
proof -
  define r1 where "r1 = sample_race\<lparr>sr_ring := \<lparr>nbytes = 4, bytes_written = 4, data = [1, 2, 3, 4]\<rparr>, sr_added := [4]\<rparr>"
  define r2 where "r2 = r1\<lparr>sr_n := 0, sr_offset := 3, sr_trace := [Sys_write 7 [2, 3] 2]\<rparr>"
  have add: "add_data (sr_ring sample_race) [4] = Inr \<lparr>nbytes = 4, bytes_written = 4, data = [1, 2, 3, 4]\<rparr>"
    by (subst add_data.simps) (simp add: sample_race_def memcpy_to_def overwrite_def)
  have s1: "race_step sample_env 7 sample_race r1"
    using race_step.append [of sample_race "[4]", OF add, of sample_env 7] by (simp add: r1_def sample_race_def)
  have "write_chunk sample_env (sr_ring r1) 7 (sr_n r1) (sr_offset r1) (sr_trace r1) = Inr (Inr (0, 3), [Sys_write 7 [2, 3] 2])"
    by (simp add: write_chunk_def r1_def sample_race_def is_overwritten_def memcpy_from_def slice_def sys_write_def
        sample_env_def Let_def)
  then have s2: "race_step sample_env 7 r1 r2"
    unfolding r2_def by (intro race_step.chunk) (simp_all add: r1_def sample_race_def)
  have run: "(race_step sample_env 7)\<^sup>*\<^sup>* sample_race r2" using s1 s2 by auto
  have "holds (sr_ring sample_race) [1, 2, 3]"
    by (simp add: holds_def cb_wf_def sample_race_def all_less_upt upt_rec)
  from concurrent_send_correct [OF run this] obtain k where
    "fd_bytes (sr_trace r2) 7 = slice 1 k [1, 2, 3]" "unat (sr_n r2) = 2 - k" "k \<le> 2"
    by (auto simp: sample_race_def r2_def r1_def)
  moreover from this have "k = 2" by (simp add: r2_def)
  ultimately have "fd_bytes (sr_trace r2) 7 = [2, 3]" by (simp add: slice_def)
  then show ?thesis using run by (intro exI [of _ r2]) (simp add: r2_def r1_def sample_race_def)
qed

end
