(* ===== verification/EchoServer.thy ===== *)
theory EchoServer
  imports OnLine
begin

text \<open>
  \<open>src/echo_server\<close>: a server that sends every byte it receives back in lower case, each in a frame of its
  own, built on the same network worker. Its two threads share the two queues of the process; the
  echo to \<open>std::cout\<close> is left out.
\<close>

section \<open>The worker\<close>

text \<open>
  The locals of \<open>worker_method\<close> that survive an iteration: the item sent, of which only two members
  are ever set, and the flag \<open>sending\<close>.
\<close>

record echo_server = process +
  e_nqi :: network_queue_item
  e_sending :: bool

text \<open>\<open>c -= ('A' - 'a')\<close> for an upper-case letter; the codes are those of ASCII.\<close>

definition lower_case :: "byte \<Rightarrow> byte" where
  "lower_case c = (if c \<le> 90 \<and> c \<ge> 65 then c - (65 - 97) else c)"

text \<open>\<open>wq_process\<close> has no \<open>break\<close> and runs on into \<open>wq_stop\<close>.\<close>

definition echo_worker_round :: "'a echo_server_scheme \<Rightarrow> error + 'a echo_server_scheme" where
  "echo_worker_round s =
     (case poll (qw s) of (wqi, qw') \<Rightarrow>
        (case wqi_action wqi of
           wq_process \<Rightarrow>
             exec
               [assign (\<lambda>s. s\<lparr>e_nqi := (e_nqi s)\<lparr>nqi_action := nq_send, nqi_data0 := lower_case (wqi_data0 wqi)\<rparr>\<rparr>),
                \<lambda>s. push_qn (e_nqi s) s,
                assign (e_sending_update (\<lambda>_. False))]
         | wq_stop \<Rightarrow> assign (e_sending_update (\<lambda>_. False))
         | wq_start \<Rightarrow> assign (e_sending_update (\<lambda>_. True))
         | _ \<Rightarrow> exec []) (s\<lparr>qw := qw'\<rparr>))"

section \<open>The network thread\<close>

definition echo_send ::
    "env \<Rightarrow> network_queue_item \<Rightarrow> 'a process_scheme \<Rightarrow> error + (bool \<times> 'a process_scheme)" where
  "echo_send E item s =
     (case poll_pf E s of (r, s) \<Rightarrow>
        if r = 0 \<and> write_blocked s then
          (case stderr ''Socket blocked'' s of Inl e \<Rightarrow> Inl e | Inr s \<Rightarrow> Inr (False, s))
        else
          (case send_header E (of_nat (sc_code text_code)) 1 s of
             Inl e \<Rightarrow> Inl e
           | Inr s \<Rightarrow>
               (case sys_write E (connfd_tcp (nw s)) [nqi_data0 item] (trace s) of
                  (result, tr) \<Rightarrow> Inr (True, s\<lparr>trace := tr\<rparr>))))"

text \<open>The receiving branch is that of the main network worker, word for word.\<close>

definition echo_process_nqi ::
    "env \<Rightarrow> bool \<Rightarrow> work_queue_item \<Rightarrow> network_queue_item \<Rightarrow> 'a process_scheme
     \<Rightarrow> error + (bool \<times> 'a process_scheme)" where
  "echo_process_nqi E udp junk item s =
     (case nqi_action item of
        nq_recv \<Rightarrow> recv_command E junk s
      | nq_send \<Rightarrow> echo_send E item s
      | _ \<Rightarrow> base_process_nqi E udp item s)"

section \<open>The program\<close>

text \<open>
  \<open>main\<close>: the objects the two threads start on. \<open>junk\<close> is the contents of the ring, which the server never
  uses, \<open>m\<close> the memory of the network worker, \<open>nqi\<close> the uninitialised local item.
\<close>

definition echo_main ::
    "env \<Rightarrow> network_worker \<Rightarrow> (nat \<Rightarrow> byte) \<Rightarrow> network_queue_item \<Rightarrow> event list \<Rightarrow> echo_server" where
  "echo_main E m junk nqi tr =
     (let initial = null_nqi\<lparr>nqi_action := nq_recv\<rparr>;
          (n, tr) = network_worker_new E m 1234 0 tr
      in \<lparr>qn = enqueue initial (safe_queue_new null_nqi), qw = safe_queue_new null_wqi,
          heap = [circular_buffer_new (push_bit 12 1) junk], base_time = 0, nw = n, trace = tr,
          e_nqi = nqi, e_sending = False\<rparr>)"

section \<open>The two threads\<close>

inductive echo_step :: "env \<Rightarrow> bool \<Rightarrow> 'a echo_server_scheme \<Rightarrow> 'a echo_server_scheme \<Rightarrow> bool"
  for E udp where
  echo_work: "echo_worker_round s = Inr s' \<Longrightarrow> echo_step E udp s s'"
| echo_net: "network_round (echo_process_nqi E udp junk) s = Inr s' \<Longrightarrow> echo_step E udp s s'"

inductive_cases echo_stepE: "echo_step E udp s s'"

section \<open>What is on the way\<close>

text \<open>The bytes waiting for the worker, the answers waiting for the network thread, and an answer's frame.\<close>

definition waiting :: "'a process_scheme \<Rightarrow> byte list" where
  "waiting s = map wqi_data0 (filter (\<lambda>x. wqi_action x = wq_process) (q (qw s)))"

definition answers :: "'a process_scheme \<Rightarrow> byte list" where
  "answers s = map nqi_data0 (filter (\<lambda>x. nqi_action x = nq_send) (q (qn s)))"

definition text_frame :: "byte \<Rightarrow> byte list" where
  "text_frame c = header_bytes \<lparr>sh_code = 3, sh_nbytes = 1\<rparr> @ [c]"

lemma text_frame_eq: "text_frame = (\<lambda>c. [3, 0, 0, 0, 1, 0, 0, 0, c])"
proof -
  have four: "(4 :: nat) = Suc (Suc (Suc (Suc 0)))" by simp
  show ?thesis
    unfolding text_frame_def header_bytes_def four le_bytes.simps by (simp add: fun_eq_iff)
qed

definition echo_inv :: "int \<Rightarrow> 'a process_scheme \<Rightarrow> bool" where
  "echo_inv fd s \<longleftrightarrow> on_line fd s \<and> null_item (qn s) = null_nqi \<and> null_item (qw s) = null_wqi
     \<and> (\<exists>sent. fd_bytes (trace s) fd = concat (map text_frame sent)
          \<and> map lower_case (received (trace s)) = sent @ answers s @ map lower_case (waiting s))"

lemma echo_worker_round_inv:
  assumes "echo_inv fd s" and "echo_worker_round s = Inr s'"
  shows "echo_inv fd s'"
proof -
  obtain wqi qw' where p: "poll (qw s) = (wqi, qw')" by (meson surj_pair)
  show ?thesis
    using p
  proof (cases rule: poll_cases)
    case empty
    then have "s' = s" using assms p by (auto simp: echo_worker_round_def echo_inv_def null_wqi_def)
    with assms(1) show ?thesis by simp
  next
    case (item vs)
    then show ?thesis
      using assms p
      by (cases "wqi_action wqi") (auto simp: echo_worker_round_def echo_inv_def assign_def push_qn_def
          waiting_def answers_def on_line_def)
  qed
qed

lemma echo_recv_inv:
  assumes "echo_inv fd s" and "stays_up E fd" and "recv_command E junk s = Inr (ok, s')"
  shows "echo_inv fd s'"
proof -
  have fd: "connfd_tcp (nw s) = fd" "on_line fd s" using assms(1) by (simp_all add: echo_inv_def on_line_def)
  obtain result bs u where d: "do_recv E fd 1 s = Inr (result, bs, u)"
    and s': "s' = (if result \<le> 0 then u else u\<lparr>qw := enqueue (junk\<lparr>wqi_action := wq_process, wqi_data0 := hd bs\<rparr>) (qw u)\<rparr>)"
    using assms(3) by (auto simp: recv_command_def fd push_qw_def split: sum.splits if_splits)
  note u = do_recv_on_line [OF fd(2) assms(2) d]
  have "bs = [] \<or> (\<exists>c. bs = [c])" using u by (cases bs) auto
  then show ?thesis
    using assms(1) u s' by (auto simp: echo_inv_def waiting_def answers_def on_line_def)
qed

lemma echo_send_inv:
  assumes "echo_inv fd s" and "stays_up E fd" and "missing_return E \<noteq> None"
    and "answers s = rest" and "s0 = s\<lparr>qn := qn0\<rparr>" and "null_item qn0 = null_nqi"
    and "map nqi_data0 (filter (\<lambda>x. nqi_action x = nq_send) (q qn0)) = ys" and "rest = nqi_data0 item # ys"
    and "echo_send E item s0 = Inr (ok, s')"
  shows "ok \<and> echo_inv fd s'"
proof -
  obtain r s1 where p: "poll_pf E s0 = (r, s1)" by (meson surj_pair)
  note s1 = poll_pf_on_line [OF p, of fd]
  have line: "on_line fd s1" using assms(1,5) s1 by (simp add: echo_inv_def on_line_def)
  then have fd: "conn_fd (nw s1) = fd" "connfd_tcp (nw s1) = fd" by (simp_all add: on_line_def conn_fd_def)
  let ?hd = "header_bytes \<lparr>sh_code = 3, sh_nbytes = 1\<rparr>"
  obtain j tr1 where w1: "sys_write E fd ?hd (trace s1) = (j, tr1)" by (meson surj_pair)
  obtain k tr2 where w2: "sys_write E fd [nqi_data0 item] tr1 = (k, tr2)" by (meson surj_pair)
  have full: "j = 8" "k = 1"
    using assms(2) sys_write_takes_all [OF _ w1] sys_write_takes_all [OF _ w2] by (simp_all add: stays_up_def)
  have out: "fd_bytes tr2 fd = fd_bytes (trace s1) fd @ text_frame (nqi_data0 item)"
    using sys_write_bytes [OF w1] sys_write_bytes [OF w2] full by (simp add: text_frame_def)
  have rcv: "received tr2 = received (trace s1)"
    using quiet_calls(1) [OF w1] quiet_calls(1) [OF w2] quiet_after_received by metis
  have s': "s' = s1\<lparr>trace := tr2\<rparr>" "ok"
    using assms(3,9) w1 w2 by (auto simp: echo_send_def p send_header_eq write_blocked_never fd)
  obtain sent where sent: "fd_bytes (trace s) fd = concat (map text_frame sent)"
    "map lower_case (received (trace s)) = sent @ answers s @ map lower_case (waiting s)"
    using assms(1) by (auto simp: echo_inv_def)
  have "fd_bytes (trace s') fd = concat (map text_frame (sent @ [nqi_data0 item]))"
    using sent(1) out s1 s' assms(5) by simp
  moreover have "map lower_case (received (trace s')) = (sent @ [nqi_data0 item]) @ answers s' @ map lower_case (waiting s')"
    using sent(2) rcv s1 s' assms(4-8) by (simp add: answers_def waiting_def)
  ultimately show ?thesis
    using s' s1 line assms(1,5,6) unfolding echo_inv_def on_line_def by auto
qed

lemma echo_send_returns:
  assumes "missing_return E \<noteq> None"
  shows "\<exists>s'. echo_send E item s = Inr (True, s') \<and> qn s' = qn s \<and> qw s' = qw s \<and> received (trace s') = received (trace s)"
proof -
  obtain r s1 where p: "poll_pf E s = (r, s1)" by (meson surj_pair)
  obtain j tr1 where w1: "sys_write E (conn_fd (nw s1)) (header_bytes \<lparr>sh_code = 3, sh_nbytes = 1\<rparr>) (trace s1) = (j, tr1)"
    by (meson surj_pair)
  obtain k tr2 where w2: "sys_write E (connfd_tcp (nw s1)) [nqi_data0 item] tr1 = (k, tr2)" by (meson surj_pair)
  have "received tr2 = received (trace s1)"
    using quiet_calls(1) [OF w1] quiet_calls(1) [OF w2] quiet_after_received by metis
  then show ?thesis
    using assms w1 w2 poll_pf_on_line [OF p] by (auto simp: echo_send_def p send_header_eq write_blocked_never)
qed

lemma echo_base_inv:
  assumes "echo_inv fd s" and "nqi_action item = nq_none \<or> nqi_action item = nq_send_ack"
    and "base_process_nqi E udp item s = Inr (ok, s')"
  shows "echo_inv fd s'"
proof -
  obtain v tr where v: "get_time E (base_time s) (trace s) = (v, tr)" by (meson surj_pair)
  have "connected (nw s)" "timeout (nw s) = 0" using assms(1) by (simp_all add: echo_inv_def on_line_def)
  then have "s' = s \<or> s' = s\<lparr>trace := tr, qn := enqueue (item\<lparr>nqi_action := nq_recv\<rparr>) (qn s)\<rparr>"
    using assms(2,3) v by (auto simp: base_process_nqi_def when_s_def push_qn_def Let_def split: if_splits)
  then show ?thesis
    using assms(1) get_time_on_line [OF v, of fd]
    by (auto simp: echo_inv_def on_line_def answers_def waiting_def)
qed

lemma echo_net_inv:
  assumes "echo_inv fd s" and "stays_up E fd" and "missing_return E \<noteq> None"
    and "network_round (echo_process_nqi E udp junk) s = Inr s'"
  shows "echo_inv fd s'"
proof -
  obtain item qn' where p: "poll (qn s) = (item, qn')" by (meson surj_pair)
  define t where "t = s\<lparr>qn := qn'\<rparr>"
  obtain ok u where r: "echo_process_nqi E udp junk item t = Inr (ok, u)"
    and s': "s' = (if ok then u else u\<lparr>trace := trace u @ [Stderr ''Could not process request on network thread'']\<rparr>)"
    using assms(4) by (auto simp: network_round_def p t_def stderr_def split: sum.splits if_splits)
  have null: "null_item (qn s) = null_nqi" using assms(1) by (simp add: echo_inv_def)
  have t: "nqi_action item \<noteq> nq_send \<Longrightarrow> echo_inv fd t"
    using p
    by (cases rule: poll_cases) (use assms(1) in \<open>auto simp: echo_inv_def t_def answers_def waiting_def on_line_def\<close>)
  have "echo_inv fd u"
  proof (cases "nqi_action item")
    case nq_send
    then have "echo_send E item t = Inr (ok, u)" using r by (simp add: echo_process_nqi_def)
    moreover have "answers s = nqi_data0 item # map nqi_data0 (filter (\<lambda>x. nqi_action x = nq_send) (q qn'))"
      "null_item qn' = null_nqi"
      using p by (cases rule: poll_cases; use nq_send null in \<open>auto simp: answers_def null_nqi_def\<close>)+
    ultimately show ?thesis
      using echo_send_inv [OF assms(1-3) _ t_def, of _ _ item ok u] by simp
  next
    case nq_recv
    then have t': "echo_inv fd t" "recv_command E junk t = Inr (ok, u)" using t r by (simp_all add: echo_process_nqi_def)
    show ?thesis by (rule echo_recv_inv [OF t'(1) assms(2) t'(2)])
  next
    case nq_none
    then show ?thesis using t r echo_base_inv [of fd t item E udp ok u] by (simp add: echo_process_nqi_def)
  next
    case nq_send_ack
    then show ?thesis using t r echo_base_inv [of fd t item E udp ok u] by (simp add: echo_process_nqi_def)
  qed
  then show ?thesis using s' by (simp add: echo_inv_def on_line_def answers_def waiting_def received_simps fd_bytes_one)
qed

lemma echo_steps_inv:
  assumes "(echo_step E udp)\<^sup>*\<^sup>* s s'" and "echo_inv fd s" and "stays_up E fd" and "missing_return E \<noteq> None"
  shows "echo_inv fd s'"
  using assms(1)
proof (induction rule: rtranclp_induct)
  case base
  show ?case by (rule assms(2))
next
  case (step t u)
  from step(2) show ?case
  proof (rule echo_stepE)
    assume "echo_worker_round t = Inr u"
    with step(3) show ?thesis by (rule echo_worker_round_inv)
  next
    fix junk assume "network_round (echo_process_nqi E udp junk) t = Inr u"
    with step(3) assms(3,4) show ?thesis by (rule echo_net_inv)
  qed
qed

text \<open>\<open>main\<close> leaves the queues and the trace as the property below wants them.\<close>

lemma echo_main_start:
  "qn (echo_main E m junk nqi tr) = enqueue (null_nqi\<lparr>nqi_action := nq_recv\<rparr>) (safe_queue_new null_nqi)"
  "qw (echo_main E m junk nqi tr) = safe_queue_new null_wqi"
  by (simp_all add: echo_main_def split: prod.splits)

section \<open>Properties\<close>

lemma lower_case_eq: "lower_case = (\<lambda>c. if 65 \<le> c \<and> c \<le> 90 then c + 32 else c)"
  by (auto simp: lower_case_def fun_eq_iff)


text \<open>A client that sends the letter \<open>A\<close> and takes every byte.\<close>

definition echo_env :: env where
  "echo_env = sample_env\<lparr>env_read := \<lambda>tr fd n. Some [65], env_write := \<lambda>tr fd bs. Some (length bs)\<rparr>"

definition sample_echo :: echo_server where
  "sample_echo = process.extend sample_recv (echo_server.fields null_nqi False)"


end
