(* ===== verification/Samplers.thy ===== *)
theory Samplers
  imports Network AdcBlock
begin

text \<open>
  \<open>src/counter\<close> and \<open>src/adc/threaded_adc_test.cpp\<close>: two small samplers that fill one ring, the first cell
  of the heap, and queue send items as the ring advances, with the network threads and mains around
  them. They are the ancestors of the sensor visits of the controller.
\<close>

section \<open>State\<close>

text \<open>The locals of both loops that survive an iteration; \<open>s_nqi\<close> is uninitialised at first.\<close>

record sampler = process +
  s_nqi :: network_queue_item
  s_sending :: bool
  s_last :: size_t

text \<open>What both do with a work item; \<open>wq_process\<close> has no \<open>break\<close> and runs on into \<open>wq_stop\<close>.\<close>

definition sampler_round ::
    "('a sampler_scheme \<Rightarrow> error + 'a sampler_scheme) list \<Rightarrow> 'a sampler_scheme \<Rightarrow> error + 'a sampler_scheme" where
  "sampler_round idle s =
     (case poll (qw s) of (wqi, qw') \<Rightarrow>
        (case wqi_action wqi of
           wq_process \<Rightarrow> assign (s_sending_update (\<lambda>_. False))
         | wq_stop \<Rightarrow> assign (s_sending_update (\<lambda>_. False))
         | wq_start \<Rightarrow> assign (s_sending_update (\<lambda>_. True))
         | wq_none \<Rightarrow> when_s s_sending idle
         | _ \<Rightarrow> exec []) (s\<lparr>qw := qw'\<rparr>))"

definition ring_add :: "byte list \<Rightarrow> 'a process_scheme \<Rightarrow> error + 'a process_scheme" where
  "ring_add p s =
     (case deref (heap s) (Some 0) of
        Inl e \<Rightarrow> Inl e
      | Inr b \<Rightarrow> (case add_data b p of Inl e \<Rightarrow> Inl e | Inr b' \<Rightarrow> Inr (s\<lparr>heap := (heap s)[0 := b']\<rparr>)))"

text \<open>\<open>if (bw > last_send + 100 * sizeof(reading))\<close>, in \<open>size_t\<close>; \<open>fill\<close> sets the members of the item.\<close>

definition ring_send ::
    "(size_t \<Rightarrow> size_t \<Rightarrow> network_queue_item \<Rightarrow> network_queue_item) \<Rightarrow> 'a sampler_scheme \<Rightarrow> error + 'a sampler_scheme" where
  "ring_send fill_item s =
     (case deref (heap s) (Some 0) of
        Inl e \<Rightarrow> Inl e
      | Inr b \<Rightarrow>
          (let bw = bytes_written b
           in if bw > s_last s + 100 * 16
              then (let item = fill_item bw (s_last s) (s_nqi s)
                    in Inr (s\<lparr>s_nqi := item, qn := enqueue item (qn s), s_last := bw\<rparr>))
              else Inr s))"

primrec sampler_rounds :: "('s \<Rightarrow> error + 's) \<Rightarrow> nat \<Rightarrow> 's \<Rightarrow> error + 's" where
  "sampler_rounds f 0 s = Inr s"
| "sampler_rounds f (Suc n) s = (case sampler_rounds f n s of Inl e \<Rightarrow> Inl e | Inr s' \<Rightarrow> f s')"

section \<open>The counter\<close>

record counter = sampler +
  c_count :: "16 word"

text \<open>The 16 bytes of the global \<open>reading\<close>: a number, six bytes of padding, and the number again as its time.\<close>

definition dummy_reading :: "16 word \<Rightarrow> byte list" where
  "dummy_reading c = le_bytes 2 (unat c) @ replicate 6 0 @ le_bytes 8 (unat c)"

definition counter_item :: "size_t \<Rightarrow> size_t \<Rightarrow> network_queue_item \<Rightarrow> network_queue_item" where
  "counter_item bw prev item = item\<lparr>nqi_action := nq_send, nqi_nbytes := bw - prev, total_bytes := prev, nqi_buff := Some 0\<rparr>"

definition counter_round :: "'a counter_scheme \<Rightarrow> error + 'a counter_scheme" where
  "counter_round = sampler_round
     [\<lambda>s. ring_add (dummy_reading (c_count s)) s,
      assign (c_count_update (\<lambda>c. c + 1)),
      ring_send counter_item]"

text \<open>
  \<open>main\<close>: the objects the two threads start on. \<open>junk\<close> is the contents of the new ring, \<open>m\<close> the memory of the
  network worker, \<open>nqi\<close> the uninitialised local item.
\<close>

definition counter_main ::
    "env \<Rightarrow> network_worker \<Rightarrow> (nat \<Rightarrow> byte) \<Rightarrow> network_queue_item \<Rightarrow> event list \<Rightarrow> counter" where
  "counter_main E m junk nqi tr =
     (let initial = null_nqi\<lparr>nqi_action := nq_recv\<rparr>;
          (n, tr) = network_worker_new E m 1234 0 tr
      in \<lparr>qn = enqueue initial (safe_queue_new null_nqi), qw = safe_queue_new null_wqi,
          heap = [circular_buffer_new (push_bit 16 1) junk], base_time = 0, nw = n, trace = tr,
          s_nqi = nqi, s_sending = False, s_last = 0, c_count = 0\<rparr>)"

text \<open>
  \<open>network_counter_worker::process_nqi\<close> names a member \<open>connfd\<close> that the network worker no longer has, so it
  does not compile; what that member was is the argument \<open>connfd\<close> here. A byte starts or stops the
  sampling, a send item goes out under the code \<open>payload\<close>.
\<close>

definition start_stop :: "byte \<Rightarrow> work_queue_item_action" where
  "start_stop c = (if c = 48 then wq_start else if c = 49 then wq_stop else wq_none)"

definition counter_recv ::
    "env \<Rightarrow> int \<Rightarrow> work_queue_item \<Rightarrow> 'a process_scheme \<Rightarrow> error + (bool \<times> 'a process_scheme)" where
  "counter_recv E connfd junk s =
     (case do_recv E connfd 1 s of
        Inl e \<Rightarrow> Inl e
      | Inr (read_result, bs, s) \<Rightarrow>
          if read_result \<le> 0 then Inr (True, s)
          else (case push_qw (junk\<lparr>wqi_action := start_stop (hd bs)\<rparr>) s of
                  Inl e \<Rightarrow> Inl e | Inr s \<Rightarrow> Inr (True, s)))"

definition counter_send ::
    "env \<Rightarrow> int \<Rightarrow> network_queue_item \<Rightarrow> 'a process_scheme \<Rightarrow> error + (bool \<times> 'a process_scheme)" where
  "counter_send E connfd item s =
     (case poll_pf E s of (r, s) \<Rightarrow>
        if r = 0 \<and> write_blocked s then
          (case stderr ''Socket blocked'' s of Inl e \<Rightarrow> Inl e | Inr s \<Rightarrow> Inr (True, s))
        else
          (case deref (heap s) (nqi_buff item) of
             Inl e \<Rightarrow> Inl e
           | Inr b \<Rightarrow>
               (case send_header E (of_nat (sc_code payload)) (nqi_nbytes item) s of
                  Inl e \<Rightarrow> Inl e
                | Inr s \<Rightarrow>
                    (case write_data E b connfd (nqi_nbytes item) (total_bytes item) (trace s) of
                       Inl e \<Rightarrow> Inl e
                     | Inr (result, tr) \<Rightarrow>
                         Inr (True, s\<lparr>trace := (if result \<noteq> 0 then tr @ [Stderr ''Connection Closed''] else tr)\<rparr>)))))"

definition counter_process_nqi ::
    "env \<Rightarrow> int \<Rightarrow> bool \<Rightarrow> work_queue_item \<Rightarrow> network_queue_item \<Rightarrow> 'a process_scheme
     \<Rightarrow> error + (bool \<times> 'a process_scheme)" where
  "counter_process_nqi E connfd udp junk item s =
     (case nqi_action item of
        nq_recv \<Rightarrow> counter_recv E connfd junk s
      | nq_send \<Rightarrow> counter_send E connfd item s
      | _ \<Rightarrow> base_process_nqi E udp item s)"

section \<open>The threaded ADC test\<close>

record adc_test_reading =
  at_value :: "16 word"
  at_t :: timestamp_t

record adc_sampler = sampler +
  adc_value :: adc_test_reading

text \<open>The 16 bytes of the local \<open>adc_value\<close>, value-initialised with its padding.\<close>

definition adc_test_bytes :: "adc_test_reading \<Rightarrow> byte list" where
  "adc_test_bytes r = le_bytes 2 (unat (at_value r)) @ replicate 6 0 @ le_bytes 8 (unat (at_t r))"

definition adc_test_item :: "size_t \<Rightarrow> size_t \<Rightarrow> network_queue_item \<Rightarrow> network_queue_item" where
  "adc_test_item bw prev item = item\<lparr>nqi_action := nq_send, nqi_nbytes := 100 * 16, total_bytes := bw\<rparr>"

definition adc_test_read :: "env \<Rightarrow> adc_block \<Rightarrow> 'a adc_sampler_scheme \<Rightarrow> error + 'a adc_sampler_scheme" where
  "adc_test_read E blk s =
     (case get_time E (base_time s) (trace s) of (u, tr) \<Rightarrow>
        case read_item_num E blk 0 False 0 tr of
          Inl e \<Rightarrow> Inl e
        | Inr (v, tr) \<Rightarrow> Inr (s\<lparr>adc_value := \<lparr>at_value = v, at_t = u\<rparr>,
                                trace := tr @ [Stderr ''ADC reading'']\<rparr>))"

definition adc_test_round :: "env \<Rightarrow> adc_block \<Rightarrow> 'a adc_sampler_scheme \<Rightarrow> error + 'a adc_sampler_scheme" where
  "adc_test_round E blk = sampler_round
     [adc_test_read E blk,
      \<lambda>s. ring_add (adc_test_bytes (adc_value s)) s,
      ring_send adc_test_item]"

text \<open>
  The network thread of this test has its own loop over three locals: the connection, \<open>pf\<close>, and the byte
  \<open>c\<close>, uninitialised at first, which keeps its value when a read gives nothing. The result is \<open>False\<close> when
  the thread returns. \<open>junk\<close> is the uninitialised local item.
\<close>

record adc_program = adc_sampler +
  ap_connfd :: int
  ap_pf :: pollfd
  ap_c :: byte

definition adc_poll :: "env \<Rightarrow> 'a adc_program_scheme \<Rightarrow> int \<times> 'a adc_program_scheme" where
  "adc_poll E s =
     (case sys_poll E (pf_fd (ap_pf s)) (trace s) of (r, ev, tr) \<Rightarrow>
        (r, s\<lparr>ap_pf := (ap_pf s)\<lparr>pf_revents := ev\<rparr>, trace := tr\<rparr>))"

definition adc_recv :: "env \<Rightarrow> work_queue_item \<Rightarrow> 'a adc_program_scheme \<Rightarrow> error + (bool \<times> 'a adc_program_scheme)" where
  "adc_recv E junk s =
     (case adc_poll E s of (r, s) \<Rightarrow>
        if r \<ge> 0 then
          (if pf_revents (ap_pf s) AND POLLIN = 0 then Inr (True, s)
           else case sys_read E (ap_connfd s) 1 (trace s) of (read_result, bs, tr) \<Rightarrow>
             let c = (if bs = [] then ap_c s else hd bs)
             in Inr (True, s\<lparr>ap_c := c, trace := tr, qw := enqueue (junk\<lparr>wqi_action := start_stop c\<rparr>) (qw s)\<rparr>))
        else Inl (Exit 1 (trace s @ [Stderr ''Poll failed''])))"

definition adc_send :: "env \<Rightarrow> network_queue_item \<Rightarrow> 'a adc_program_scheme \<Rightarrow> error + (bool \<times> 'a adc_program_scheme)" where
  "adc_send E item s =
     (case adc_poll E s of (r, s) \<Rightarrow>
        if r = 0 \<and> (if pf_revents (ap_pf s) = 0 then 1 else 0) AND POLLOUT \<noteq> 0
        then Inr (False, s\<lparr>trace := trace s @ [Stderr ''Socket blocked'']\<rparr>)
        else
          (case deref (heap s) (Some 0) of
             Inl e \<Rightarrow> Inl e
           | Inr b \<Rightarrow>
               (case write_data E b (ap_connfd s) (nqi_nbytes item) (total_bytes item) (trace s) of
                  Inl e \<Rightarrow> Inl e
                | Inr (result, tr) \<Rightarrow>
                    Inr (True, s\<lparr>trace := (if result \<noteq> 0 then tr @ [Stderr ''Connection Closed''] else tr)\<rparr>))))"

definition adc_net_round ::
    "env \<Rightarrow> work_queue_item \<Rightarrow> 'a adc_program_scheme \<Rightarrow> error + (bool \<times> 'a adc_program_scheme)" where
  "adc_net_round E junk s =
     (case poll (qn s) of (item, qn') \<Rightarrow>
        let s = s\<lparr>qn := qn'\<rparr> in
        case nqi_action item of
          nq_recv \<Rightarrow> adc_recv E junk s
        | nq_send \<Rightarrow> adc_send E item s
        | nq_none \<Rightarrow> Inr (True, s\<lparr>qn := enqueue (item\<lparr>nqi_action := nq_recv\<rparr>) (qn s)\<rparr>)
        | nq_send_ack \<Rightarrow> Inr (True, s))"

text \<open>What the thread does before its loop.\<close>

definition adc_net_start :: "env \<Rightarrow> 'a adc_program_scheme \<Rightarrow> error + 'a adc_program_scheme" where
  "adc_net_start E s =
     (case wait_for_connection E 1234 (trace s) of
        Inl e \<Rightarrow> Inl e
      | Inr (connfd, tr) \<Rightarrow>
          Inr (s\<lparr>ap_connfd := connfd, ap_pf := (ap_pf s)\<lparr>pf_fd := connfd, pf_events := POLLIN OR POLLOUT\<rparr>,
                 trace := (if connfd < 0 then tr @ [Stderr ''Could not open connection fd.''] else tr)\<rparr>))"

text \<open>\<open>main\<close>: \<open>None\<close> when it returns 1, else the state the two threads start on; \<open>u\<close> is what is uninitialised.\<close>

definition adc_program_main ::
    "env \<Rightarrow> (nat \<Rightarrow> byte) \<Rightarrow> adc_program \<Rightarrow> event list \<Rightarrow> adc_program option" where
  "adc_program_main E junk u tr =
     (let ok = env_bcm E tr; tr = tr @ [Bcm_init ok]
      in if \<not> ok then None
         else
           let ok = env_bcm E tr; tr = tr @ [Spi_begin ok]
           in if \<not> ok then None
              else
                (case set_base_time E 0 tr of (base, tr) \<Rightarrow>
                   let initial = null_nqi\<lparr>nqi_action := nq_recv\<rparr>
                   in Some (u\<lparr>qn := enqueue initial (safe_queue_new null_nqi), qw := safe_queue_new null_wqi,
                        heap := [circular_buffer_new (push_bit 12 1) junk], base_time := base, trace := tr,
                        s_sending := False, s_last := 0, adc_value := \<lparr>at_value = 0, at_t = 0\<rparr>\<rparr>)))"

section \<open>What an idle iteration does\<close>

lemma null_wqi_none [simp]: "wqi_action null_wqi = wq_none"
  by (simp add: null_wqi_def)

lemma sampler_round_idle:
  assumes "q (qw s) = []" and "null_item (qw s) = null_wqi" and "s_sending s"
  shows "sampler_round idle s = exec idle s"
  using assms by (simp add: sampler_round_def poll_def when_s_def)

lemma ring_add_holds:
  assumes "heap s = [b]" and "holds b st" and "length st + length p < 4294967296"
  obtains b' where "ring_add p s = Inr (s\<lparr>heap := [b']\<rparr>)" and "holds b' (st @ p)"
proof -
  from assms(2,3) add_data_appends [of b st p] obtain b' where "add_data b p = Inr b'" "holds b' (st @ p)"
    by (auto simp: counter_ok_def)
  with assms(1) that [of b'] show thesis by (simp add: ring_add_def deref_def)
qed

text \<open>
  The contract of both loops: an idle iteration stores the 16 bytes of reading number \<open>n\<close> and
  then does the send test. \<open>ready n\<close> says that \<open>n\<close> readings were taken, \<open>reading n p\<close> that \<open>p\<close> may be
  the bytes of reading \<open>n\<close>.
\<close>

definition sampling :: "byte list \<Rightarrow> 'a sampler_scheme \<Rightarrow> bool" where
  "sampling st s \<longleftrightarrow> q (qw s) = [] \<and> null_item (qw s) = null_wqi \<and> s_sending s
     \<and> (\<exists>b. heap s = [b] \<and> holds b st)"

locale paced_sampler =
  fixes iteration :: "'a sampler_scheme \<Rightarrow> error + 'a sampler_scheme"
    and fill_item :: "size_t \<Rightarrow> size_t \<Rightarrow> network_queue_item \<Rightarrow> network_queue_item"
    and ready :: "nat \<Rightarrow> 'a sampler_scheme \<Rightarrow> bool"
    and reading :: "nat \<Rightarrow> byte list \<Rightarrow> bool"
    and range :: "size_t \<Rightarrow> size_t \<Rightarrow> size_t \<times> size_t"
  assumes iteration_law: "sampling st s \<Longrightarrow> ready n s \<Longrightarrow> length st + 16 < 4294967296 \<Longrightarrow>
      \<exists>p u. iteration s = ring_send fill_item u \<and> sampling (st @ p) u \<and> ready (Suc n) u
        \<and> reading n p \<and> qn u = qn s \<and> s_last u = s_last s"
    and ready_law: "ready n s \<Longrightarrow> ready n (s\<lparr>s_nqi := i, qn := qs, s_last := l\<rparr>)"
    and reading_law: "reading n p \<Longrightarrow> length p = 16"
    and range_law: "(total_bytes (fill_item bw prev i), nqi_nbytes (fill_item bw prev i)) = range bw prev"
begin

text \<open>After \<open>n\<close> idle iterations; \<open>101\<close> readings go into one send, since the test is a strict one.\<close>

definition sampled :: "network_queue_item list \<Rightarrow> nat \<Rightarrow> 'a sampler_scheme \<Rightarrow> bool" where
  "sampled q0 n s \<longleftrightarrow> ready n s \<and> s_last s = of_nat (1616 * (n div 101))
     \<and> (\<exists>ys. q (qn s) = q0 @ ys \<and> map (\<lambda>i. (total_bytes i, nqi_nbytes i)) ys
         = map (\<lambda>k. range (of_nat (1616 * (k + 1))) (of_nat (1616 * k))) [0..<n div 101])
     \<and> (\<exists>ps. sampling (concat ps) s \<and> length ps = n \<and> (\<forall>i < n. reading i (ps ! i)))"

lemma readings_length: "\<forall>i < length ps. reading i (ps ! i) \<Longrightarrow> length (concat ps) = 16 * length ps"
proof (induction ps rule: rev_induct)
  case Nil
  then show ?case by simp
next
  case (snoc p ps)
  have "reading i (ps ! i)" if "i < length ps" for i
    using snoc.prems [rule_format, of i] that by (simp add: nth_append)
  moreover have "length p = 16"
    using snoc.prems [rule_format, of "length ps"] by (intro reading_law) simp
  ultimately show ?case using snoc.IH by simp
qed

lemma send_test:
  assumes b: "heap u = [b]" "holds b st" and "length st = 16 * Suc n" and "s_last u = of_nat (1616 * (n div 101))"
    and "16 * Suc n + 1600 < 4294967296"
  shows "ring_send fill_item u =
    (if Suc n mod 101 = 0
     then (let item = fill_item (of_nat (1616 * (Suc n div 101))) (s_last u) (s_nqi u)
           in Inr (u\<lparr>s_nqi := item, qn := enqueue item (qn u), s_last := of_nat (1616 * (Suc n div 101))\<rparr>))
     else Inr u)"
proof -
  have bw: "unat (bytes_written b) = 16 * Suc n"
    using b(2) assms(3,5) by (simp add: holds_def)
  have n: "101 * (n div 101) \<le> n" by simp
  then have "unat (of_nat (1616 * (n div 101)) :: size_t) = 1616 * (n div 101)"
    using assms(5) by (intro unat_of_nat_small) simp
  then have "unat (s_last u + 100 * 16) = 1616 * (n div 101) + 1600"
    using n assms(4,5) by (subst unat_add_no_wrap) simp_all
  then have "bytes_written b > s_last u + 100 * 16 \<longleftrightarrow> 1616 * (n div 101) + 1600 < 16 * Suc n"
    using bw by (simp add: word_less_nat_alt)
  also have "\<dots> \<longleftrightarrow> n mod 101 = 100"
  proof -
    define a r where "a = n div 101" and "r = n mod 101"
    then have "n = 101 * a + r" "r < 101" by simp_all
    then show ?thesis by (auto simp flip: a_def r_def)
  qed
  also have "\<dots> \<longleftrightarrow> Suc n mod 101 = 0" by (simp add: mod_Suc)
  finally have test: "bytes_written b > s_last u + 100 * 16 \<longleftrightarrow> Suc n mod 101 = 0" .
  have "bytes_written b = of_nat (1616 * (Suc n div 101))" if zero: "Suc n mod 101 = 0"
  proof -
    define k where "k = Suc n div 101"
    have "101 * k = Suc n" using mult_div_mod_eq [of 101 "Suc n"] by (simp only: k_def zero add_0_right)
    then have "16 * Suc n = 16 * (101 * k)" by (simp only:)
    also have "\<dots> = 1616 * k" by simp
    finally have "16 * Suc n = 1616 * k" .
    then have "16 * Suc n = 1616 * (Suc n div 101)" by (simp only: k_def)
    with bw have "unat (bytes_written b) = 1616 * (Suc n div 101)" by (simp only:)
    then have "of_nat (unat (bytes_written b)) = (of_nat (1616 * (Suc n div 101)) :: size_t)" by (simp only:)
    then show ?thesis by (simp only: of_nat_unat ucast_id)
  qed
  with test b(1) show ?thesis by (auto simp: ring_send_def deref_def Let_def)
qed

lemma sampled_step:
  assumes "sampled q0 n s" and "16 * Suc n + 1600 < 4294967296"
  shows "\<exists>s'. iteration s = Inr s' \<and> sampled q0 (Suc n) s'"
proof -
  from assms(1) obtain ps where ps: "sampling (concat ps) s" "length ps = n"
      "\<forall>i < n. reading i (ps ! i)" and ready: "ready n s"
    by (auto simp: sampled_def)
  note len = readings_length [of ps]
  obtain p u where u: "iteration s = ring_send fill_item u" "sampling (concat ps @ p) u" "ready (Suc n) u"
      "reading n p" "qn u = qn s" "s_last u = s_last s"
    using iteration_law [OF ps(1) ready] len ps(2,3) assms(2) by auto
  have all: "\<forall>i < Suc n. reading i ((ps @ [p]) ! i)"
    using ps(2,3) u(4) by (auto simp: nth_append less_Suc_eq)
  then have "length (concat ps @ p) = 16 * Suc n"
    using readings_length [of "ps @ [p]"] ps(2) by simp
  moreover obtain b where "heap u = [b]" "holds b (concat ps @ p)" using u(2) by (auto simp: sampling_def)
  ultimately have test: "s_last u = of_nat (1616 * (n div 101)) \<Longrightarrow> ring_send fill_item u =
      (if Suc n mod 101 = 0
       then (let item = fill_item (of_nat (1616 * (Suc n div 101))) (s_last u) (s_nqi u)
             in Inr (u\<lparr>s_nqi := item, qn := enqueue item (qn u), s_last := of_nat (1616 * (Suc n div 101))\<rparr>))
       else Inr u)"
    using send_test assms(2) by blast
  have stays: "sampling st (u\<lparr>s_nqi := i, qn := qs, s_last := l\<rparr>) = sampling st u" for st i qs l
    by (simp add: sampling_def)
  have div: "Suc n div 101 = (if Suc n mod 101 = 0 then Suc (n div 101) else n div 101)"
    by (rule div_Suc)
  have "\<exists>ps. sampling (concat ps) u \<and> length ps = Suc n \<and> (\<forall>i < Suc n. reading i (ps ! i))"
    using u(2) all ps(2) by (intro exI [of _ "ps @ [p]"]) simp
  moreover obtain ys where "q (qn s) = q0 @ ys" "map (\<lambda>i. (total_bytes i, nqi_nbytes i)) ys
      = map (\<lambda>k. range (of_nat (1616 * (k + 1))) (of_nat (1616 * k))) [0..<n div 101]"
    using assms(1) by (auto simp: sampled_def)
  ultimately show ?thesis
    using assms(1) u test ready_law [OF u(3)] range_law
    by (auto simp: sampled_def div stays Let_def intro!: exI [of _ "ys @ [i]" for i])
qed

lemma sampled_rounds:
  assumes "sampled q0 0 s" and "16 * n + 1600 < 4294967296"
  shows "\<exists>s'. sampler_rounds iteration n s = Inr s' \<and> sampled q0 n s'"
  using assms(2)
proof (induction n)
  case 0
  with assms(1) show ?case by simp
next
  case (Suc n)
  then obtain s' where "sampler_rounds iteration n s = Inr s'" "sampled q0 n s'" by auto
  with sampled_step [of q0 n s'] Suc.prems show ?case by simp
qed

end

lemma exec_last [simp]: "(case r of Inl e \<Rightarrow> Inl e | Inr s \<Rightarrow> exec [] s) = r"
  by (simp split: sum.splits)

interpretation counter: paced_sampler counter_round counter_item
  "\<lambda>n s. c_count s = of_nat n" "\<lambda>n p. p = dummy_reading (of_nat n)" "\<lambda>bw prev. (prev, bw - prev)"
proof unfold_locales
  fix st :: "byte list" and s :: "'a counter_scheme" and n
  assume s: "sampling st s" and n: "c_count s = of_nat n" and len: "length st + 16 < 4294967296"
  let ?p = "dummy_reading (of_nat n)"
  obtain b where b: "heap s = [b]" "holds b st" using s by (auto simp: sampling_def)
  have "length st + length ?p < 4294967296" using len by (simp add: dummy_reading_def)
  from ring_add_holds [OF b this] obtain b' where
    b': "ring_add ?p s = Inr (s\<lparr>heap := [b']\<rparr>)" "holds b' (st @ ?p)" .
  show "\<exists>p u. counter_round s = ring_send counter_item u \<and> sampling (st @ p) u \<and> c_count u = of_nat (Suc n)
      \<and> p = dummy_reading (of_nat n) \<and> qn u = qn s \<and> s_last u = s_last s"
    using s n b'
    by (intro exI [of _ ?p] exI [of _ "c_count_update (\<lambda>c. c + 1) (s\<lparr>heap := [b']\<rparr>)"])
      (simp add: counter_round_def sampler_round_idle sampling_def assign_def)
next
  show "p = dummy_reading (of_nat n) \<Longrightarrow> length p = 16" for n p
    by (simp add: dummy_reading_def)
qed (simp_all add: counter_item_def)

lemma adc_test_read_returns:
  assumes "sampling st s"
  shows "\<exists>u. adc_test_read E (adc_block_new j8_24 1) s = Inr u \<and> sampling st u \<and> qn u = qn s \<and> s_last u = s_last s"
proof -
  obtain t tr where t: "get_time E (base_time s) (trace s) = (t, tr)" by (meson surj_pair)
  obtain v tr' where "read_item E \<lparr>pin = j8_24, pad = 0, single_channel = False, channel = 0\<rparr> tr = (v, tr')"
    by (meson surj_pair)
  with t assms show ?thesis
    by (simp add: adc_test_read_def read_item_num_def adc_block_new_def sampling_def)
qed

interpretation adc_test: paced_sampler "adc_test_round E (adc_block_new j8_24 1)" adc_test_item
  "\<lambda>n s. True" "\<lambda>n p. length p = 16" "\<lambda>bw prev. (bw, 1600)" for E j8_24
proof unfold_locales
  fix st :: "byte list" and s :: "'a adc_sampler_scheme" and n :: nat
  assume s: "sampling st s" and len: "length st + 16 < 4294967296"
  obtain u where u: "adc_test_read E (adc_block_new j8_24 1) s = Inr u" "sampling st u" "qn u = qn s" "s_last u = s_last s"
    using s adc_test_read_returns by blast
  let ?p = "adc_test_bytes (adc_value u)"
  obtain b where b: "heap u = [b]" "holds b st" using u(2) by (auto simp: sampling_def)
  have p: "length ?p = 16" by (simp add: adc_test_bytes_def)
  with len ring_add_holds [OF b, of ?p] obtain b' where
    b': "ring_add ?p u = Inr (u\<lparr>heap := [b']\<rparr>)" "holds b' (st @ ?p)" by auto
  show "\<exists>p u. adc_test_round E (adc_block_new j8_24 1) s = ring_send adc_test_item u \<and> sampling (st @ p) u \<and> True
      \<and> length p = 16 \<and> qn u = qn s \<and> s_last u = s_last s"
    using s u b' p
    by (intro exI [of _ ?p] exI [of _ "u\<lparr>heap := [b']\<rparr>"])
      (simp add: adc_test_round_def sampler_round_idle sampling_def)
qed (simp_all add: adc_test_item_def)

section \<open>Properties\<close>

text \<open>
  After \<open>n\<close> idle iterations from its start the counter's ring has been given the readings
  0 to \<open>n - 1\<close>, the numbers modulo 65536, and the queue holds one send item per 101 readings (not
  per \<open>COUNT_PER_SEND\<close>, 100: the comparison is strict); the items are consecutive pieces of the stream.
\<close>

theorem counter_sends_blocks:
  assumes "sampling [] s" and "s_last s = 0" and "c_count s = 0" and "16 * n + 1600 < 4294967296"
  shows "\<exists>s' ys. sampler_rounds counter_round n s = Inr s'
    \<and> sampling (concat (map (\<lambda>i. dummy_reading (of_nat i)) [0..<n])) s'
    \<and> q (qn s') = q (qn s) @ ys
    \<and> map (\<lambda>i. (total_bytes i, nqi_nbytes i)) ys = map (\<lambda>k. (of_nat (1616 * k), 1616)) [0..<n div 101]"
proof -
  have "counter.sampled (q (qn s)) 0 s" using assms(1-3) by (auto simp: counter.sampled_def)
  from counter.sampled_rounds [OF this assms(4)] obtain s' ps ys where
    s': "sampler_rounds counter_round n s = Inr s'" "sampling (concat ps) s'" "length ps = n"
      "\<forall>i < n. ps ! i = dummy_reading (of_nat i)"
      "q (qn s') = q (qn s) @ ys" "map (\<lambda>i. (total_bytes i, nqi_nbytes i)) ys
        = map (\<lambda>k. (of_nat (1616 * k), of_nat (1616 * (k + 1)) - of_nat (1616 * k))) [0..<n div 101]"
    by (auto simp: counter.sampled_def)
  have "ps = map (\<lambda>i. dummy_reading (of_nat i)) [0..<n]"
    using s'(3,4) by (intro nth_equalityI) simp_all
  with s' show ?thesis by simp
qed

definition sample_counter :: counter where
  "sample_counter = \<lparr>qn = safe_queue_new null_nqi, qw = safe_queue_new null_wqi,
     heap = [circular_buffer_new 65536 (\<lambda>i. 0)], base_time = 0, nw = sample_network, trace = [],
     s_nqi = null_nqi, s_sending = True, s_last = 0, c_count = 0\<rparr>"

theorem counter_sends_blocks_witness:
  "\<exists>s'. sampler_rounds counter_round 250 sample_counter = Inr s'
    \<and> map (\<lambda>i. (total_bytes i, nqi_nbytes i)) (q (qn s')) = [(0, 1616), (1616, 1616)]"
proof -
  have "holds (circular_buffer_new 65536 (\<lambda>i. 0)) []" by (rule holds_new) simp
  then have "sampling [] sample_counter" by (simp add: sampling_def sample_counter_def)
  from counter_sends_blocks [OF this, of 250] show ?thesis
    by (auto simp: sample_counter_def upt_rec)
qed

text \<open>
  The ADC test fills its ring with one reading per idle iteration too, but each of its send items
  starts where the stream ends: of the 1600 bytes it asks for, none has been written yet when the
  item is queued.
\<close>

theorem adc_test_sends_unwritten:
  assumes "sampling [] s" and "s_last s = 0" and "16 * n + 1600 < 4294967296"
  shows "\<exists>s' st ys. sampler_rounds (adc_test_round E (adc_block_new j8_24 1)) n s = Inr s'
    \<and> sampling st s' \<and> length st = 16 * n
    \<and> q (qn s') = q (qn s) @ ys
    \<and> map (\<lambda>i. (total_bytes i, nqi_nbytes i)) ys = map (\<lambda>k. (of_nat (16 * (101 * (k + 1))), 1600)) [0..<n div 101]"
proof -
  have "adc_test.sampled (q (qn s)) 0 s" using assms(1-2) by (auto simp: adc_test.sampled_def)
  from adc_test.sampled_rounds [OF this assms(3), of E j8_24] obtain s' ps ys where
    s': "sampler_rounds (adc_test_round E (adc_block_new j8_24 1)) n s = Inr s'" "sampling (concat ps) s'"
      "length ps = n" "\<forall>i < n. length (ps ! i) = 16"
      "q (qn s') = q (qn s) @ ys" "map (\<lambda>i. (total_bytes i, nqi_nbytes i)) ys
        = map (\<lambda>k. (of_nat (1616 * (k + 1)), 1600)) [0..<n div 101]"
    by (auto simp: adc_test.sampled_def)
  have "length (concat ps) = 16 * n"
    using adc_test.readings_length [of ps] s'(3,4) by simp
  with s' show ?thesis by (auto simp: algebra_simps)
qed

definition sample_adc_sampler :: adc_sampler where
  "sample_adc_sampler = \<lparr>qn = safe_queue_new null_nqi, qw = safe_queue_new null_wqi,
     heap = [circular_buffer_new 4096 (\<lambda>i. 0)], base_time = 0, nw = sample_network, trace = [],
     s_nqi = null_nqi, s_sending = True, s_last = 0, adc_value = \<lparr>at_value = 0, at_t = 0\<rparr>\<rparr>"

theorem adc_test_sends_unwritten_witness:
  "\<exists>s' st. sampler_rounds (adc_test_round sample_env (adc_block_new RPI_V2_GPIO_P1_24 1)) 101 sample_adc_sampler = Inr s'
    \<and> sampling st s' \<and> length st = 1616
    \<and> map (\<lambda>i. (total_bytes i, nqi_nbytes i)) (q (qn s')) = [(1616, 1600)]"
proof -
  have "holds (circular_buffer_new 4096 (\<lambda>i. 0)) []" by (rule holds_new) simp
  then have "sampling [] sample_adc_sampler" by (simp add: sampling_def sample_adc_sampler_def)
  from adc_test_sends_unwritten [OF this, of 101 sample_env RPI_V2_GPIO_P1_24] show ?thesis
    by (simp add: sample_adc_sampler_def)
qed

section \<open>The programs around them\<close>

text \<open>The counter is ready to count once it has been told to start.\<close>

lemma counter_main_ready:
  "sampling [] ((counter_main E m junk nqi tr)\<lparr>s_sending := True\<rparr>)"
  "s_last (counter_main E m junk nqi tr) = 0" "c_count (counter_main E m junk nqi tr) = 0"
proof -
  have "holds (circular_buffer_new (push_bit 16 1) junk) []" by (rule holds_new) simp
  then show "sampling [] ((counter_main E m junk nqi tr)\<lparr>s_sending := True\<rparr>)"
    "s_last (counter_main E m junk nqi tr) = 0" "c_count (counter_main E m junk nqi tr) = 0"
    by (auto simp: counter_main_def sampling_def split: prod.splits)
qed

text \<open>What a send item of the counter puts on the wire, when the connection takes everything.\<close>

lemma counter_send_writes:
  fixes s :: "'a process_scheme"
  assumes ret: "missing_return E \<noteq> None" and up: "takes_all E connfd" "conn_fd (nw s) = connfd"
    and a: "nqi_buff item = Some a" "a < length (heap s)" and st: "holds (heap s ! a) st"
    and range: "unat (total_bytes item) + unat (nqi_nbytes item) \<le> length st" "length st < 4294967296"
      "length st \<le> unat (total_bytes item) + unat (nbytes (heap s ! a))"
  shows "\<exists>s'. counter_send E connfd item s = Inr (True, s')
    \<and> fd_bytes (trace s') connfd = fd_bytes (trace s) connfd
        @ header_bytes \<lparr>sh_code = 2, sh_nbytes = nqi_nbytes item\<rparr>
        @ slice (unat (total_bytes item)) (unat (nqi_nbytes item)) st"
proof -
  let ?hd = "header_bytes \<lparr>sh_code = 2, sh_nbytes = nqi_nbytes item\<rparr>" and ?n = "unat (nqi_nbytes item)"
  obtain r s1 where p: "poll_pf E s = (r, s1)" by (meson surj_pair)
  then have s1: "heap s1 = heap s" "conn_fd (nw s1) = connfd" "fd_bytes (trace s1) connfd = fd_bytes (trace s) connfd"
    using up(2) by (auto simp: poll_pf_def sys_poll_def set_nw_def conn_fd_def fd_bytes_one Let_def split: prod.splits)
  obtain j tr2 where w: "sys_write E connfd ?hd (trace s1) = (j, tr2)" by (meson surj_pair)
  have j: "nat j = 8" using sys_write_takes_all [OF up(1) w] by (simp add: header_bytes_def)
  have "cb_wf (heap s ! a)" "unat (total_bytes item) + ?n < 4294967296"
    using st range by (auto simp: holds_def)
  from write_data_ring [OF this, of E connfd tr2] up(1) obtain result tr3 where
    d: "write_data E (heap s ! a) connfd (nqi_nbytes item) (total_bytes item) tr2 = Inr (result, tr3)"
      "fd_bytes tr3 connfd = fd_bytes tr2 connfd @ ring_bytes (heap s ! a) (unat (total_bytes item)) ?n" by blast
  have "ring_bytes (heap s ! a) (unat (total_bytes item)) ?n = slice (unat (total_bytes item)) ?n st"
    using range by (intro holds_ring_bytes [OF st]) simp_all
  then have "fd_bytes tr3 connfd = fd_bytes (trace s) connfd @ ?hd @ slice (unat (total_bytes item)) ?n st"
    using sys_write_bytes [OF w] j d(2) s1(3) by simp
  then show ?thesis
    using ret p s1 a w d(1)
    by (auto simp: counter_send_def send_header_eq write_blocked_never deref_def split: option.splits)
qed

text \<open>When the client is gone, the last command is given again in every round: the result of the read is not looked at.\<close>

lemma adc_recv_repeats:
  assumes "env_poll E (trace s) (pf_fd (ap_pf s)) = (r, ev)" and "r \<ge> 0" and "0 \<le> pf_fd (ap_pf s)" and "ev AND POLLIN \<noteq> 0"
    and "\<And>tr. env_read E tr (ap_connfd s) 1 = Some []"
  shows "\<exists>s'. adc_recv E junk s = Inr (True, s') \<and> ap_c s' = ap_c s
    \<and> q (qw s') = q (qw s) @ [junk\<lparr>wqi_action := start_stop (ap_c s)\<rparr>]"
  using assms by (auto simp: adc_recv_def adc_poll_def sys_poll_def sys_read_def Let_def)

end
