(* ===== verification/AdcChip.thy ===== *)
theory AdcChip
  imports AdcBlock
begin

text \<open>
  The other side of the SPI bus. The MCP3208's serial protocol, as its data sheet gives it, is a
  hypothesis about the environment, and the driver is judged against it. \<open>src/spi/spi.cpp\<close>, which talks
  to the chip without the driver, and \<open>src/adc/adc_test.cpp\<close> are two programs that print readings.
\<close>

section \<open>The chip\<close>

text \<open>Bit \<open>m\<close> of a transfer; every byte goes out with its highest bit first.\<close>

definition spi_bit :: "(nat \<Rightarrow> byte) \<Rightarrow> nat \<Rightarrow> bool" where
  "spi_bit f m = bit (f (m div 8)) (7 - m mod 8)"

definition three_bits :: "bool \<Rightarrow> bool \<Rightarrow> bool \<Rightarrow> 3 word" where
  "three_bits d2 d1 d0 = 4 * of_bool d2 + 2 * of_bool d1 + of_bool d0"

text \<open>
  The first bit set, bit \<open>k\<close>, starts a conversion; the next four are the single-ended bit and the
  channel; after a clock for sampling and a null bit the chip answers the twelve bits of the sample,
  highest first. \<open>sample\<close> may depend on the history, so on the chip selected and the time.
\<close>

definition mcp3208 :: "env \<Rightarrow> (event list \<Rightarrow> bool \<Rightarrow> 3 word \<Rightarrow> 12 word) \<Rightarrow> bool" where
  "mcp3208 E sample \<longleftrightarrow> (\<forall>tr bs k. k + 19 \<le> 8 * length bs \<longrightarrow> (\<forall>j < k. \<not> spi_bit (nth bs) j) \<longrightarrow> spi_bit (nth bs) k \<longrightarrow>
     (\<forall>n < 12. spi_bit (env_spi E tr bs) (k + 7 + n) \<longleftrightarrow>
        bit (sample tr (spi_bit (nth bs) (k + 1))
          (three_bits (spi_bit (nth bs) (k + 2)) (spi_bit (nth bs) (k + 3)) (spi_bit (nth bs) (k + 4)))) (11 - n)))"

lemma mcp3208D:
  assumes "mcp3208 E sample" and "k + 19 \<le> 8 * length bs" and "\<And>j. j < k \<Longrightarrow> \<not> spi_bit (nth bs) j"
    and "spi_bit (nth bs) k" and "n < 12"
  shows "spi_bit (env_spi E tr bs) (k + 7 + n) \<longleftrightarrow>
    bit (sample tr (spi_bit (nth bs) (k + 1))
      (three_bits (spi_bit (nth bs) (k + 2)) (spi_bit (nth bs) (k + 3)) (spi_bit (nth bs) (k + 4)))) (11 - n)"
  using assms unfolding mcp3208_def by blast

lemma three_bits_bits: "three_bits (bit c 2) (bit c 1) (bit c 0) = (c :: 3 word)"
proof -
  define k where "k = unat c"
  have k: "c = of_nat k" "k < 8"
    using unsigned_less [of c] by (simp_all add: k_def)
  from k(2) have "k \<in> {0, 1, 2, 3, 4, 5, 6, 7}" by simp presburger
  then show ?thesis
    by (elim insertE) (simp_all add: three_bits_def k(1) bit_numeral_rec)
qed

lemma less_4: "j < 4 \<Longrightarrow> j \<in> {0, 1, 2, 3 :: nat}"
  by simp presburger

lemma command_bits:
  fixes idx :: adc_info_t
  defines "bs \<equiv> [command_byte idx, 0, 0]"
  shows "j < 3 \<Longrightarrow> \<not> spi_bit (nth bs) j" and "spi_bit (nth bs) 3"
    and "spi_bit (nth bs) 4 = single_channel idx"
    and "spi_bit (nth bs) 5 = bit (channel idx) 2" "spi_bit (nth bs) 6 = bit (channel idx) 1"
      "spi_bit (nth bs) 7 = bit (channel idx) 0"
proof -
  have high: "\<not> bit (channel idx) m" if "3 \<le> m" for m
    using bit_imp_le_length [of "channel idx" m] that by auto
  note simps = spi_bit_def bs_def command_byte_def bit_simps high bit_numeral_rec
  show "\<not> spi_bit (nth bs) j" if "j < 3"
  proof -
    have "j \<in> {0, 1, 2}" using that by simp presburger
    then show ?thesis by (elim insertE) (simp_all add: simps)
  qed
  show "spi_bit (nth bs) 3" "spi_bit (nth bs) 4 = single_channel idx"
    "spi_bit (nth bs) 5 = bit (channel idx) 2" "spi_bit (nth bs) 6 = bit (channel idx) 1"
    "spi_bit (nth bs) 7 = bit (channel idx) 0"
    by (simp_all add: simps)
qed

lemma upto_11: "n < 12 \<Longrightarrow> n \<in> {0, 1, 2, 3, 4, 5, 6, 7, 8, 9, 10, 11 :: nat}"
  by simp presburger

lemma sample_no_bit: "12 \<le> k \<Longrightarrow> \<not> bit (v :: 12 word) k"
  by (auto dest: bit_imp_le_length)

text \<open>What the two programs make of the twelve bits, at bit 10 and at bit 12 of the answer.\<close>

lemma decode_at_10:
  assumes "\<And>n. n < 12 \<Longrightarrow> spi_bit f (10 + n) \<longleftrightarrow> bit v (11 - n)"
  shows "decode_reading False (f 1) (f 2) = ucast (v :: 12 word)"
proof (rule bit_word_eqI)
  note eqs = assms [of 0] assms [of 1] assms [of 2] assms [of 3] assms [of 4] assms [of 5] assms [of 6]
    assms [of 7] assms [of 8] assms [of 9] assms [of 10] assms [of 11]
  fix n assume "n < LENGTH(16)"
  then have "n \<in> {0, 1, 2, 3, 4, 5, 6, 7, 8, 9, 10, 11, 12, 13, 14, 15}" by (intro upto_15) simp
  then show "bit (decode_reading False (f 1) (f 2)) n \<longleftrightarrow> bit (ucast v :: 16 word) n"
    using eqs by (elim insertE) (simp_all add: decode_bits spi_bit_def sample_no_bit)
qed

lemma read_item_chip:
  assumes "mcp3208 E sample" and "\<not> char_signed E" and "read_item E idx tr = (v, tr')"
  shows "v = ucast (sample
      (if pin idx = SPI_CS_0 then tr @ [Spi_chipSelect BCM2835_SPI_CS0]
       else if pin idx = SPI_CS_1 then tr @ [Spi_chipSelect BCM2835_SPI_CS1]
       else gpio_write (pin idx) LOW (tr @ [Spi_chipSelect BCM2835_SPI_CS_NONE]))
      (single_channel idx) (channel idx))"
proof -
  let ?bs = "[command_byte idx, 0, 0]"
  define tr1 where "tr1 = (if pin idx = SPI_CS_0 then tr @ [Spi_chipSelect BCM2835_SPI_CS0]
       else if pin idx = SPI_CS_1 then tr @ [Spi_chipSelect BCM2835_SPI_CS1]
       else gpio_write (pin idx) LOW (tr @ [Spi_chipSelect BCM2835_SPI_CS_NONE]))"
  have "spi_bit (env_spi E tr1 ?bs) (10 + n) \<longleftrightarrow> bit (sample tr1 (single_channel idx) (channel idx)) (11 - n)"
    if "n < 12" for n
    using mcp3208D [OF assms(1) _ command_bits(1,2) that, of idx tr1]
    by (simp add: command_bits three_bits_bits [unfolded One_nat_def])
  from decode_at_10 [OF this]
  have "decode_reading False (env_spi E tr1 ?bs 1) (env_spi E tr1 ?bs 2) = ucast (sample tr1 (single_channel idx) (channel idx))"
    by blast
  moreover have "v = decode_reading False (env_spi E tr1 ?bs 1) (env_spi E tr1 ?bs 2)"
    using assms(2,3)
    by (auto simp: read_item_def Let_def tr1_def [symmetric] spi_transfernb_def upt_rec numeral_2_eq_2 split: prod.splits)
  ultimately show ?thesis by (simp add: tr1_def)
qed

text \<open>
  C30. The driver and the chip agree. Whatever ADC and channel is asked for, on a compiler with
  unsigned \<open>char\<close> and on hardware that follows the MCP3208's protocol, the number \<open>read_item\<close> returns is the
  chip's sample of that channel, single-ended or differential as asked, taken after its chip select.
\<close>

theorem read_item_samples:
  assumes "mcp3208 E sample" and "\<not> char_signed E" and "read_item E idx tr = (v, tr')"
  shows "v = ucast (sample
      (if pin idx = SPI_CS_0 then tr @ [Spi_chipSelect BCM2835_SPI_CS0]
       else if pin idx = SPI_CS_1 then tr @ [Spi_chipSelect BCM2835_SPI_CS1]
       else gpio_write (pin idx) LOW (tr @ [Spi_chipSelect BCM2835_SPI_CS_NONE]))
      (single_channel idx) (channel idx))"
  using assms by (rule read_item_chip)

text \<open>A chip that follows the protocol, for any sample: the hypothesis can hold.\<close>

definition chip_spi ::
    "(event list \<Rightarrow> bool \<Rightarrow> 3 word \<Rightarrow> 12 word) \<Rightarrow> event list \<Rightarrow> byte list \<Rightarrow> nat \<Rightarrow> byte" where
  "chip_spi sample tr bs i =
     (case find (spi_bit (nth bs)) [0..<8 * length bs] of
        None \<Rightarrow> 0
      | Some k \<Rightarrow>
          (let v = sample tr (spi_bit (nth bs) (k + 1))
                     (three_bits (spi_bit (nth bs) (k + 2)) (spi_bit (nth bs) (k + 3)) (spi_bit (nth bs) (k + 4)))
           in horner_sum of_bool 2 (map (\<lambda>j. let m = 8 * i + (7 - j) in k + 7 \<le> m \<and> bit v (11 - (m - (k + 7)))) [0..<8])))"

lemma chip_spi_bit:
  assumes "find (spi_bit (nth bs)) [0..<8 * length bs] = Some k"
  shows "spi_bit (chip_spi sample tr bs) (k + 7 + n) \<longleftrightarrow>
    bit (sample tr (spi_bit (nth bs) (k + 1))
      (three_bits (spi_bit (nth bs) (k + 2)) (spi_bit (nth bs) (k + 3)) (spi_bit (nth bs) (k + 4)))) (11 - n)"
proof -
  define m where "m = k + 7 + n"
  have "7 - m mod 8 < 8" "8 * (m div 8) + (7 - (7 - m mod 8)) = m" by presburger+
  then show ?thesis
    unfolding m_def [symmetric]
    by (simp add: spi_bit_def [of "chip_spi sample tr bs"] chip_spi_def assms Let_def bit_horner_sum_bit_word_iff) (simp add: m_def)
qed

lemma chip_spi_ok: "mcp3208 (E\<lparr>env_spi := chip_spi sample\<rparr>) sample"
  unfolding mcp3208_def
proof (intro allI impI)
  fix tr bs k n
  assume k: "k + 19 \<le> 8 * length bs" "\<forall>j < k. \<not> spi_bit (nth bs) j" "spi_bit (nth bs) k" "n < (12 :: nat)"
  then have "find (spi_bit (nth bs)) [0..<8 * length bs] = Some k"
    by (auto simp: find_Some_iff intro!: exI [of _ k])
  from chip_spi_bit [OF this]
  show "spi_bit (env_spi (E\<lparr>env_spi := chip_spi sample\<rparr>) tr bs) (k + 7 + n) \<longleftrightarrow>
    bit (sample tr (spi_bit (nth bs) (k + 1))
      (three_bits (spi_bit (nth bs) (k + 2)) (spi_bit (nth bs) (k + 3)) (spi_bit (nth bs) (k + 4)))) (11 - n)"
    by simp
qed

text \<open>Channel 3 of the load cell ADC answers 3003 when single-ended.\<close>

definition channels :: "event list \<Rightarrow> bool \<Rightarrow> 3 word \<Rightarrow> 12 word" where
  "channels tr single c = 1000 * ucast c + (if single then 3 else 0)"

theorem read_item_samples_witness:
  "fst (read_item (sample_env\<lparr>env_spi := chip_spi channels\<rparr>) (adc_info_new LC_ADC True 3) []) = 3003"
proof -
  let ?E = "sample_env\<lparr>env_spi := chip_spi channels\<rparr>"
  obtain v tr' where r: "read_item ?E (adc_info_new LC_ADC True 3) [] = (v, tr')" by (meson surj_pair)
  have "\<not> char_signed ?E" by (simp add: sample_env_def)
  from read_item_samples [OF chip_spi_ok this r] r show ?thesis
    by (simp add: adc_info_new_def channels_def)
qed

section \<open>Two programs that print readings\<close>

text \<open>
  \<open>spi.cpp\<close>: the transfer and the decoding of one iteration. The number is read with its low byte
  first and its bytes are swapped; masking with \<open>0xFF\<close> does nothing.
\<close>

definition spi_iteration :: "env \<Rightarrow> event list \<Rightarrow> 16 word \<times> event list" where
  "spi_iteration E tr =
     (case spi_transfernb E [6, 0, 0] tr of (readb, tr) \<Rightarrow>
        let readb1 = readb ! 1 AND 15;
            readb2 = readb ! 2 AND 255;
            out_value = ucast readb1 OR push_bit 8 (ucast readb2)
        in (bswap_16 out_value, tr))"

text \<open>The values printed by \<open>n\<close> iterations of an endless loop.\<close>

primrec print_loop ::
    "(event list \<Rightarrow> error + (16 word \<times> event list)) \<Rightarrow> nat \<Rightarrow> event list \<Rightarrow> error + (16 word list \<times> event list)" where
  "print_loop f 0 tr = Inr ([], tr)"
| "print_loop f (Suc n) tr =
     (case f tr of Inl e \<Rightarrow> Inl e
      | Inr (v, tr) \<Rightarrow> (case print_loop f n tr of Inl e \<Rightarrow> Inl e | Inr (vs, tr) \<Rightarrow> Inr (v # vs, tr)))"

text \<open>Both programs start the library; they return 1, printing nothing, when that fails.\<close>

definition start_bcm :: "env \<Rightarrow> event list \<Rightarrow> bool \<times> event list" where
  "start_bcm E tr =
     (let ok = env_bcm E tr; tr = tr @ [Bcm_init ok]
      in if \<not> ok then (False, tr)
         else (let ok = env_bcm E tr in (ok, tr @ [Spi_begin ok])))"

definition spi_main :: "env \<Rightarrow> nat \<Rightarrow> event list \<Rightarrow> error + (16 word list \<times> event list)" where
  "spi_main E n tr =
     (case start_bcm E tr of (ok, tr) \<Rightarrow>
        if \<not> ok then Inr ([], tr)
        else print_loop (\<lambda>tr. Inr (spi_iteration E tr)) n
          (tr @ [Gpio_fsel_outp RPI_V2_GPIO_P1_22, Gpio_write RPI_V2_GPIO_P1_22 HIGH, Spi_chipSelect BCM2835_SPI_CS0,
             Spi_set Spi_bit_order_msbfirst, Spi_set Spi_data_mode3, Spi_set Spi_clock_divider_1024,
             Spi_set (Spi_chip_select_polarity BCM2835_SPI_CS0 LOW)]))"

definition adc_test_main :: "env \<Rightarrow> RPiGPIOPin \<Rightarrow> nat \<Rightarrow> event list \<Rightarrow> error + (16 word list \<times> event list)" where
  "adc_test_main E j8_24 n tr =
     (case start_bcm E tr of (ok, tr) \<Rightarrow>
        if \<not> ok then Inr ([], tr)
        else print_loop (read_item_num E (adc_block_new j8_24 1) 0 True 12) n tr)"

lemma print_loop_all:
  assumes "\<And>tr. \<exists>v tr'. f tr = Inr (v, tr') \<and> P v"
  shows "\<exists>vs tr'. print_loop f n tr = Inr (vs, tr') \<and> length vs = n \<and> list_all P vs"
proof (induction n arbitrary: tr)
  case 0
  then show ?case by simp
next
  case (Suc n)
  obtain v tr1 where v: "f tr = Inr (v, tr1)" "P v" using assms by blast
  with Suc [of tr1] show ?case by auto
qed

lemma decode_at_12:
  assumes "\<And>n. n < 12 \<Longrightarrow> spi_bit f (12 + n) \<longleftrightarrow> bit v (11 - n)"
  shows "bswap_16 (ucast (f 1 AND 15) OR push_bit 8 (ucast (f 2 AND 255))) = ucast (v :: 12 word)"
proof (rule bit_word_eqI)
  note eqs = assms [of 0] assms [of 1] assms [of 2] assms [of 3] assms [of 4] assms [of 5] assms [of 6]
    assms [of 7] assms [of 8] assms [of 9] assms [of 10] assms [of 11]
  fix n assume "n < LENGTH(16)"
  then have "n \<in> {0, 1, 2, 3, 4, 5, 6, 7, 8, 9, 10, 11, 12, 13, 14, 15}" by (intro upto_15) simp
  then show "bit (bswap_16 (ucast (f 1 AND 15) OR push_bit 8 (ucast (f 2 AND 255)))) n \<longleftrightarrow> bit (ucast v :: 16 word) n"
    using eqs by (elim insertE) (simp_all add: decode_bits spi_bit_def sample_no_bit)
qed

lemma spi_iteration_samples:
  assumes "mcp3208 E sample"
  shows "fst (spi_iteration E tr) = ucast (sample tr True 0)"
proof -
  let ?bs = "[6, 0, 0] :: byte list"
  have none: "\<not> spi_bit (nth ?bs) j" if "j < 5" for j
  proof -
    have "j \<in> {0, 1, 2, 3, 4}" using that by simp presburger
    then show ?thesis by (elim insertE) (simp_all add: spi_bit_def bit_numeral_rec)
  qed
  have bits: "spi_bit (nth ?bs) 5" "spi_bit (nth ?bs) 6" "\<not> spi_bit (nth ?bs) 7" "\<not> spi_bit (nth ?bs) 8"
    "\<not> spi_bit (nth ?bs) 9"
    by (simp_all add: spi_bit_def bit_numeral_rec)
  have "spi_bit (env_spi E tr ?bs) (12 + n) \<longleftrightarrow> bit (sample tr True 0) (11 - n)" if "n < 12" for n
    using mcp3208D [OF assms _ _ bits(1) that, where tr = tr] none by (simp add: bits three_bits_def)
  from decode_at_12 [OF this] show ?thesis
    by (simp add: spi_iteration_def spi_transfernb_def Let_def upt_rec numeral_2_eq_2)
qed

text \<open>
  C40. What the two programs print. On a chip that follows the protocol, the SPI example prints single-ended
  samples of channel 0, although its comment says it picks channel 2, and the ADC test those of
  channel 4: its channel 12 does not fit the three bits of the command, which is not the \<open>0x0C\<close> it says it
  sent. Both print one number an iteration, or nothing when the library does not start.
\<close>

theorem print_programs_channels:
  assumes "mcp3208 E sample" and "\<not> char_signed E"
  shows "\<exists>vs tr1 ws tr2. spi_main E n tr = Inr (vs, tr1) \<and> list_all (\<lambda>v. \<exists>h. v = ucast (sample h True 0)) vs
    \<and> adc_test_main E j8_24 n tr = Inr (ws, tr2) \<and> list_all (\<lambda>v. \<exists>h. v = ucast (sample h True 4)) ws
    \<and> length vs = (if fst (start_bcm E tr) then n else 0) \<and> length ws = length vs"
proof -
  obtain ok tr0 where start: "start_bcm E tr = (ok, tr0)" by (meson surj_pair)
  have spi: "\<exists>v t'. Inr (spi_iteration E t) = (Inr (v, t') :: error + _) \<and> (\<exists>h. v = ucast (sample h True 0))" for t
    using spi_iteration_samples [OF assms(1), of t] by (cases "spi_iteration E t") auto
  have adc: "\<exists>v t'. read_item_num E (adc_block_new j8_24 1) 0 True 12 t = Inr (v, t') \<and> (\<exists>h. v = ucast (sample h True 4))" for t
  proof -
    let ?idx = "\<lparr>pin = j8_24, pad = 0, single_channel = True, channel = 4\<rparr>"
    obtain v t' where r: "read_item E ?idx t = (v, t')" by (meson surj_pair)
    from read_item_chip [OF assms r] have "\<exists>h. v = ucast (sample h True 4)" by (simp split: if_splits) blast+
    moreover have "(ucast (12 :: byte) :: 3 word) = 4" by simp
    ultimately show ?thesis using r unfolding read_item_num_def by (simp only:) (simp add: adc_block_new_def)
  qed
  show ?thesis
  proof (cases ok)
    case True
    let ?tr = "tr0 @ [Gpio_fsel_outp RPI_V2_GPIO_P1_22, Gpio_write RPI_V2_GPIO_P1_22 HIGH, Spi_chipSelect BCM2835_SPI_CS0,
      Spi_set Spi_bit_order_msbfirst, Spi_set Spi_data_mode3, Spi_set Spi_clock_divider_1024,
      Spi_set (Spi_chip_select_polarity BCM2835_SPI_CS0 LOW)]"
    obtain vs tr1 where vs: "print_loop (\<lambda>tr. Inr (spi_iteration E tr)) n ?tr = Inr (vs, tr1)" "length vs = n"
      "list_all (\<lambda>v. \<exists>h. v = ucast (sample h True 0)) vs"
      using print_loop_all [where f = "\<lambda>tr. Inr (spi_iteration E tr)", OF spi] by blast
    obtain ws tr2 where ws: "print_loop (read_item_num E (adc_block_new j8_24 1) 0 True 12) n tr0 = Inr (ws, tr2)"
      "length ws = n" "list_all (\<lambda>v. \<exists>h. v = ucast (sample h True 4)) ws"
      using print_loop_all [where f = "read_item_num E (adc_block_new j8_24 1) 0 True 12", OF adc] by blast
    show ?thesis
      using start True vs ws
      by (intro exI [of _ vs] exI [of _ tr1] exI [of _ ws] exI [of _ tr2]) (simp add: spi_main_def adc_test_main_def)
  qed (use start in \<open>simp add: spi_main_def adc_test_main_def\<close>)
qed

theorem print_programs_channels_witness:
  "\<exists>vs tr1. spi_main (sample_env\<lparr>env_spi := chip_spi channels\<rparr>) 2 [] = Inr (vs, tr1) \<and> vs = [3, 3]"
proof -
  let ?E = "sample_env\<lparr>env_spi := chip_spi channels\<rparr>"
  have "\<not> char_signed ?E" by (simp add: sample_env_def)
  from print_programs_channels [OF chip_spi_ok this, of 2 "[]" GPIO_0] obtain vs tr1 where
    vs: "spi_main ?E 2 [] = Inr (vs, tr1)" "list_all (\<lambda>v. v = 3) vs" "length vs = 2"
    by (auto simp: channels_def start_bcm_def sample_env_def Let_def)
  then have "vs = [3, 3]" by (auto simp: length_Suc_conv numeral_2_eq_2)
  with vs(1) show ?thesis by blast
qed

end
