(* ===== verification/SensorReading.thy ===== *)
theory SensorReading
  imports SensorVisit AdcChip
begin

text \<open>
  A sensor's visit from the ADC chip to the ring: the value that goes out to the client is the chip's sample of that
  sensor's channel.
\<close>

section \<open>Where each sensor is connected\<close>

text \<open>The channels of the ten sensors, in the order of the table: load cells, pressure transducers, thermocouples.\<close>

definition sensor_channels :: "3 word list" where
  "sensor_channels = [0, 1, 3, 4, 1, 2, 0, 4, 5, 6]"

lemma vis_adc_info:
  assumes "vis_wf s" and "i < 10"
  shows "adc_info (ti_at i s) = \<lparr>pin = (if i < 4 then ADC_2_CS else ADC_1_CS), pad = 0, single_channel = True,
    channel = sensor_channels ! i\<rparr>"
proof -
  have "map adc_info (tis (ti_list s)) = map adc_info (temp_ti_list 0)"
    using assms(1) by (simp add: vis_wf_def wiring_ok_def)
  moreover have "i < length (tis (ti_list s))" using vis_wf_length [OF assms(1)] assms(2) by simp
  ultimately have "adc_info (ti_at i s) = map adc_info (temp_ti_list 0) ! i" by (metis nth_map ti_at_def)
  moreover have "list_all (\<lambda>i. map adc_info (temp_ti_list 0) ! i = \<lparr>pin = (if i < 4 then ADC_2_CS else ADC_1_CS),
      pad = 0, single_channel = True, channel = sensor_channels ! i\<rparr>) [0..<10]"
    by (simp add: temp_ti_list_def timed_item_new_def adc_info_new_def upt_rec sensor_channels_def LC_ADC_def
        PT_ADC_def TC_ADC_def)
  ultimately show ?thesis using assms(2) by (simp add: list_all_iff)
qed

text \<open>The two ADCs: that of the load cells is selected by hand, the other by the SPI unit.\<close>

lemma sensor_sample:
  assumes "vis_wf s" and "i < 10" and "mcp3208 E sample" and "\<not> char_signed E"
    and "read_item E (adc_info (ti_at i s)) tr = (v, tr')"
  shows "v = ucast (sample
      (if i < 4 then gpio_write ADC_2_CS LOW (tr @ [Spi_chipSelect BCM2835_SPI_CS_NONE])
       else tr @ [Spi_chipSelect BCM2835_SPI_CS0]) True (sensor_channels ! i))"
  using read_item_chip [OF assms(3,4), of "adc_info (ti_at i s)" tr v tr'] assms(5)
  by (simp add: vis_adc_info [OF assms(1,2)] pin_defs split: if_splits)

section \<open>The reading\<close>

text \<open>
  C20. A visit to a sensor takes one reading: on a compiler with unsigned \<open>char\<close> and hardware that follows the MCP3208's
  protocol, the chip's single-ended sample of the sensor's own channel, taken after the chip select of the sensor's own ADC
  (load cells on one, pressure transducers and thermocouples on the other), and the time of the visit. They go, 16 bytes
  in the representation of \<open>adc_reading\<close>, to the end of that sensor's stream, as long as its 32-bit counter does not wrap; no other ring is touched, and the next
  visit is due from this reading on.
\<close>

theorem sensor_reading_recorded:
  assumes "vis_wf s" and "extra_datap item = Some i" and "i < 10"
    and "mcp3208 E sample" and "\<not> char_signed E"
    and a: "ti_buffer (ti_at i s) = Some a" and st: "holds (heap s ! a) st"
    and "counter_ok (heap s ! a) (length st + 16)"
  shows "\<exists>s' v. worker_visitTimed E C item s = Inr s'
    \<and> v = (let h = snd (get_time E (base_time s) (trace s)) in sample
        (if i < 4 then gpio_write ADC_2_CS LOW (h @ [Spi_chipSelect BCM2835_SPI_CS_NONE])
         else h @ [Spi_chipSelect BCM2835_SPI_CS0]) True ([0, 1, 3, 4, 1, 2, 0, 4, 5, 6] ! i))
    \<and> now s' = fst (get_time E (base_time s) (trace s))
    \<and> holds (heap s' ! a) (st @ le_bytes 8 (unat v) @ le_bytes 8 (unat (now s')))
    \<and> (\<forall>x < length (heap s). x = a \<or> heap s' ! x = heap s ! x)
    \<and> scheduled (ti_at i s') = now s'"
proof -
  obtain u tr0 where u: "get_time E (base_time s) (trace s) = (u, tr0)" by (meson surj_pair)
  obtain v tr where r: "read_item E (adc_info (ti_at i s)) tr0 = (v, tr)" by (meson surj_pair)
  define w where "w = sample (if i < 4 then gpio_write ADC_2_CS LOW (tr0 @ [Spi_chipSelect BCM2835_SPI_CS_NONE])
       else tr0 @ [Spi_chipSelect BCM2835_SPI_CS0]) True (sensor_channels ! i)"
  have v: "v = ucast w" using sensor_sample [OF assms(1,3-5) r] by (simp only: w_def)
  obtain b s1 where b: "add_data (heap s ! a) (reading_bytes \<lparr>adc_dat = ucast v, adc_t = u\<rparr>) = Inr b"
    and s1: "s1 = (sampled E C i v tr (s\<lparr>now := u, trace := tr0\<rparr>))\<lparr>heap := (heap s)[a := b]\<rparr>"
    and skip: "u - last_send (ti_at i s) \<le> 500000 \<Longrightarrow> worker_visitTimed E C item s = Inr s1"
    and send: "u - last_send (ti_at i s) > 500000 \<Longrightarrow>
      \<exists>r tr'. worker_visitTimed E C item s = Inr ((sent i (bytes_written b) s1)\<lparr>trace := tr'\<rparr>)"
    by (rule visitTimed_sensor [OF assms(1-3) u a r]) blast
  obtain tr' s' where out: "worker_visitTimed E C item s = Inr s'"
    and s': "s' = s1 \<or> s' = (sent i (bytes_written b) s1)\<lparr>trace := tr'\<rparr>"
    using skip send by (cases "u - last_send (ti_at i s) \<le> 500000") (auto simp: not_le)
  have "a < length (heap s)" "i < length (tis (ti_list s))"
    using wiring_ok_sensor [of "heap s" "tis (ti_list s)" i] assms(1-3) a vis_wf_length [OF assms(1)]
    by (auto simp: vis_wf_def ti_at_def)
  with s' have "heap s' = (heap s)[a := b]" "now s' = u" "scheduled (ti_at i s') = u" "heap s' ! a = b"
    by (auto simp: s1 sent_def ti_at_def Let_def)
  moreover from this have "\<forall>x < length (heap s). x = a \<or> heap s' ! x = heap s ! x"
    by (metis nth_list_update_neq)
  moreover have "holds b (st @ reading_bytes \<lparr>adc_dat = ucast v, adc_t = u\<rparr>)"
    using add_data_appends [OF st, of "reading_bytes \<lparr>adc_dat = ucast v, adc_t = u\<rparr>"] assms(8) b by auto
  moreover have "reading_bytes \<lparr>adc_dat = ucast v, adc_t = u\<rparr> = le_bytes 8 (unat w) @ le_bytes 8 (unat u)"
    by (simp add: reading_bytes_def unat_ucast_up v)
  ultimately show ?thesis
    using out u by (intro exI [of _ s'] exI [of _ w]) (simp add: w_def sensor_channels_def)
qed

text \<open>The combustion chamber sensor, item 5, is channel 2 of its ADC.\<close>

theorem sensor_reading_recorded_witness:
  "\<exists>s'. worker_visitTimed (sample_env\<lparr>env_spi := chip_spi channels\<rparr>) sample_config (timed_wqi 5) sample_visitor = Inr s'
    \<and> holds (heap s' ! 5) (le_bytes 8 2003 @ le_bytes 8 (unat (now s')))"
proof -
  let ?E = "sample_env\<lparr>env_spi := chip_spi channels\<rparr>"
  have "holds (heap sample_visitor ! 5) []"
    by (simp add: sample_ring_def holds_def cb_wf_def)
  from sensor_reading_recorded [where E = ?E and i = 5 and item = "timed_wqi 5" and C = sample_config,
      OF sample_visitor_wf _ _ chip_spi_ok _ _ this]
  show ?thesis
    by (auto simp: sample_env_def sample_visitor_ring counter_ok_def ti_at_def channels_def)
qed

end
