(* ===== verification/Views.thy ===== *)
theory Views
  imports LunaBurn TitanBurn
begin

text \<open>
  What the worker leaves alone, once for all: a part of the state that the elementary statements of the
  handlers preserve is preserved by every visit of either engine. The two locales state what a part has to
  satisfy, the one for the base class and Titan, the other for the additional members of Luna.
\<close>

lemma preserves_check_list:
  assumes "\<And>i s. view (s\<lparr>qw := enqueue (timed_wqi i) (qw s)\<rparr>) = view s"
  shows "preserves view (\<lambda>s. check_ti_list (g s) s)"
proof -
  have "view s' = view s" if "check_ti_list_from u i k s = Inr s'" for u i k s s'
    using that
  proof (induction u i k s rule: check_ti_list_from.induct)
    case (1 u i k s)
    show ?case
      using "1.prems" "1.IH" assms by (subst (asm) check_ti_list_from.simps) (simp split: if_splits)
  qed
  then show ?thesis by (simp add: preserves_def check_ti_list_def)
qed

section \<open>The base class\<close>

locale unchanged_view =
  fixes view :: "'a worker_visitor_scheme \<Rightarrow> 'v"
  assumes outside: "preserves view (gpio p v)" "preserves view (read_clock E)" "preserves view (read_adc E i)"
      "preserves view (log_nq_item E)"
    and queues: "wqi_action x \<noteq> wq_process \<Longrightarrow> preserves view (push_qw x)" "preserves view (\<lambda>s. push_qn (y s) s)"
    and table: "preserves view (on_list (til_set_delay a d))" "preserves view (on_list (til_disable a))"
      "preserves view (enable_now a)" "preserves view (set_ti i (\<lambda>s ti. ti\<lparr>scheduled := now s\<rparr>))"
      "preserves view (set_ti i (\<lambda>s ti. ti\<lparr>nbytes_last_send := bw, last_send := now s\<rparr>))"
    and members: "preserves view (assign (burn_on_update f) :: _ \<Rightarrow> error + _)" "preserves view (assign (\<lambda>s. s\<lparr>start_time_nitr := k s\<rparr>) :: _ \<Rightarrow> error + _)"
      "preserves view (assign (\<lambda>s. s\<lparr>adc_data := dat s\<rparr>) :: _ \<Rightarrow> error + _)" "preserves view (update_pressure E C)"
      "preserves view (fill_nq_item i bw)" "preserves view (store_reading i)"
begin

lemmas statements = outside queues table members

lemma check_list: "preserves view (\<lambda>s. check_ti_list (g s) s)"
proof (rule preserves_check_list)
  fix i s
  have "preserves view (push_qw (timed_wqi i))" by (rule queues) simp
  then show "view (s\<lparr>qw := enqueue (timed_wqi i) (qw s)\<rparr>) = view s" by (simp add: preserves_def push_qw_def)
qed

lemma send: "preserves view (send_data E i)"
proof -
  have "preserves view (exec
      [fill_nq_item i bw, set_ti i (\<lambda>s ti. ti\<lparr>nbytes_last_send := bw, last_send := now s\<rparr>),
       when_s (\<lambda>s. connected (nw s) \<and> nqi_nbytes (nq_item s) > 0) [\<lambda>s. push_qn (nq_item s) s], log_nq_item E])" for bw
    by (intro preserves_rules statements)
  then show ?thesis
    by (auto simp: preserves_def send_data_def Let_def simp del: exec.simps split: sum.splits)
qed

lemma handlers:
  "preserves view (worker_visitIgn E C item)" "preserves view (visitNone E item)"
  "preserves view (worker_visitTimed E C item)" "preserves view (visitDefault item)"
  unfolding worker_visitIgn_def visitNone_def worker_visitTimed_def check_pressure_def
  by (intro preserves_rules preserves_with_ti statements check_list send | simp add: preserves_def visitDefault_def)+

lemma proc: "preserves view (worker_visitProc item)"
  unfolding worker_visitProc_def
  by (auto split: option.splits send_code.splits intro!: preserves_rules statements)

lemma titan: "preserves view (titan_visit E C item)"
proof -
  have stages: "preserves view titan_ign2" "preserves view titan_ign3"
    unfolding titan_ign2_def titan_ign3_def by (intro preserves_rules statements)+
  have "preserves view (titan_visitProc item)"
    unfolding titan_visitProc_def
    by (auto split: option.splits send_code.splits intro!: preserves_rules statements proc)
  moreover have "preserves view (titan_visitTimed E C item)"
    unfolding titan_visitTimed_def
    by (intro preserves_rules preserves_with_ti statements handlers stages)
  ultimately show ?thesis
    unfolding titan_visit_def visit_def by (auto split: work_queue_item_action.splits intro!: handlers)
qed

end

section \<open>Luna\<close>

locale luna_unchanged_view = unchanged_view view
  for view :: "'a luna_visitor_scheme \<Rightarrow> 'v" +
  assumes luna_members: "preserves view (assign (gitvc_on_update f) :: _ \<Rightarrow> error + _)" "preserves view incr_gitvc_count"
    "preserves view (assign (gitvc_count_update g) :: _ \<Rightarrow> error + _)"
begin

lemma gitvc_delay: "preserves view (set_gitvc_delay C)"
proof -
  have "preserves view (on_list (til_set_delay gitvc d))" for d by (rule table)
  then show ?thesis by (auto simp: preserves_def set_gitvc_delay_def Let_def split: if_splits)
qed

lemma luna: "preserves view (luna_visit E C item)"
proof -
  have stages: "preserves view (luna_ign2 C)" "preserves view luna_ign3" "preserves view (luna_gitvc C)"
    unfolding luna_ign2_def luna_ign3_def luna_gitvc_def
    by (intro preserves_rules statements luna_members gitvc_delay)+
  have "preserves view (luna_visitProc item)"
    unfolding luna_visitProc_def
    by (auto split: option.splits send_code.splits intro!: preserves_rules statements proc)
  moreover have "preserves view (luna_visitTimed E C item)"
    unfolding luna_visitTimed_def
    by (intro preserves_rules preserves_with_ti statements handlers stages)
  ultimately show ?thesis
    unfolding luna_visit_def visit_def by (auto split: work_queue_item_action.splits intro!: handlers)
qed

end

end
