(* ===== verification/Commands.thy ===== *)
theory Commands
  imports System Views
begin

text \<open>
  From the client to the valves: the two threads composed once more, now in the direction of the
  commands. The network thread queues a \<open>wq_process\<close> item for each byte it reads, the worker takes it out and
  visits it, and nothing the worker does adds, drops or reorders such items.
\<close>

section \<open>The commands on their way\<close>

definition commands :: "work_queue_item list \<Rightarrow> byte list" where
  "commands xs = map wqi_data0 (filter (\<lambda>x. wqi_action x = wq_process) xs)"

lemma commands_simps [simp]:
  "commands [] = []"
  "commands (x # xs) = (if wqi_action x = wq_process then [wqi_data0 x] else []) @ commands xs"
  "commands (xs @ ys) = commands xs @ commands ys"
  by (simp_all add: commands_def)

lemma commands_process: "list_all (\<lambda>x. wqi_action x = wq_process) xs \<Longrightarrow> commands xs = map wqi_data0 xs"
  by (induction xs) simp_all

text \<open>What of the state is about commands: those queued, and all that was ever read.\<close>

definition cmd_view :: "'a process_scheme \<Rightarrow> byte list \<times> byte list" where
  "cmd_view s = (commands (q (qw s)), received (trace s))"

lemma cmd_view_simps [simp]:
  "cmd_view (s\<lparr>heap := hp\<rparr>) = cmd_view s" "cmd_view (s\<lparr>qn := qs\<rparr>) = cmd_view s"
  by (simp_all add: cmd_view_def)

section \<open>The worker leaves them alone\<close>

lemma read_item_received: "read_item E idx tr = (v, tr') \<Longrightarrow> received tr' = received tr"
  by (auto simp: read_item_def spi_transfernb_def gpio_write_def Let_def split: prod.splits)

lemma write_data_received: "write_data E b fd n off tr = Inr (r, tr') \<Longrightarrow> received tr' = received tr"
proof (induction E b fd n off tr rule: write_data.induct)
  case (1 E b fd n off tr)
  have "received tr2 = received tr1" if "sys_write E fd bs tr1 = (k, tr2)" for bs tr1 k tr2
    using quiet_calls(1) [OF that] by (rule quiet_after_received)
  then show ?case
    using "1.prems"
    by (subst (asm) write_data.simps)
      (auto simp: Let_def "1.IH" split: if_splits sum.splits prod.splits)
qed

lemma write_from_nqi_received:
  "write_from_nqi E hp item tr = Inr (r, tr') \<Longrightarrow> received tr' = received tr"
  by (auto simp: write_from_nqi_def write_buff_def sys_open_def sys_close_def Let_def
      split: option.splits if_splits sum.splits prod.splits dest!: write_data_received)

lemma preserves_cmd_push [untouched]:
  "wqi_action x \<noteq> wq_process \<Longrightarrow> preserves cmd_view (push_qw x)"
  by (simp add: preserves_def push_qw_def cmd_view_def enqueue_def)

lemma preserves_cmd_statements [untouched]:
  "preserves cmd_view (gpio p v)" "preserves cmd_view (read_clock E)" "preserves cmd_view (on_list g)"
  "preserves cmd_view (enable_now a)" "preserves cmd_view (set_ti i h)"
  "preserves cmd_view (visitDefault item)"
  "preserves cmd_view (assign (burn_on_update f))" "preserves cmd_view (assign (\<lambda>s. s\<lparr>start_time_nitr := k s\<rparr>))"
  "preserves cmd_view (assign (\<lambda>s. s\<lparr>adc_data := d s\<rparr>))" "preserves cmd_view (update_pressure E C)"
  "preserves cmd_view (fill_nq_item i bw)" "preserves cmd_view (\<lambda>s. push_qn (y s) s)"
  by (auto simp: preserves_def process_stmts read_clock_def on_list_def enable_now_def set_ti_def
    visitDefault_def assign_def update_pressure_def fill_nq_item_def
    cmd_view_def gpio_write_def split: prod.splits sum.splits
    dest!: get_time_quiet quiet_after_received)

lemma preserves_cmd_io [untouched]:
  "preserves cmd_view (read_adc E i)" "preserves cmd_view (log_nq_item E)" "preserves cmd_view (store_reading i)"
  by (auto simp: preserves_def read_adc_def log_nq_item_def store_reading_def cmd_view_def
    split: prod.splits sum.splits dest!: read_item_received write_from_nqi_received)

lemma preserves_cmd_luna [untouched]:
  "preserves cmd_view (assign (gitvc_on_update f))" "preserves cmd_view (assign (gitvc_count_update g))"
  "preserves cmd_view incr_gitvc_count"
  by (auto simp: preserves_def assign_def incr_gitvc_count_def cmd_view_def split: if_splits)

interpretation commands_kept: unchanged_view "cmd_view :: 'a worker_visitor_scheme \<Rightarrow> _"
  by unfold_locales (assumption | rule untouched)+

interpretation luna_commands_kept: luna_unchanged_view "cmd_view :: 'a luna_visitor_scheme \<Rightarrow> _"
  by unfold_locales (rule untouched)+

section \<open>Runs and their commands\<close>

text \<open>The interleaving of the two threads, with the commands the worker has visited, in order.\<close>

inductive command_run ::
    "(work_queue_item \<Rightarrow> 'a process_scheme \<Rightarrow> error + 'a process_scheme) \<Rightarrow> env \<Rightarrow> bool
     \<Rightarrow> 'a process_scheme \<Rightarrow> byte list \<Rightarrow> 'a process_scheme \<Rightarrow> bool"
  for wqv E udp s where
  run_start: "command_run wqv E udp s [] s"
| run_worker: "command_run wqv E udp s cs t \<Longrightarrow> worker_step wqv t = Inr u \<Longrightarrow>
    command_run wqv E udp s (cs @ commands [fst (poll (qw t))]) u"
| run_network: "command_run wqv E udp s cs t \<Longrightarrow> network_step E udp junk t = Inr u \<Longrightarrow>
    command_run wqv E udp s cs u"

text \<open>They are the runs of the system.\<close>

lemma command_run_sys: "command_run wqv E udp s cs s' \<Longrightarrow> (sys_step wqv E udp)\<^sup>*\<^sup>* s s'"
  by (induction rule: command_run.induct) (auto intro: rtranclp.rtrancl_into_rtrancl sys_step.intros)

lemma sys_command_run: "(sys_step wqv E udp)\<^sup>*\<^sup>* s s' \<Longrightarrow> \<exists>cs. command_run wqv E udp s cs s'"
  by (induction rule: rtranclp_induct) (auto intro: command_run.intros elim!: sys_stepE)

text \<open>What the composition relies on: no visit touches the commands.\<close>

locale command_engine = engine ok wqv
  for ok :: "'a worker_visitor_scheme \<Rightarrow> bool" and wqv +
  assumes cmd_law: "preserves cmd_view (wqv item)"
begin

definition delivered :: "'a worker_visitor_scheme \<Rightarrow> byte list \<Rightarrow> 'a worker_visitor_scheme \<Rightarrow> bool" where
  "delivered s cs t \<longleftrightarrow> (\<exists>new. received (trace t) = received (trace s) @ new
     \<and> commands (q (qw s)) @ new = cs @ commands (q (qw t)))"

lemma delivered_worker:
  assumes "delivered s cs t" and "ok t" and "worker_step wqv t = Inr u"
  shows "delivered s (cs @ commands [fst (poll (qw t))]) u"
proof -
  obtain item qw' where p: "poll (qw t) = (item, qw')" by (meson surj_pair)
  have "null_item (qw t) = null_wqi" using ok_wf [OF assms(2)] by (simp add: vis_wf_defs)
  with p have "commands (q (qw t)) = commands [item] @ commands (q qw')"
    by (cases rule: poll_cases) (simp_all add: null_wqi_def)
  moreover have "wqv item (t\<lparr>qw := qw'\<rparr>) = Inr u" using assms(3) p by (simp add: worker_step_def)
  then have "cmd_view u = cmd_view (t\<lparr>qw := qw'\<rparr>)" by (rule preservesD [OF cmd_law])
  ultimately show ?thesis using assms(1) p by (auto simp: delivered_def cmd_view_def)
qed

lemma delivered_network:
  assumes "delivered s cs t" and "net_ok t" and "missing_return E \<noteq> None" and "network_step E udp junk t = Inr u"
  shows "delivered s cs u"
proof -
  from network_step_inv [OF net_inv_refl [OF assms(2)] assms(3), of udp junk] assms(4)
  obtain xs where "q (qw u) = q (qw t) @ xs" "list_all (\<lambda>x. wqi_action x = wq_process) xs"
    "received (trace u) = received (trace t) @ map wqi_data0 xs"
    by (auto simp: net_inv_def)
  with assms(1) show ?thesis by (auto simp: delivered_def commands_process)
qed

lemma commands_run:
  assumes "command_run wqv E udp s cs s'" and "ok s" and "timeout (nw s) = 0" and "missing_return E \<noteq> None"
  shows "ok s' \<and> timeout (nw s') = 0 \<and> delivered s cs s'"
  using assms(1)
proof (induction rule: command_run.induct)
  case run_start
  with assms show ?case by (simp add: delivered_def)
next
  case (run_worker cs t u)
  then have t: "ok t" "timeout (nw t) = 0" "delivered s cs t" by simp_all
  from worker_round_ok [OF t(1)] run_worker.hyps(2) have "ok u" "nw u = nw t" by auto
  with delivered_worker [OF t(3,1) run_worker.hyps(2)] t(2) show ?case by simp
next
  case (run_network cs t junk u)
  then have t: "ok t" "timeout (nw t) = 0" "delivered s cs t" by simp_all
  from network_round_ok [OF t(1,2) run_network.hyps(2)]
    delivered_network [OF t(3) ok_net_ok [OF t(1,2)] assms(4) run_network.hyps(2)]
  show ?case by simp
qed

end

interpretation luna_cmd: command_engine "luna_wf C" "luna_visit E C"
  for C E
  by unfold_locales (rule luna_commands_kept.luna)

interpretation titan_cmd: command_engine vis_wf "titan_visit E C"
  for C E
  by unfold_locales (rule commands_kept.titan)

lemma titan_commands_in_order:
  assumes "command_run (titan_visit E C) E udp s cs s'" and "vis_wf s" and "timeout (nw s) = 0" and "missing_return E \<noteq> None"
  shows "\<exists>new. received (trace s') = received (trace s) @ new \<and> commands (q (qw s)) @ new = cs @ commands (q (qw s'))"
  using titan_cmd.commands_run [OF assms] by (simp add: titan_cmd.delivered_def)

section \<open>Properties\<close>

text \<open>
  C8. Commands are carried out in order, end to end. Under every interleaving of the two threads of a Luna, whatever
  the environment does: the commands the worker has visited, followed by those still queued, are those queued at
  the start followed by the bytes received since, so that no command is lost, repeated, invented or
  overtaken, and no other round of either thread looks like one.
\<close>

theorem commands_executed_in_order:
  assumes "command_run (luna_visit E C) E udp s cs s'" and "luna_wf C s" and "timeout (nw s) = 0"
    and "missing_return E \<noteq> None"
  shows "\<exists>new. received (trace s') = received (trace s) @ new \<and> commands (q (qw s)) @ new = cs @ commands (q (qw s'))"
  using luna_cmd.commands_run [OF assms] by (simp add: luna_cmd.delivered_def)

text \<open>A Luna whose client sends the byte 5: the network thread reads it, the worker visits it.\<close>

definition cmd_luna :: luna_visitor where
  "cmd_luna = sample_luna\<lparr>qn := enqueue (null_nqi\<lparr>nqi_action := nq_recv\<rparr>) (safe_queue_new null_nqi)\<rparr>"

lemma cmd_luna_wf: "luna_wf sample_config cmd_luna"
  using sample_luna_wf by (simp add: luna_wf_def vis_wf_defs cmd_luna_def nqi_ok_def)

lemma cmd_luna_receives:
  "\<exists>t. network_step sample_env False null_wqi cmd_luna = Inr t \<and> received (trace t) = [5]
     \<and> q (qw t) = [null_wqi\<lparr>wqi_action := wq_process, wqi_data0 := 5\<rparr>]"
  by (simp add: network_step_def network_round_def poll_def cmd_luna_def sample_network_def null_nqi_def
      process_nqi_def recv_command_def do_recv_def poll_pf_def sys_poll_def sample_env_def set_nw_def POLLIN_def
      sys_read_def touch_last_recv_def get_time_def gettimeofday_def assign_def push_qw_def safe_queue_new_def
      enqueue_def Let_def)

theorem commands_executed_in_order_witness:
  "\<exists>s'. command_run (luna_visit sample_env sample_config) sample_env False cmd_luna [5] s'
     \<and> received (trace s') = [5] @ commands (q (qw s'))"
proof -
  let ?run = "command_run (luna_visit sample_env sample_config) sample_env False cmd_luna"
  have init: "timeout (nw cmd_luna) = 0" "missing_return sample_env \<noteq> None" "received (trace cmd_luna) = []"
    "commands (q (qw cmd_luna)) = []"
    by (simp_all add: cmd_luna_def sample_network_def sample_env_def safe_queue_new_def)
  obtain t where t: "network_step sample_env False null_wqi cmd_luna = Inr t" "q (qw t) = [null_wqi\<lparr>wqi_action := wq_process, wqi_data0 := 5\<rparr>]"
    using cmd_luna_receives by blast
  have run: "?run [] t" by (rule run_network [OF run_start t(1)])
  have wf: "luna_wf sample_config t" using luna_cmd.commands_run [OF run cmd_luna_wf init(1,2)] by simp
  obtain u where u: "worker_step (luna_visit sample_env sample_config) t = Inr u"
    using luna.worker_round_ok [OF wf] by blast
  have "commands [fst (poll (qw t))] = [5]" using t(2) by (simp add: poll_def)
  with run_worker [OF run u] have run': "?run [5] u" by simp
  from commands_executed_in_order [OF run' cmd_luna_wf init(1,2)] init(3,4) run' show ?thesis by auto
qed

end
