(* ===== verification/Pulses.thy ===== *)
theory Pulses
  imports Commands
begin

text \<open>
  The pulses of GITVC over a whole run: the end of a burn parks their counter, and nothing moves it again, not even
  another ignition.
\<close>

definition parked :: "'a luna_visitor_scheme \<Rightarrow> byte list \<Rightarrow> bool" where
  "parked s cs \<longleftrightarrow> gitvc_count s = INT_MAX
     \<and> (pin_level (trace s) GITVC_VALVE = Some LOW \<longrightarrow> Some set_gitvc \<in> code_of ` set cs)"

text \<open>A round of the Luna worker visits an item in a state of the invariant.\<close>

lemma luna_round:
  assumes "luna_wf C s" and "worker_step (luna_visit E C) s = Inr s'"
  obtains item xs where "fst (poll (qw s)) = item" "wqi_ok item" "luna_wf C (s\<lparr>qw := (qw s)\<lparr>q := xs\<rparr>\<rparr>)"
    "luna_visit E C item (s\<lparr>qw := (qw s)\<lparr>q := xs\<rparr>\<rparr>) = Inr s'"
proof -
  obtain item qw' where p: "poll (qw s) = (item, qw')" by (meson surj_pair)
  have "null_item (qw s) = null_wqi" "list_all wqi_ok (q (qw s))"
    using assms(1) by (simp_all add: luna_wf_def vis_wf_defs)
  with p have "wqi_ok item \<and> (\<exists>xs. qw' = (qw s)\<lparr>q := xs\<rparr> \<and> list_all wqi_ok xs)"
    by (cases rule: poll_cases) (auto simp: wqi_ok_def null_wqi_def intro: exI [of _ "[]"])
  then obtain xs where xs: "wqi_ok item" "qw' = (qw s)\<lparr>q := xs\<rparr>" "list_all wqi_ok xs" by blast
  moreover have "luna_wf C (s\<lparr>qw := (qw s)\<lparr>q := xs\<rparr>\<rparr>)" using luna.ok_queue [OF assms(1) xs(3)] .
  moreover have "luna_visit E C item (s\<lparr>qw := qw'\<rparr>) = Inr s'" using assms(2) p by (simp add: worker_step_def)
  ultimately show thesis using that p by simp
qed

text \<open>Every step of the program keeps it.\<close>

lemma parked_stays:
  assumes "command_run (luna_visit E C) E udp s cs s'" and "luna_wf C s" and "timeout (nw s) = 0" and "parked s []"
  shows "parked s' cs"
  using assms(1)
proof (induction rule: command_run.induct)
  case run_start
  show ?case by (rule assms(4))
next
  case (run_worker cs t u)
  have wf: "luna_wf C t" using luna_run_safe(1) [OF command_run_sys [OF run_worker.hyps(1)] assms(2,3)] .
  obtain item xs where item: "fst (poll (qw t)) = item" "wqi_ok item" "luna_wf C (t\<lparr>qw := (qw t)\<lparr>q := xs\<rparr>\<rparr>)"
    "luna_visit E C item (t\<lparr>qw := (qw t)\<lparr>q := xs\<rparr>\<rparr>) = Inr u"
    by (rule luna_round [OF wf run_worker.hyps(2)])
  from gitvc_stays_parked [OF item(3,2,4)] run_worker.IH show ?case
    by (auto simp: parked_def item(1) image_Un)
next
  case (run_network cs t junk u)
  have t: "luna_wf C t" "timeout (nw t) = 0"
    using luna_run_safe [OF command_run_sys [OF run_network.hyps(1)] assms(2,3)] by simp_all
  have inv: "net_inv t [] u"
    using network_step_law [OF net_inv_refl [OF luna.ok_net_ok [OF t]], of E udp junk] run_network.hyps(2) by simp
  then have "gitvc_count u = gitvc_count t" by (auto simp: net_inv_def net_next_def)
  then show ?case using run_network.IH net_inv_pin_level [OF inv] by (simp add: parked_def)
qed

lemma burn_end_parks:
  assumes "luna_wf C s" and "worker_step (luna_visit E C) s = Inr s1"
    and "wqi_action (fst (poll (qw s))) = wq_timed" and "extra_datap (fst (poll (qw s))) = Some 11"
  shows "luna_wf C s1 \<and> nw s1 = nw s \<and> parked s1 []"
proof -
  obtain item xs where item: "fst (poll (qw s)) = item" "luna_wf C (s\<lparr>qw := (qw s)\<lparr>q := xs\<rparr>\<rparr>)"
    "luna_visit E C item (s\<lparr>qw := (qw s)\<lparr>q := xs\<rparr>\<rparr>) = Inr s1"
    by (rule luna_round [OF assms(1,2)])
  have "luna_visitTimed E C item (s\<lparr>qw := (qw s)\<lparr>q := xs\<rparr>\<rparr>) = Inr s1"
    using item(3) assms(3) by (simp add: item(1) luna_visit_def visit_def)
  with luna_ign3_visit [OF item(2), of item E] assms(4) have "parked s1 []" by (auto simp: item(1) parked_def)
  with luna.worker_round_ok [OF assms(1), of E] assms(2) show ?thesis by fastforce
qed

text \<open>
  C24. After a burn GITVC is parked for good. When the worker visits \<open>ign3\<close>, the end of a burn, the pulse counter goes to
  \<open>INT_MAX\<close>; then, under every interleaving of the two threads, it stays there, and the GITVC valve is never found
  open unless a \<open>set_gitvc\<close> command has been visited since: a second ignition runs without pulses.
\<close>

theorem gitvc_parked_after_burn:
  assumes "luna_wf C s" and "timeout (nw s) = 0"
    and "wqi_action (fst (poll (qw s))) = wq_timed" and "extra_datap (fst (poll (qw s))) = Some 11"
    and "worker_step (luna_visit E C) s = Inr s1"
    and "command_run (luna_visit E C) E udp s1 cs s'"
  shows "gitvc_count s' = INT_MAX
    \<and> (pin_level (trace s') GITVC_VALVE = Some LOW \<longrightarrow> Some set_gitvc \<in> code_of ` set cs)"
  using parked_stays [OF assms(6)] burn_end_parks [OF assms(1,5,3,4)] assms(2) by (simp add: parked_def)

text \<open>The end of a burn and, after it, the start of the next one.\<close>

definition two_burns :: luna_visitor where
  "two_burns = sample_luna\<lparr>burn_on := True, qw := (safe_queue_new null_wqi)\<lparr>q := [timed_wqi 11, timed_wqi 10]\<rparr>\<rparr>"

lemma two_burns_wf: "luna_wf sample_config two_burns"
  using sample_luna_wf by (auto simp: luna_wf_def vis_wf_defs two_burns_def wqi_ok_def)

theorem gitvc_parked_after_burn_witness:
  "\<exists>s1 s2. worker_step (luna_visit sample_env sample_config) two_burns = Inr s1
     \<and> worker_step (luna_visit sample_env sample_config) s1 = Inr s2
     \<and> gitvc_count s2 = INT_MAX \<and> pin_level (trace s2) GITVC_VALVE \<noteq> Some LOW"
proof -
  let ?v = "luna_visit sample_env sample_config"
  obtain s1 where s1: "worker_step ?v two_burns = Inr s1" "luna_wf sample_config s1"
    using luna.worker_round_ok [OF two_burns_wf] by blast
  obtain s2 where s2: "worker_step ?v s1 = Inr s2" using luna.worker_round_ok [OF s1(2)] by blast
  have first: "fst (poll (qw two_burns)) = timed_wqi 11" "timeout (nw two_burns) = 0"
    by (simp_all add: two_burns_def poll_def safe_queue_new_def sample_network_def)
  let ?t = "two_burns\<lparr>qw := (qw two_burns)\<lparr>q := [timed_wqi 10]\<rparr>\<rparr>"
  obtain u tr where u: "get_time sample_env (base_time ?t) (trace ?t) = (u, tr)" by (meson surj_pair)
  have wf: "luna_wf sample_config ?t"
    using luna.ok_queue [OF two_burns_wf, of "[timed_wqi 10]"] by (simp add: wqi_ok_def)
  have "worker_step ?v two_burns = luna_ign3 (woken ign3 u tr ?t)"
    using luna_visit_stage [OF wf _ _ _ u, of "timed_wqi 11" 11 ign3]
    by (simp add: worker_step_def two_burns_def poll_def safe_queue_new_def luna_visit_def visit_def)
  moreover have "til_wf (ti_list ?t)" using wf by (simp add: luna_wf_def vis_wf_def)
  ultimately have "qw s1 = qw ?t" using s1(1) by (auto simp: luna_ign3_eq stage_ops)
  then have "fst (poll (qw s1)) = timed_wqi 10" by (simp add: poll_def)
  then have "commands [fst (poll (qw s1))] = []" by simp
  with run_worker [OF run_start s2] have run: "command_run ?v sample_env False s1 [] s2" by fastforce
  from gitvc_parked_after_burn [OF two_burns_wf first(2) _ _ s1(1) run] first(1) s1(1) s2 show ?thesis by auto
qed

end
