(* ===== verification/Rwrite.thy ===== *)
theory Rwrite
  imports CircularBuffer
begin

text \<open>
  \<open>rwrite\<close> of \<open>src/server/network_worker.cpp\<close>, which nothing calls: a write that starts again until
  all is out, by recursion. It may not return, which is \<open>None\<close>. \<open>b\<close> is the array behind the pointer,
  \<open>off\<close> the pointer's place in it; reading outside of the array is undefined.
\<close>

partial_function (option) rwrite ::
    "env \<Rightarrow> int \<Rightarrow> byte list \<Rightarrow> int \<Rightarrow> size_t \<Rightarrow> event list \<Rightarrow> (error + (int \<times> event list)) option" where
  "rwrite E fd b off n tr =
     (if n = 0 then Some (Inr (0, tr))
      else if off < 0 \<or> length b < nat off + unat n then Some (Inl Undefined)
      else case sys_write E fd (slice (nat off) (unat n) b) tr of (result, tr1) \<Rightarrow>
        Option.bind
          (rwrite E fd b (off + result) (n - word_of_int result)
             (if result \<le> 0 then tr1 @ [Stderr ''Error while writing?''] else tr1))
          (\<lambda>r. Some (case r of Inl e \<Rightarrow> Inl e | Inr (rest, tr2) \<Rightarrow> Inr (result + rest, tr2))))"

text \<open>While every write makes progress it returns with everything written.\<close>

definition progress :: "env \<Rightarrow> int \<Rightarrow> bool" where
  "progress E fd \<longleftrightarrow> (\<forall>tr bs. bs \<noteq> [] \<longrightarrow> (\<exists>k > 0. env_write E tr fd bs = Some k))"

lemma rwrite_all:
  assumes "progress E fd" and "k + unat n \<le> length b"
  shows "\<exists>tr'. rwrite E fd b (int k) n tr = Some (Inr (int (unat n), tr'))
    \<and> fd_bytes tr' fd = fd_bytes tr fd @ slice k (unat n) b"
  using assms(2)
proof (induction "unat n" arbitrary: k n tr rule: less_induct)
  case less
  show ?case
  proof (cases "n = 0")
    case True
    then show ?thesis by (subst rwrite.simps) simp
  next
    case n: False
    let ?bs = "slice k (unat n) b"
    have len: "length ?bs = unat n" "0 < unat n" using less.prems n by (simp_all add: unat_gt_0)
    then have "?bs \<noteq> []" by force
    then obtain j where j: "j > 0" "env_write E tr fd ?bs = Some j" using assms(1) by (auto simp: progress_def)
    define m where "m = min j (unat n)"
    have m: "0 < m" "m \<le> unat n" using j len by (simp_all add: m_def)
    have w: "sys_write E fd ?bs tr = (int m, tr @ [Sys_write fd (take m ?bs) (int m)])"
      using j len by (simp add: sys_write_def m_def Let_def)
    have u: "unat (n - word_of_int (int m)) = unat n - m" using word_of_int_chunk(1) [of "int m" n] m
      by (simp only: of_nat_0_less_iff of_nat_le_iff nat_int)
    have "unat (n - word_of_int (int m)) < unat n" "k + m + unat (n - word_of_int (int m)) \<le> length b"
      unfolding u using m less.prems by simp_all
    from less.hyps [OF this, of "tr @ [Sys_write fd (take m ?bs) (int m)]", unfolded u] obtain tr' where
      r: "rwrite E fd b (int k + int m) (n - word_of_int (int m)) (tr @ [Sys_write fd (take m ?bs) (int m)])
          = Some (Inr (int (unat n - m), tr'))"
      "fd_bytes tr' fd = fd_bytes tr fd @ take m ?bs @ slice (k + m) (unat n - m) b"
      by (auto simp: fd_bytes_one)
    have "rwrite E fd b (int k) n tr = Some (Inr (int m + int (unat n - m), tr'))"
      using n less.prems m w r(1) by (subst rwrite.simps) (simp del: of_nat_diff)
    moreover have "take m ?bs @ slice (k + m) (unat n - m) b = ?bs"
      using m slice_append [of k m b "unat n - m"] by (simp add: take_slice)
    ultimately show ?thesis using r(2) m by (simp add: of_nat_diff)
  qed
qed

text \<open>The first failing write moves the pointer before the array.\<close>

lemma rwrite_failed_write:
  assumes "n \<noteq> 0" and "n + 1 \<noteq> 0" and "unat n \<le> length b" and "env_write E tr fd (take (unat n) b) = None"
  shows "rwrite E fd b 0 n tr = Some (Inl Undefined)"
proof -
  have "sys_write E fd (take (unat n) b) tr = (-1, tr @ [Sys_write fd [] (-1)])"
    using assms(4) by (simp add: sys_write_def)
  moreover have "rwrite E fd b (-1) (n + 1) tr2 = Some (Inl Undefined)" for tr2
    using assms(2) by (subst rwrite.simps) simp
  ultimately show ?thesis
    using assms(1,3) by (subst rwrite.simps) (simp add: slice_def)
qed

text \<open>While the writes accept nothing it does not return.\<close>

lemma rwrite_stuck:
  assumes "\<And>tr bs. env_write E tr fd bs = Some 0" and "n \<noteq> 0" and "0 \<le> off" and "nat off + unat n \<le> length b"
  shows "rwrite E fd b off n tr = None"
proof -
  have other: "\<not> (E' = E \<and> fd' = fd \<and> b' = b \<and> off' = off \<and> n' = n)"
    if "rwrite E' fd' b' off' n' tr' = Some y" for E' fd' b' off' n' tr' y
  proof (rule rwrite.raw_induct [where P = "\<lambda>E' fd' b' off' n' tr' y. \<not> (E' = E \<and> fd' = fd \<and> b' = b \<and> off' = off \<and> n' = n)", OF _ that], goal_cases)
    case 1
    then show ?case
      using assms by (auto simp: sys_write_def Let_def split: if_splits option.splits bind_splits)
  qed
  show ?thesis using other [of E fd b off n tr] by (cases "rwrite E fd b off n tr") simp_all
qed

end
