(* ===== verification/Wiring.thy ===== *)
theory Wiring
  imports System Views
begin

text \<open>
  What never changes while the controller runs: how many rings there are and how large they are, which item of the
  table reads which ADC channel into which ring, and what each item is for. The code relies on it silently: it
  keeps pointers to rings and items in queued items, and hands them over from thread to thread.
\<close>

section \<open>The fixed part of the state\<close>

type_synonym wiring = "size_t list \<times> (work_queue_item_action \<times> adc_info_t \<times> nat option) list"

definition item_wiring :: "timed_item \<Rightarrow> work_queue_item_action \<times> adc_info_t \<times> nat option" where
  "item_wiring x = (ti_action x, adc_info x, ti_buffer x)"

definition wiring :: "'a worker_visitor_scheme \<Rightarrow> wiring" where
  "wiring s = (map nbytes (heap s), map item_wiring (tis (ti_list s)))"

lemma wiring_simps [simp]:
  "wiring (s\<lparr>qn := a\<rparr>) = wiring s" "wiring (s\<lparr>qw := b\<rparr>) = wiring s" "wiring (s\<lparr>nw := n\<rparr>) = wiring s"
  "wiring (s\<lparr>trace := tr\<rparr>) = wiring s" "wiring (s\<lparr>now := u\<rparr>) = wiring s" "wiring (s\<lparr>nq_item := i\<rparr>) = wiring s"
  "wiring (s\<lparr>adc_data := d\<rparr>) = wiring s" "wiring (s\<lparr>start_time_nitr := v\<rparr>) = wiring s"
  "wiring (s\<lparr>pressure_avg := p\<rparr>) = wiring s" "wiring (s\<lparr>burn_on := z\<rparr>) = wiring s"
  by (simp_all add: wiring_def)

lemma map_item_wiring_update:
  assumes "\<And>x. item_wiring (f x) = item_wiring x"
  shows "map item_wiring (xs[i := f (xs ! i)]) = map item_wiring xs"
  using assms by (metis list_update_id map_update)

section \<open>The worker leaves it alone\<close>

lemma add_data_nbytes: "add_data b p = Inr b' \<Longrightarrow> nbytes b' = nbytes b"
proof (induction b p rule: add_data.induct)
  case (1 b p)
  show ?case
    using "1.prems" by (subst (asm) add_data.simps) (auto simp: Let_def simp del: add_data.simps split: if_splits sum.splits dest!: "1.IH")
qed

lemma til_update_wiring:
  assumes "til_update a f l = Inr l'" and "\<And>x. item_wiring (f x) = item_wiring x"
  shows "map item_wiring (tis l') = map item_wiring (tis l)"
  using assms map_item_wiring_update [of f] by (auto simp: til_update_def split: sum.splits)

lemma preserves_wiring_list [untouched]:
  "preserves wiring (on_list (til_set_delay a d))" "preserves wiring (on_list (til_disable a))"
  "preserves wiring (enable_now a)"
  by (auto simp: preserves_def on_list_def enable_now_def wiring_def til_set_delay_def til_disable_def til_enable_def
    item_wiring_def ti_enable_def ti_disable_def split: sum.splits dest!: til_update_wiring)

lemma preserves_wiring_set_ti:
  "(\<And>s x. item_wiring (f s x) = item_wiring x) \<Longrightarrow> preserves wiring (set_ti i f)"
  using map_item_wiring_update [of "f s" for s] by (simp add: preserves_def set_ti_def wiring_def ti_at_def)

lemma preserves_wiring_marks [untouched]:
  "preserves wiring (set_ti i (\<lambda>s ti. ti\<lparr>scheduled := now s\<rparr>))"
  "preserves wiring (set_ti i (\<lambda>s ti. ti\<lparr>nbytes_last_send := bw, last_send := now s\<rparr>))"
  by (rule preserves_wiring_set_ti, simp add: item_wiring_def)+

lemma preserves_wiring_store [untouched]: "preserves wiring (store_reading i)"
proof -
  have "map nbytes (hp[a := b']) = map nbytes hp" if "deref hp (Some a) = Inr b" "add_data b p = Inr b'" for hp a b b' p
    using that add_data_nbytes [OF that(2)]
    by (auto simp: deref_def map_update list_update_same_conv split: if_splits)
  then show ?thesis
    by (auto simp: preserves_def store_reading_def wiring_def deref_def split: sum.splits option.splits if_splits)
qed

lemma preserves_wiring_statements [untouched]:
  "preserves wiring (gpio p v)" "preserves wiring (push_qw x)" "preserves wiring (read_clock E)"
  "preserves wiring (visitDefault item)" "preserves wiring (read_adc E i)" "preserves wiring (log_nq_item E)"
  "preserves wiring (assign (burn_on_update f))" "preserves wiring (assign (\<lambda>s. s\<lparr>start_time_nitr := k s\<rparr>))"
  "preserves wiring (assign (\<lambda>s. s\<lparr>adc_data := d s\<rparr>))" "preserves wiring (update_pressure E C)"
  "preserves wiring (fill_nq_item i bw)" "preserves wiring (\<lambda>s. push_qn (y s) s)"
  by (auto simp: preserves_def process_stmts read_clock_def visitDefault_def assign_def update_pressure_def
    fill_nq_item_def read_adc_def log_nq_item_def wiring_def split: prod.splits sum.splits)

lemma preserves_wiring_luna [untouched]:
  "preserves wiring (assign (gitvc_on_update f))" "preserves wiring (assign (gitvc_count_update g))"
  "preserves wiring incr_gitvc_count"
  by (auto simp: preserves_def assign_def incr_gitvc_count_def wiring_def split: if_splits)

interpretation wiring_kept: unchanged_view "wiring :: 'a worker_visitor_scheme \<Rightarrow> _"
  by unfold_locales (rule untouched)+

interpretation luna_wiring_kept: luna_unchanged_view "wiring :: 'a luna_visitor_scheme \<Rightarrow> _"
  by unfold_locales (rule untouched)+

section \<open>Runs\<close>

locale wired_engine = engine ok wqv
  for ok :: "'a worker_visitor_scheme \<Rightarrow> bool" and wqv +
  assumes wiring_law: "preserves wiring (wqv item)"
begin

lemma wiring_run:
  assumes "(sys_step wqv E udp)\<^sup>*\<^sup>* s s'" and "ok s" and "timeout (nw s) = 0" and "missing_return E \<noteq> None"
  shows "wiring s' = wiring s"
  using assms(1)
proof (induction rule: rtranclp_induct)
  case base
  show ?case ..
next
  case (step t u)
  have t: "ok t" "timeout (nw t) = 0" using system_ok [OF step(1) assms(2,3)] by simp_all
  from step(2) show ?case
  proof (rule sys_stepE)
    assume "worker_step wqv t = Inr u"
    then have "wqv (fst (poll (qw t))) (t\<lparr>qw := snd (poll (qw t))\<rparr>) = Inr u"
      by (simp add: worker_step_def split: prod.splits)
    from preservesD [OF wiring_law this] step(3) show ?thesis by simp
  next
    fix junk assume "network_step E udp junk t = Inr u"
    with network_step_inv [OF net_inv_refl [OF ok_net_ok [OF t]] assms(4), of udp junk]
    have "net_next t u" by (simp add: net_inv_def)
    then show ?thesis using step(3) by (auto simp: net_next_def)
  qed
qed

text \<open>What is queued then refers to the rings and items there have been from the start.\<close>

lemma queued_references:
  assumes "(sys_step wqv E udp)\<^sup>*\<^sup>* s s'" and "ok s" and "timeout (nw s) = 0" and "missing_return E \<noteq> None"
  shows "(\<forall>x \<in> set (q (qw s')). wqi_action x = wq_timed \<longrightarrow> (\<exists>i < length (tis (ti_list s)). extra_datap x = Some i))
    \<and> (\<forall>y \<in> set (q (qn s')). nqi_action y = nq_send \<longrightarrow> (\<exists>a < length (heap s). nqi_buff y = Some a))"
proof -
  have s': "vis_wf s'" using system_ok [OF assms(1-3)] ok_wf by blast
  have "map nbytes (heap s') = map nbytes (heap s)" using wiring_run [OF assms] by (simp add: wiring_def)
  then have "length (heap s') = length (heap s)" by (rule map_eq_imp_length_eq)
  moreover have "length (tis (ti_list s)) = 13" using vis_wf_length ok_wf [OF assms(2)] by blast
  ultimately show ?thesis using s' by (auto simp: vis_wf_defs list_all_iff wqi_ok_def nqi_ok_def)
qed

end

interpretation luna_wired: wired_engine "luna_wf C" "luna_visit E C"
  for C E
  by unfold_locales (rule luna_wiring_kept.luna)

interpretation titan_wired: wired_engine vis_wf "titan_visit E C"
  for C E
  by unfold_locales (rule wiring_kept.titan)

section \<open>Properties\<close>

text \<open>The table is the one of the constructor, over some ten rings.\<close>

lemma vis_wf_wiring:
  assumes "vis_wf s"
  shows "\<exists>h. h + 10 \<le> length (heap s) \<and> map item_wiring (tis (ti_list s)) = map item_wiring (temp_ti_list h)"
proof -
  let ?ts = "tis (ti_list s)"
  obtain h where h: "h + 10 \<le> length (heap s)" "map ti_buffer ?ts = map Some [h..<h + 10] @ replicate 3 None"
    "map adc_info ?ts = map adc_info (temp_ti_list 0)" and act: "map ti_action ?ts = item_actions"
    using assms by (auto simp: vis_wf_def wiring_ok_def til_wf_def)
  have zip: "map item_wiring xs = zip (map ti_action xs) (zip (map adc_info xs) (map ti_buffer xs))" for xs
    by (induction xs) (simp_all add: item_wiring_def)
  have "map ti_action (temp_ti_list h) = item_actions" "map adc_info (temp_ti_list h) = map adc_info (temp_ti_list 0)"
    "map ti_buffer (temp_ti_list h) = map Some [h..<h + 10] @ replicate 3 None"
    by (simp_all add: temp_ti_list_def item_actions_def timed_item_new_def upt_rec numeral_eq_Suc)
  with h act show ?thesis unfolding zip by auto
qed

text \<open>
  C28. The types of the run-time objects are stable. However the two threads of a Luna interleave, in every state
  reached the table of timed items is still the one its constructor built, item by item with its action, its ADC
  channel and its ring; no ring has come, gone or changed its size; and every queued item that points somewhere
  points to an item of that table or to one of those rings.
\<close>

theorem wiring_is_fixed:
  assumes "luna_wf C s" and "timeout (nw s) = 0" and "missing_return E \<noteq> None"
  shows "\<exists>h sizes. h + 10 \<le> length sizes \<and> (\<forall>s'. (sys_step (luna_visit E C) E udp)\<^sup>*\<^sup>* s s' \<longrightarrow>
    wiring s' = (sizes, map item_wiring (temp_ti_list h))
    \<and> (\<forall>x \<in> set (q (qw s')). wqi_action x = wq_timed \<longrightarrow> (\<exists>i < 13. extra_datap x = Some i))
    \<and> (\<forall>y \<in> set (q (qn s')). nqi_action y = nq_send \<longrightarrow> (\<exists>a < length sizes. nqi_buff y = Some a)))"
proof -
  have vw: "vis_wf s" using assms(1) by (simp add: luna_wf_def)
  from vis_wf_wiring [OF this] obtain h where h: "h + 10 \<le> length (heap s)"
    "map item_wiring (tis (ti_list s)) = map item_wiring (temp_ti_list h)" by blast
  have "wiring s' = (map nbytes (heap s), map item_wiring (temp_ti_list h))"
    "\<forall>x \<in> set (q (qw s')). wqi_action x = wq_timed \<longrightarrow> (\<exists>i < 13. extra_datap x = Some i)"
    "\<forall>y \<in> set (q (qn s')). nqi_action y = nq_send \<longrightarrow> (\<exists>a < length (heap s). nqi_buff y = Some a)"
    if run: "(sys_step (luna_visit E C) E udp)\<^sup>*\<^sup>* s s'" for s'
    using luna_wired.wiring_run [OF run assms] luna_wired.queued_references [OF run assms] h(2) vis_wf_length [OF vw]
    by (simp_all add: wiring_def)
  with h(1) show ?thesis by (intro exI [of _ h] exI [of _ "map nbytes (heap s)"]) simp
qed

theorem wiring_is_fixed_witness:
  "\<exists>h sizes s'. sys_step (luna_visit sample_env sample_config) sample_env False sample_luna s'
     \<and> wiring s' = (sizes, map item_wiring (temp_ti_list h)) \<and> sizes = replicate 10 64"
proof -
  have start: "timeout (nw sample_luna) = 0" "missing_return sample_env \<noteq> None"
    by (simp_all add: sample_network_def sample_env_def)
  obtain s' where "worker_step (luna_visit sample_env sample_config) sample_luna = Inr s'"
    by (rule luna.worker_round_ok [OF sample_luna_wf])
  then have step: "sys_step (luna_visit sample_env sample_config) sample_env False sample_luna s'"
    by (rule worker_round)
  let ?run = "(sys_step (luna_visit sample_env sample_config) sample_env False)\<^sup>*\<^sup>* sample_luna"
  have run: "?run sample_luna" "?run s'" using step by auto
  obtain h sizes where w: "\<And>s'. ?run s' \<Longrightarrow> wiring s' = (sizes, map item_wiring (temp_ti_list h))"
    using wiring_is_fixed [OF sample_luna_wf start, of False] by blast
  have "sizes = replicate 10 64" using w [OF run(1)] by (simp add: wiring_def sample_ring_def)
  with w [OF run(2)] step show ?thesis by blast
qed

end
