(* ===== verification/Timing.thy ===== *)
theory Timing
  imports MainProgram Commands
begin

text \<open>
  When the ignition stage fires. A Luna opens its main valve when the item \<open>ign2\<close> of the table is visited, and
  the item is queued when its delay is over; between the two lies the work queue. Here it is shown
  that the valve does not open before the pre-ignition time is over, as long as the client sends only commands the
  engine knows, and that one unknown byte is enough to break this.
\<close>

section \<open>Runs with a well-behaved client\<close>

definition clock :: "env \<Rightarrow> 'a process_scheme \<Rightarrow> timestamp_t" where
  "clock E s = fst (get_time E (base_time s) (trace s))"

text \<open>The commands a Luna does something about; any other byte makes the worker queue a \<open>wq_none\<close> item.\<close>

definition known_command :: "byte \<Rightarrow> bool" where
  "known_command c \<longleftrightarrow> (case code_of c of
     None \<Rightarrow> False
   | Some x \<Rightarrow> x \<in> {unset_valve, set_valve, unset_ignition, set_ignition, ign_normal,
       set_water, unset_water, set_gitvc, unset_gitvc})"

definition order_item :: "work_queue_item \<Rightarrow> bool" where
  "order_item x \<longleftrightarrow> wqi_action x = ign1 \<or> wqi_action x = wq_process \<and> known_command (wqi_data0 x)"

text \<open>
  The interleaving of the two threads, with the time at which the worker last took up an ignition. The clock is not
  set back from one round to the next, and the network thread only ever queues known commands.
\<close>

inductive orderly_run ::
    "env \<Rightarrow> config \<Rightarrow> bool \<Rightarrow> 'a luna_visitor_scheme \<Rightarrow> timestamp_t option \<Rightarrow> 'a luna_visitor_scheme \<Rightarrow> bool"
  for E C udp s0 where
  orderly_start: "orderly_run E C udp s0 None s0"
| orderly_worker: "orderly_run E C udp s0 g t \<Longrightarrow> worker_step (luna_visit E C) t = Inr u \<Longrightarrow> clock E t \<le> clock E u \<Longrightarrow>
    orderly_run E C udp s0 (if wqi_action (fst (poll (qw t))) = ign1 then Some (clock E t) else g) u"
| orderly_network: "orderly_run E C udp s0 g t \<Longrightarrow> network_step E udp junk t = Inr u \<Longrightarrow> clock E t \<le> clock E u \<Longrightarrow>
    (\<forall>x \<in> set (q (qw u)). wqi_action x = wq_process \<longrightarrow> known_command (wqi_data0 x)) \<Longrightarrow>
    orderly_run E C udp s0 g u"

lemma orderly_run_sys: "orderly_run E C udp s0 g s \<Longrightarrow> (sys_step (luna_visit E C) E udp)\<^sup>*\<^sup>* s0 s"
  by (induction rule: orderly_run.induct) (auto intro: rtranclp.rtrancl_into_rtrancl sys_step.intros)

section \<open>The work queue\<close>

text \<open>
  In such a run the items of the table come before the commands, each at most once, and the ignition stage \<open>x\<close>
  only when it is due at \<open>u\<close>.
\<close>

definition orderly_queue :: "timestamp_t \<Rightarrow> timed_item \<Rightarrow> work_queue_item list \<Rightarrow> bool" where
  "orderly_queue u x qs \<longleftrightarrow> (\<exists>is cs. qs = map timed_wqi is @ cs \<and> distinct is \<and> (\<forall>i \<in> set is. i < 13)
     \<and> (10 \<in> set is \<longrightarrow> due u x) \<and> (\<forall>y \<in> set cs. order_item y))"

lemma due_later: "due u x \<Longrightarrow> u \<le> v \<Longrightarrow> due v x"
  by (auto simp: due_def word_less_nat_alt word_le_nat_alt unat_sub)

lemma orderly_queue_later: "orderly_queue u x qs \<Longrightarrow> u \<le> v \<Longrightarrow> orderly_queue v x qs"
  unfolding orderly_queue_def using due_later by blast

lemma orderly_queue_Nil: "orderly_queue u x []"
  unfolding orderly_queue_def by (rule exI [of _ "[]"]) simp

lemma orderly_queue_orders: "(\<forall>y \<in> set cs. order_item y) \<Longrightarrow> orderly_queue u x cs"
  unfolding orderly_queue_def by (rule exI [of _ "[]"]) simp

lemma orderly_queue_append:
  assumes "orderly_queue u x qs" and "\<forall>y \<in> set cs. order_item y"
  shows "orderly_queue u x (qs @ cs)"
proof -
  obtain is' ds where ds: "qs = map timed_wqi is' @ ds" "distinct is'" "\<forall>i \<in> set is'. i < 13"
    "10 \<in> set is' \<longrightarrow> due u x" "\<forall>y \<in> set ds. order_item y"
    using assms(1) unfolding orderly_queue_def by blast
  then show ?thesis
    unfolding orderly_queue_def using assms(2) by (intro exI [of _ is'] exI [of _ "ds @ cs"]) auto
qed

lemma orderly_queue_head:
  assumes "orderly_queue u x (y # qs)"
  obtains (stage) i where "y = timed_wqi i" "i < 13" "i = 10 \<longrightarrow> due u x"
      "\<And>x'. (i \<noteq> 10 \<Longrightarrow> x' = x) \<Longrightarrow> orderly_queue u x' qs"
    | (order) "order_item y" "\<forall>z \<in> set qs. order_item z"
proof -
  obtain is' cs where qs: "y # qs = map timed_wqi is' @ cs" "distinct is'" "\<forall>i \<in> set is'. i < 13"
    "10 \<in> set is' \<longrightarrow> due u x" "\<forall>z \<in> set cs. order_item z"
    using assms unfolding orderly_queue_def by blast
  show thesis
  proof (cases is')
    case Nil
    then show thesis using qs order by (cases cs) auto
  next
    case (Cons i js)
    have "orderly_queue u x' qs" if "i \<noteq> 10 \<Longrightarrow> x' = x" for x'
      unfolding orderly_queue_def using qs Cons that by (intro exI [of _ js] exI [of _ cs]) auto
    with qs Cons show thesis by (intro stage [of i]) auto
  qed
qed

lemma orderly_queue_idle:
  "orderly_queue u (ti_at 10 s) (map timed_wqi (filter (\<lambda>j. due u (ti_at j s)) [0..<13]))"
  unfolding orderly_queue_def
  by (intro exI [of _ "filter (\<lambda>j. due u (ti_at j s)) [0..<13]"] exI [of _ "[]"]) auto

section \<open>The ignition stage\<close>

lemma luna_visitTimed_ign2:
  assumes wf: "luna_wf C s" and i: "extra_datap item = Some i" "i < 13" and out: "luna_visitTimed E C item s = Inr s'"
  shows "i \<noteq> 10 \<Longrightarrow> til_item ign2 (ti_list s') = til_item ign2 (ti_list s)"
    and "i = 10 \<Longrightarrow> \<not> enabled (til_item ign2 (ti_list s'))"
proof -
  have til: "til_wf (ti_list s)" using wf by (simp add: luna_wf_def vis_wf_def)
  obtain u tr where u: "get_time E (base_time s) (trace s) = (u, tr)" by (meson surj_pair)
  note stage = luna_visit_stage [OF wf i(1) _ _ u]
  show "til_item ign2 (ti_list s') = til_item ign2 (ti_list s)" if other: "i \<noteq> 10"
  proof -
    consider "i < 10" | "i = 11" | "i = 12" using i(2) other by linarith
    then show ?thesis
    proof cases
      case 1
      from luna_visit_sensor [OF wf i(1) this out] show ?thesis by blast
    next
      case 2
      with out stage [of ign3] have "s' = projr (luna_ign3 (woken ign3 u tr s))" by simp
      then show ?thesis using til by (simp add: luna_ign3_eq stage_ops stage_items)
    next
      case 3
      with out stage [of gitvc] have "s' = projr (luna_gitvc C (woken gitvc u tr s))" by simp
      then show ?thesis
        using til woken_wf [OF wf, of gitvc 12 u tr] by (auto simp: luna_gitvc_eq stage_ops stage_items)
    qed
  qed
  show "\<not> enabled (til_item ign2 (ti_list s'))" if "i = 10"
  proof -
    have "extra_datap item = Some 10" using i(1) that by simp
    from luna_ign2_visit [OF wf this, of E] out show ?thesis by (auto simp only: sum.inject)
  qed
qed

text \<open>What holds between the rounds of an orderly run in which an ignition was last taken up at \<open>g\<close>.\<close>

definition preignite_inv :: "env \<Rightarrow> config \<Rightarrow> timestamp_t option \<Rightarrow> 'a worker_visitor_scheme \<Rightarrow> bool" where
  "preignite_inv E C g s \<longleftrightarrow> orderly_queue (clock E s) (til_item ign2 (ti_list s)) (q (qw s))
     \<and> (enabled (til_item ign2 (ti_list s)) \<longrightarrow> g = Some (scheduled (til_item ign2 (ti_list s)))
          \<and> time_delay (til_item ign2 (ti_list s)) = word_of_int (preignite_us C))"

text \<open>A command: pins only, or one more ignition item.\<close>

lemma luna_visitProc_known:
  assumes "known_command (wqi_data0 item)" and "luna_visitProc item s = Inr s'"
  shows "ti_list s' = ti_list s \<and> (\<exists>cs. q (qw s') = q (qw s) @ cs \<and> (\<forall>y \<in> set cs. order_item y))"
  using assms
  by (auto simp: luna_visitProc_def worker_visitProc_def process_stmts known_command_def order_item_def enqueue_def
      split: option.splits send_code.splits)

lemma preignite_idle:
  assumes vw: "vis_wf t" and inv: "preignite_inv E C g t" and empty: "q (qw t) = []"
    and out: "worker_step (luna_visit E C) t = Inr u" and later: "clock E t \<le> clock E u"
  shows "preignite_inv E C (if wqi_action (fst (poll (qw t))) = ign1 then Some (clock E t) else g) u"
proof -
  obtain c tr where c: "get_time E (base_time t) (trace t) = (c, tr)" by (meson surj_pair)
  have poll: "poll (qw t) = (null_wqi, qw t)" using empty vw by (simp add: poll_def vis_wf_defs)
  then have "luna_visit E C null_wqi (t\<lparr>qw := qw t\<rparr>) = Inr u" using out by (simp add: worker_step_def)
  then have "ti_list u = ti_list t" "q (qw u) = map timed_wqi (filter (\<lambda>j. due c (ti_at j t)) [0..<13])"
    using check_ti_list_eq [of "t\<lparr>now := c, trace := tr\<rparr>" c] vw empty
    by (auto simp: luna_visit_def visit_def visitNone_def read_clock_def c null_wqi_def ti_at_def vis_wf_defs)
  moreover have "orderly_queue (clock E u) (ti_at 10 t) (map timed_wqi (filter (\<lambda>j. due c (ti_at j t)) [0..<13]))"
    using orderly_queue_later [OF orderly_queue_idle later, of t] c by (simp add: clock_def)
  ultimately show ?thesis
    using inv poll by (simp add: preignite_inv_def til_item_at [of ign2 10] null_wqi_def)
qed

lemma preignite_stage:
  assumes s: "luna_wf C s" and i: "i < 13" and run: "luna_visit E C (timed_wqi i) s = Inr u"
    and rest: "\<And>x. (i \<noteq> 10 \<Longrightarrow> x = til_item ign2 (ti_list s)) \<Longrightarrow> orderly_queue c x (q (qw s))"
    and later: "c \<le> clock E u" and inv: "preignite_inv E C g t" "ti_list t = ti_list s"
  shows "preignite_inv E C g u"
proof -
  have run': "luna_visitTimed E C (timed_wqi i) s = Inr u" using run by (simp add: luna_visit_def visit_def)
  have "extra_datap (timed_wqi i) = Some i" by simp
  note ign2 = luna_visitTimed_ign2 [OF s this i run']
  have "q (qw u) = q (qw s)" using preservesD [OF preserves_qw_luna_visitTimed run'] by simp
  moreover have "orderly_queue c (til_item ign2 (ti_list u)) (q (qw s))"
    using ign2(1) by (intro rest) simp
  then have "orderly_queue (clock E u) (til_item ign2 (ti_list u)) (q (qw s))"
    by (rule orderly_queue_later) (rule later)
  ultimately show ?thesis
    using inv ign2 by (cases "i = 10") (simp_all add: preignite_inv_def)
qed

lemma preignite_order:
  assumes s: "luna_wf C s" and y: "order_item y" and rest: "\<forall>z \<in> set (q (qw s)). order_item z"
    and run: "luna_visit E C y s = Inr u" and inv: "preignite_inv E C g t" "ti_list t = ti_list s"
  shows "preignite_inv E C (if wqi_action y = ign1 then Some (clock E s) else g) u"
proof -
  have vw: "vis_wf s" and til: "til_wf (ti_list s)" using s by (simp_all add: luna_wf_def vis_wf_def)
  obtain c tr where c: "get_time E (base_time s) (trace s) = (c, tr)" by (meson surj_pair)
  consider (ign) "wqi_action y = ign1" | (proc) "wqi_action y = wq_process" "known_command (wqi_data0 y)"
    using y by (auto simp: order_item_def)
  then show ?thesis
  proof cases
    case ign
    then have "worker_visitIgn E C y s = Inr u" using run by (simp add: luna_visit_def visit_def)
    then have u: "u = projr (worker_visitIgn E C y s)" by simp
    have "q (qw u) = q (qw s)" "scheduled (til_item ign2 (ti_list u)) = c"
      "time_delay (til_item ign2 (ti_list u)) = word_of_int (preignite_us C)"
      using u worker_visitIgn_eq [OF vw c] til by (simp_all add: stage_ops stage_items ti_enable_def)
    then show ?thesis
      using ign c orderly_queue_orders [OF rest] by (simp add: preignite_inv_def clock_def)
  next
    case proc
    then have "luna_visitProc y s = Inr u" using run by (simp add: luna_visit_def visit_def)
    from luna_visitProc_known [OF proc(2) this] obtain cs where
      "ti_list u = ti_list t" "q (qw u) = q (qw s) @ cs" "\<forall>z \<in> set cs. order_item z"
      using inv(2) by auto
    then show ?thesis
      using inv(1) proc(1) rest by (auto simp: preignite_inv_def intro!: orderly_queue_orders)
  qed
qed

lemma preignite_worker:
  assumes wf: "luna_wf C t" and inv: "preignite_inv E C g t"
    and out: "worker_step (luna_visit E C) t = Inr u" and later: "clock E t \<le> clock E u"
  shows "preignite_inv E C (if wqi_action (fst (poll (qw t))) = ign1 then Some (clock E t) else g) u"
proof (cases "q (qw t)")
  case Nil
  have "vis_wf t" using wf by (simp add: luna_wf_def)
  then show ?thesis by (rule preignite_idle [OF _ inv Nil out later])
next
  case (Cons y rest)
  define s where "s = t\<lparr>qw := (qw t)\<lparr>q := rest\<rparr>\<rparr>"
  have poll: "fst (poll (qw t)) = y" using Cons by (simp add: poll_def)
  have run: "luna_visit E C y s = Inr u" using out Cons by (simp add: worker_step_def poll_def s_def)
  have "list_all wqi_ok rest" using wf Cons by (simp add: luna_wf_def vis_wf_defs)
  then have s: "luna_wf C s" using luna.ok_queue [OF wf] by (simp add: s_def)
  have same: "ti_list t = ti_list s" "q (qw s) = rest" "clock E s = clock E t" by (simp_all add: s_def clock_def)
  have "orderly_queue (clock E t) (til_item ign2 (ti_list s)) (y # rest)"
    using inv Cons by (simp add: preignite_inv_def s_def)
  then show ?thesis
  proof (cases rule: orderly_queue_head)
    case (stage i)
    from preignite_stage [OF s stage(2) run [unfolded stage(1)] _ later inv same(1)] stage(4)
    show ?thesis using stage(1) poll same(2) by simp
  next
    case order
    then have "preignite_inv E C (if wqi_action y = ign1 then Some (clock E s) else g) u"
      using same(2) by (intro preignite_order [OF s _ _ run inv same(1)]) simp_all
    then show ?thesis by (simp only: poll same(3))
  qed
qed

lemma preignite_network:
  assumes inv: "preignite_inv E C g t" and ok: "net_ok t" and ret: "missing_return E \<noteq> None"
    and out: "network_step E udp junk t = Inr u" and later: "clock E t \<le> clock E u"
    and known: "\<forall>x \<in> set (q (qw u)). wqi_action x = wq_process \<longrightarrow> known_command (wqi_data0 x)"
  shows "preignite_inv E C g u"
proof -
  from network_step_inv [OF net_inv_refl [OF ok] ret, of udp junk] out
  obtain xs where xs: "q (qw u) = q (qw t) @ xs" "list_all (\<lambda>x. wqi_action x = wq_process) xs" and "net_next t u"
    by (auto simp: net_inv_def)
  then have til: "ti_list u = ti_list t" by (auto simp: net_next_def)
  have "\<forall>y \<in> set xs. order_item y" using xs known by (auto simp: order_item_def list_all_iff)
  then have "orderly_queue (clock E t) (til_item ign2 (ti_list t)) (q (qw u))"
    unfolding xs(1) by (rule orderly_queue_append [rotated]) (use inv in \<open>simp add: preignite_inv_def\<close>)
  then show ?thesis using inv orderly_queue_later [OF _ later] by (simp add: preignite_inv_def til)
qed

text \<open>How a run of the two threads begins: nothing queued, no ignition armed.\<close>

definition unarmed :: "config \<Rightarrow> 'a luna_visitor_scheme \<Rightarrow> bool" where
  "unarmed C s \<longleftrightarrow> luna_wf C s \<and> timeout (nw s) = 0 \<and> q (qw s) = [] \<and> \<not> enabled (til_item ign2 (ti_list s))"

lemma main_unarmed:
  assumes "main_program E po j8_24 m junk argv = Inr (Luna_runs C s)" and "config_ok C"
  shows "unarmed C s" and "0 \<le> preignite_us C" and "preignite_us C \<le> 5000000"
  using main_program_cases [OF assms(1)] assms(2) by (simp_all add: luna_start_def unarmed_def)

lemma orderly_run_inv:
  assumes "orderly_run E C udp s0 g s" and "unarmed C s0" and "missing_return E \<noteq> None"
  shows "luna_wf C s \<and> timeout (nw s) = 0 \<and> preignite_inv E C g s"
  using assms(1)
proof (induction rule: orderly_run.induct)
  case orderly_start
  with assms(2) show ?case by (simp add: unarmed_def preignite_inv_def orderly_queue_Nil)
next
  case (orderly_worker g t u)
  then have t: "luna_wf C t" "timeout (nw t) = 0" by simp_all
  obtain v where "worker_step (luna_visit E C) t = Inr v" "luna_wf C v" "nw v = nw t"
    by (rule luna.worker_round_ok [OF t(1)])
  then have "luna_wf C u" "nw u = nw t" using orderly_worker.hyps(2) by simp_all
  with preignite_worker [OF t(1) _ orderly_worker.hyps(2,3)] orderly_worker.IH t(2) show ?case by simp
next
  case (orderly_network g t junk u)
  then have t: "luna_wf C t" "timeout (nw t) = 0" "preignite_inv E C g t" by simp_all
  from luna.network_round_ok [OF t(1,2) orderly_network.hyps(2)]
    preignite_network [OF t(3) luna.ok_net_ok [OF t(1,2)] assms(3) orderly_network.hyps(2-4)]
  show ?case by simp
qed

lemma unat_of_small_int: "0 \<le> k \<Longrightarrow> k < 18446744073709551616 \<Longrightarrow> int (unat (word_of_int k :: timestamp_t)) = k"
  by (simp add: uint_word_of_int)

section \<open>Two commands in one queue\<close>

text \<open>Rounds on a queue that is not empty.\<close>

lemma worker_step_Cons:
  assumes "q (qw s) = x # xs"
  shows "worker_step wqv s = wqv x (s\<lparr>qw := (qw s)\<lparr>q := xs\<rparr>\<rparr>)"
  using assms by (simp add: worker_step_def poll_def)

lemma luna_visit_unknown:
  assumes "wqi_action x = wq_process" and "\<not> known_command (wqi_data0 x)"
  shows "luna_visit E C x s = Inr (s\<lparr>qw := enqueue (x\<lparr>wqi_action := wq_none\<rparr>) (qw s)\<rparr>)"
  using assms
  by (auto simp: luna_visit_def visit_def luna_visitProc_def worker_visitProc_def push_qw_def known_command_def
      split: option.splits send_code.splits)

lemma luna_visit_ignite:
  assumes "wqi_action x = wq_process" and "code_of (wqi_data0 x) = Some ign_normal"
  shows "luna_visit E C x s = Inr (s\<lparr>qw := enqueue (x\<lparr>wqi_action := ign1\<rparr>) (qw s)\<rparr>)"
  using assms by (simp add: luna_visit_def visit_def luna_visitProc_def worker_visitProc_def push_qw_def)

section \<open>Properties\<close>

text \<open>
  C9. The main valve does not open early. However the two threads of a Luna interleave, as long as the client sends
  only known commands and the clock is not set back: in a round that opens the main valve the
  worker either carries out a \<open>set_valve\<close> command, or more than the configured pre-ignition time has passed since
  it last took up an ignition.
\<close>

theorem valve_waits_for_preignition:
  assumes "orderly_run E C udp s0 g s" and "unarmed C s0" and "missing_return E \<noteq> None"
    and "0 \<le> preignite_us C" and "preignite_us C \<le> 5000000"
    and "worker_step (luna_visit E C) s = Inr s'"
    and "pin_level (trace s) MAIN_VALVE \<noteq> Some HIGH" and "pin_level (trace s') MAIN_VALVE = Some HIGH"
  shows "wqi_action (fst (poll (qw s))) = wq_process \<and> code_of (wqi_data0 (fst (poll (qw s)))) = Some set_valve
    \<or> (\<exists>u. g = Some u \<and> int (unat u) + preignite_us C < int (unat (clock E s)))"
proof -
  from orderly_run_inv [OF assms(1-3)] have wf: "luna_wf C s" and inv: "preignite_inv E C g s" by simp_all
  obtain item qw' where p: "poll (qw s) = (item, qw')" by (meson surj_pair)
  have "null_item (qw s) = null_wqi" "list_all wqi_ok (q (qw s))"
    using wf by (simp_all add: luna_wf_def vis_wf_defs)
  with p have ok: "wqi_ok item \<and> (\<exists>xs. qw' = (qw s)\<lparr>q := xs\<rparr> \<and> list_all wqi_ok xs)"
    by (cases rule: poll_cases) (auto simp: wqi_ok_def null_wqi_def intro: exI [of _ "[]"])
  then have wf': "luna_wf C (s\<lparr>qw := qw'\<rparr>)" using luna.ok_queue [OF wf] by auto
  have out: "luna_visit E C item (s\<lparr>qw := qw'\<rparr>) = Inr s'" using assms(6) p by (simp add: worker_step_def)
  have "wqi_action item = wq_process \<and> code_of (wqi_data0 item) = Some set_valve
      \<or> wqi_action item = wq_timed \<and> extra_datap item = Some 10"
    using luna_authority [OF wf' _ out] ok assms(7,8) by simp
  moreover have ?thesis if stage: "wqi_action item = wq_timed" "extra_datap item = Some 10"
  proof -
    obtain rest where "q (qw s) = item # rest"
      using p stage(1) \<open>null_item (qw s) = null_wqi\<close> by (cases rule: poll_cases) (simp_all add: null_wqi_def)
    with inv have "orderly_queue (clock E s) (til_item ign2 (ti_list s)) (item # rest)"
      by (simp add: preignite_inv_def)
    then have "due (clock E s) (til_item ign2 (ti_list s))"
      by (cases rule: orderly_queue_head) (use stage in \<open>auto simp: order_item_def\<close>)
    with inv have "g = Some (scheduled (til_item ign2 (ti_list s)))"
      "unat (scheduled (til_item ign2 (ti_list s))) + unat (word_of_int (preignite_us C) :: timestamp_t) < unat (clock E s)"
      by (auto simp: preignite_inv_def due_iff)
    moreover from this(2) have "int (unat (scheduled (til_item ign2 (ti_list s))))
        + int (unat (word_of_int (preignite_us C) :: timestamp_t)) < int (unat (clock E s))" by linarith
    ultimately show ?thesis
      using unat_of_small_int [of "preignite_us C"] assms(4,5) by (simp only: p) simp
  qed
  ultimately show ?thesis using p by auto
qed

lemma luna_visit_set_valve:
  assumes "wqi_action x = wq_process" and "code_of (wqi_data0 x) = Some set_valve"
  shows "luna_visit E C x s = gpio MAIN_VALVE HIGH s"
  using assms by (simp add: luna_visit_def visit_def luna_visitProc_def worker_visitProc_def)

text \<open>The client sends the byte 5, \<open>set_valve\<close>.\<close>

theorem valve_waits_for_preignition_witness:
  "\<exists>s s'. orderly_run sample_env sample_config False cmd_luna None s
     \<and> worker_step (luna_visit sample_env sample_config) s = Inr s' \<and> pin_level (trace s') MAIN_VALVE = Some HIGH
     \<and> code_of (wqi_data0 (fst (poll (qw s)))) = Some set_valve"
proof -
  obtain s where s: "network_step sample_env False null_wqi cmd_luna = Inr s"
    "q (qw s) = [null_wqi\<lparr>wqi_action := wq_process, wqi_data0 := 5\<rparr>]" using cmd_luna_receives by blast
  have five: "code_of 5 = Some set_valve" by (simp add: code_of_iff)
  have ret: "missing_return sample_env \<noteq> None" by (simp add: sample_env_def)
  have start: "unarmed sample_config cmd_luna"
    using cmd_luna_wf by (simp add: unarmed_def cmd_luna_def sample_network_def safe_queue_new_def sample_til_def
        til_item_def temp_ti_list_def timed_item_new_def)
  have "clock sample_env cmd_luna = 0"
    by (simp add: clock_def get_time_value usecs_def sample_env_def cmd_luna_def)
  then have run: "orderly_run sample_env sample_config False cmd_luna None s"
    using s five by (intro orderly_network [OF orderly_start s(1)]) (simp_all add: known_command_def)
  have "net_ok cmd_luna" using luna.ok_net_ok [OF cmd_luna_wf] start by (simp add: unarmed_def)
  from network_step_inv [OF net_inv_refl [OF this] ret, of False null_wqi] s(1)
  have "pin_level (trace s) MAIN_VALVE = pin_level (trace cmd_luna) MAIN_VALVE" by (simp add: net_inv_pin_level)
  then have closed: "pin_level (trace s) MAIN_VALVE \<noteq> Some HIGH" by (simp add: cmd_luna_def)
  obtain s' where out: "worker_step (luna_visit sample_env sample_config) s = Inr s'"
    "pin_level (trace s') MAIN_VALVE = Some HIGH"
    using s(2) five by (simp add: worker_step_Cons luna_visit_set_valve gpio_def)
  from valve_waits_for_preignition [OF run start ret _ _ out(1) closed out(2)] run out
  show ?thesis by (auto simp: sample_config_def)
qed

text \<open>
  C21. An unknown byte can skip the pre-ignition time. When an ignition is armed and due and the client sends an unknown
  byte followed by a second ignition command, the worker takes the second ignition up, which starts
  the pre-ignition anew, and opens the main valve in the very next round, whatever the clock says: the unknown
  byte made it look through the table, and queue the stage, while the command was still waiting.
\<close>

theorem unknown_command_skips_preignition:
  assumes "luna_wf C s" and "q (qw s) = [x, y]"
    and "wqi_action x = wq_process" and "\<not> known_command (wqi_data0 x)"
    and "wqi_action y = wq_process" and "code_of (wqi_data0 y) = Some ign_normal"
    and "filter (\<lambda>j. due (clock E s) (ti_at j s)) [0..<13] = [10]"
  shows "\<exists>s1 s2 s3. worker_method (luna_visit E C) 3 s = Inr s1
    \<and> worker_step (luna_visit E C) s1 = Inr s2 \<and> scheduled (til_item ign2 (ti_list s2)) = clock E s1
    \<and> worker_step (luna_visit E C) s2 = Inr s3 \<and> pin_level (trace s3) MAIN_VALVE = Some HIGH \<and> burn_on s3"
proof -
  obtain c tr where c: "get_time E (base_time s) (trace s) = (c, tr)" by (meson surj_pair)
  have vw: "vis_wf s" using assms(1) by (simp add: luna_wf_def)
  define s0 where "s0 = s\<lparr>qw := (qw s)\<lparr>q := [x\<lparr>wqi_action := wq_none\<rparr>, y\<lparr>wqi_action := ign1\<rparr>]\<rparr>\<rparr>"
  have two: "worker_method (luna_visit E C) 2 s = Inr s0"
    using assms(2-6)
    by (simp add: numeral_2_eq_2 worker_step_Cons luna_visit_unknown luna_visit_ignite enqueue_def s0_def)
  define s1 where "s1 = s\<lparr>now := c, trace := tr, qw := (qw s)\<lparr>q := [y\<lparr>wqi_action := ign1\<rparr>, timed_wqi 10]\<rparr>\<rparr>"
  have "vis_wf (s\<lparr>qw := (qw s)\<lparr>q := [y\<lparr>wqi_action := ign1\<rparr>]\<rparr>, now := c, trace := tr\<rparr>)"
    using vw by (simp add: vis_wf_defs wqi_ok_def)
  from check_ti_list_eq [OF this, of c] have step: "worker_step (luna_visit E C) s0 = Inr s1"
    using assms(7) c
    by (simp add: worker_step_Cons s0_def luna_visit_def visit_def visitNone_def read_clock_def clock_def ti_at_def s1_def)
  have three: "worker_method (luna_visit E C) (2 + Suc 0) s = Inr s1"
    unfolding worker_method_add using two step by simp
  have wf1: "luna_wf C s1" using luna.run_law [OF assms(1), of E "2 + Suc 0"] three by auto
  obtain d tr1 where d: "get_time E (base_time s1) (trace s1) = (d, tr1)" by (meson surj_pair)
  define t where "t = s1\<lparr>qw := (qw s1)\<lparr>q := [timed_wqi 10]\<rparr>\<rparr>"
  have wf: "luna_wf C t" using luna.ok_queue [OF wf1, of "[timed_wqi 10]"] by (simp add: t_def wqi_ok_def)
  then have vw: "vis_wf t" and til: "til_wf (ti_list t)" by (simp_all add: luna_wf_def vis_wf_def)
  obtain s2 where s2: "worker_visitIgn E C (y\<lparr>wqi_action := ign1\<rparr>) t = Inr s2"
    "scheduled (til_item ign2 (ti_list s2)) = d" "q (qw s2) = [timed_wqi 10]"
    using worker_visitIgn_eq [OF vw, of E d tr1] d til
    by (simp add: stage_ops stage_items ti_enable_def t_def)
  have step2: "worker_step (luna_visit E C) s1 = Inr s2"
    using s2(1) by (simp add: worker_step_Cons s1_def luna_visit_def visit_def t_def)
  then have wf2: "luna_wf C s2" using luna.run_law [OF wf1, of E 1] by auto
  obtain t2 s3 where t2: "luna_wf C t2" "worker_step (luna_visit E C) s2 = luna_visitTimed E C (timed_wqi 10) t2"
    "luna_visitTimed E C (timed_wqi 10) t2 = Inr s3"
    by (rule luna_rounds.round_timed [OF wf2 s2(3), of E]) simp
  have "worker_step (luna_visit E C) s2 = Inr s3" "pin_level (trace s3) MAIN_VALVE = Some HIGH" "burn_on s3"
    using t2 luna_ign2_visit [OF t2(1), of "timed_wqi 10" E] by auto
  with three step2 s2(2) d show ?thesis by (auto simp: clock_def numeral_3_eq_3)
qed

text \<open>Five microseconds after the start, with an ignition that has been due for three.\<close>

definition early_env :: env where
  "early_env = sample_env\<lparr>env_time := \<lambda>tr. \<lparr>tv_sec = 0, tv_usec = 5\<rparr>\<rparr>"

definition command_wqi :: "byte \<Rightarrow> work_queue_item" where
  "command_wqi c = null_wqi\<lparr>wqi_action := wq_process, wqi_data0 := c\<rparr>"

definition early_luna :: luna_visitor where
  "early_luna = sample_luna\<lparr>qw := (qw sample_luna)\<lparr>q := [command_wqi 99, command_wqi 8]\<rparr>,
     ti_list := til_upd ign2 (\<lambda>x. x\<lparr>enabled := True, time_delay := 2\<rparr>) sample_til\<rparr>"

lemma early_luna_wf: "luna_wf sample_config early_luna"
proof -
  have "vis_wf (sample_luna\<lparr>ti_list := (ti_list sample_luna)\<lparr>tis := (tis (ti_list sample_luna))
      [10 := (\<lambda>x. x\<lparr>enabled := True, time_delay := 2\<rparr>) (tis (ti_list sample_luna) ! 10)]\<rparr>\<rparr>)"
    using sample_luna_wf by (intro vis_wf_update_item) (simp_all add: luna_wf_def harmless_def)
  then show ?thesis
    using sample_luna_wf
    by (simp add: early_luna_def luna_wf_def vis_wf_defs til_upd_def til_item_def wqi_ok_def command_wqi_def)
qed

theorem unknown_command_skips_preignition_witness:
  "\<exists>s1 s2 s3. worker_method (luna_visit early_env sample_config) 3 early_luna = Inr s1
    \<and> worker_step (luna_visit early_env sample_config) s1 = Inr s2
    \<and> scheduled (til_item ign2 (ti_list s2)) = clock early_env s1
    \<and> worker_step (luna_visit early_env sample_config) s2 = Inr s3 \<and> pin_level (trace s3) MAIN_VALVE = Some HIGH"
proof -
  have "code_of 99 = None" by (simp add: code_of_def all_send_codes_def)
  moreover have "code_of 8 = Some ign_normal" by (simp add: code_of_iff)
  moreover have "clock early_env early_luna = 5"
    by (simp add: clock_def get_time_value usecs_def early_env_def early_luna_def)
  then have "filter (\<lambda>j. due (clock early_env early_luna) (ti_at j early_luna)) [0..<13] = [10]"
    by (simp add: upt_rec due_def ti_at_def early_luna_def til_upd_def til_item_def sample_til_def temp_ti_list_def
        timed_item_new_def LC_MAIN_T_def LC1_T_def PT_FEED_T_def TC1_T_def)
  ultimately show ?thesis
    using unknown_command_skips_preignition [OF early_luna_wf, of "command_wqi 99" "command_wqi 8" early_env]
    by (simp add: early_luna_def command_wqi_def known_command_def) blast
qed

end
