(* ===== verification/Backlog.thy ===== *)
theory Backlog
  imports Timing
begin

text \<open>
  What a full work queue does to the timed items. The worker works its queue off before it looks at its table
  again, so the queue runs empty after a bounded number of rounds, and until then nothing that is due is done: the commands
  of a client come before the sensors, the pressure shutoff and the end of a burn.
\<close>

section \<open>Commands that only drive pins\<close>

definition pin_command :: "byte \<Rightarrow> bool" where
  "pin_command c \<longleftrightarrow> (case code_of c of
     None \<Rightarrow> False
   | Some x \<Rightarrow> x \<in> {unset_valve, set_valve, unset_ignition, set_ignition, set_water, unset_water, set_gitvc, unset_gitvc})"

definition burn_command :: "byte \<Rightarrow> bool" where
  "burn_command c \<longleftrightarrow> (case code_of c of
     None \<Rightarrow> False | Some x \<Rightarrow> x \<in> {unset_valve, set_valve, unset_ignition, set_ignition})"

text \<open>An item with such a command, as the network thread queues it.\<close>

definition pin_item :: "work_queue_item \<Rightarrow> bool" where
  "pin_item x \<longleftrightarrow> wqi_action x = wq_process \<and> pin_command (wqi_data0 x)"

lemma luna_visit_pin_command:
  assumes "pin_item x"
  obtains tr where "luna_visit E C x s = Inr (s\<lparr>trace := tr\<rparr>)"
    and "\<not> burn_command (wqi_data0 x) \<Longrightarrow> pin_level tr MAIN_VALVE = pin_level (trace s) MAIN_VALVE
      \<and> pin_level tr IGN_START = pin_level (trace s) IGN_START"
proof -
  have "\<exists>tr. luna_visit E C x s = Inr (s\<lparr>trace := tr\<rparr>)
      \<and> (\<not> burn_command (wqi_data0 x) \<longrightarrow> pin_level tr MAIN_VALVE = pin_level (trace s) MAIN_VALVE
          \<and> pin_level tr IGN_START = pin_level (trace s) IGN_START)"
    using assms
    by (auto simp: luna_visit_def visit_def pin_item_def luna_visitProc_def worker_visitProc_def gpio_def
        pin_command_def burn_command_def pin_defs split: option.splits)
  with that show thesis by blast
qed

lemma pin_commands_run:
  assumes "q (qw s) = xs @ rest" and "\<forall>x \<in> set xs. pin_item x"
  shows "\<exists>tr. worker_method (luna_visit E C) (length xs) s = Inr (s\<lparr>qw := (qw s)\<lparr>q := rest\<rparr>, trace := tr\<rparr>)
    \<and> ((\<forall>x \<in> set xs. \<not> burn_command (wqi_data0 x)) \<longrightarrow> pin_level tr MAIN_VALVE = pin_level (trace s) MAIN_VALVE
        \<and> pin_level tr IGN_START = pin_level (trace s) IGN_START)"
  using assms
proof (induction xs arbitrary: s)
  case Nil
  have "s = s\<lparr>qw := (qw s)\<lparr>q := rest\<rparr>, trace := trace s\<rparr>" using Nil.prems(1) by simp
  then show ?case by (intro exI [of _ "trace s"]) simp
next
  case (Cons x xs)
  define t where "t = s\<lparr>qw := (qw s)\<lparr>q := xs @ rest\<rparr>\<rparr>"
  obtain tr where tr: "luna_visit E C x t = Inr (t\<lparr>trace := tr\<rparr>)"
    "\<not> burn_command (wqi_data0 x) \<Longrightarrow> pin_level tr MAIN_VALVE = pin_level (trace t) MAIN_VALVE
      \<and> pin_level tr IGN_START = pin_level (trace t) IGN_START"
    by (rule luna_visit_pin_command [of x E C t]) (use Cons.prems in auto)
  then have step: "worker_step (luna_visit E C) s = Inr (t\<lparr>trace := tr\<rparr>)"
    using Cons.prems(1) by (simp add: worker_step_Cons t_def)
  have "q (qw (t\<lparr>trace := tr\<rparr>)) = xs @ rest" by (simp add: t_def)
  with Cons.IH Cons.prems(2) obtain tr' where
    run: "worker_method (luna_visit E C) (length xs) (t\<lparr>trace := tr\<rparr>)
      = Inr ((t\<lparr>trace := tr\<rparr>)\<lparr>qw := (qw t)\<lparr>q := rest\<rparr>, trace := tr'\<rparr>)"
    and kept: "(\<forall>x \<in> set xs. \<not> burn_command (wqi_data0 x)) \<longrightarrow> pin_level tr' MAIN_VALVE = pin_level tr MAIN_VALVE
        \<and> pin_level tr' IGN_START = pin_level tr IGN_START"
    by fastforce
  have "worker_method (luna_visit E C) (length (x # xs)) s = Inr (s\<lparr>qw := (qw s)\<lparr>q := rest\<rparr>, trace := tr'\<rparr>)"
    using step run by (simp add: t_def)
  moreover have "trace t = trace s" by (simp add: t_def)
  ultimately show ?case using kept tr(2) by (intro exI [of _ tr']) simp
qed

section \<open>Properties\<close>

text \<open>
  C10. The work queue runs empty. From any state of either engine, whatever is queued and whatever the environment answers,
  the worker has worked off its queue, with all that the visits add to it, after at most 15 rounds per item, unless
  the network thread adds to it meanwhile; so an idle round, that looks through the table, is never far away.
\<close>

theorem queue_runs_empty:
  assumes "luna_wf C s" and "vis_wf t"
  shows "(\<exists>n s'. n \<le> 15 * length (q (qw s)) \<and> worker_method (luna_visit E C) n s = Inr s' \<and> luna_wf C s' \<and> q (qw s') = [])
    \<and> (\<exists>n t'. n \<le> 15 * length (q (qw t)) \<and> worker_method (titan_visit E C) n t = Inr t' \<and> vis_wf t' \<and> q (qw t') = [])"
  using luna_rounds.queue_drained [OF assms(1), of E] titan_rounds.queue_drained [OF assms(2), of E C]
    queue_work_le order.trans by meson

theorem queue_runs_empty_witness:
  "\<exists>n s'. n \<le> 30 \<and> worker_method (luna_visit early_env sample_config) n early_luna = Inr s' \<and> q (qw s') = []"
  using queue_runs_empty [OF early_luna_wf sample_visitor_wf, of early_env] by (auto simp: early_luna_def)


text \<open>A burn whose end is due, and a client that switches the water on and off.\<close>

definition busy_luna :: luna_visitor where
  "busy_luna = sample_luna\<lparr>qw := (qw sample_luna)\<lparr>q := map command_wqi (concat (replicate 500 [19, 20]))\<rparr>,
     burn_on := True, trace := gpio_write MAIN_VALVE HIGH [Bcm_init True],
     ti_list := til_upd ign3 (\<lambda>x. x\<lparr>enabled := True, scheduled := 100, time_delay := 3000\<rparr>) sample_til\<rparr>"

definition late_env :: env where
  "late_env = sample_env\<lparr>env_time := \<lambda>tr. \<lparr>tv_sec = 1, tv_usec = 0\<rparr>\<rparr>"

lemma busy_luna_wf: "luna_wf sample_config busy_luna"
proof -
  have "vis_wf (sample_luna\<lparr>ti_list := (ti_list sample_luna)\<lparr>tis := (tis (ti_list sample_luna))
      [11 := (\<lambda>x. x\<lparr>enabled := True, scheduled := 100, time_delay := 3000\<rparr>) (tis (ti_list sample_luna) ! 11)]\<rparr>\<rparr>)"
    using sample_luna_wf by (intro vis_wf_update_item) (simp_all add: luna_wf_def harmless_def)
  then show ?thesis
    using sample_luna_wf
    by (simp add: busy_luna_def luna_wf_def vis_wf_defs til_upd_def til_item_def wqi_ok_def command_wqi_def list_all_iff)
qed


end
