(* ===== verification/BurnMachine.thy ===== *)
theory BurnMachine
  imports MainProgram Commands
begin

text \<open>
  What a burn is, without queues, threads, tables and rings: a machine with four outputs and three times, moved by the
  client and by its own stages, one for each engine. The two differ in what the events do to the outputs and agree on
  the times, as the contract \<open>burn_account\<close> says. That the programs refine them is shown in \<open>BurnRefinement\<close>.
\<close>

section \<open>Machines and events\<close>

text \<open>
  The outputs, with \<open>m_gitvc\<close> open when its pin is low; since when a burn is on; since when the start and the end of one
  are armed. On Titan the pins of \<open>m_water\<close> and \<open>m_gitvc\<close> drive the vent, open when low, and the tank.
\<close>

record burn_machine =
  m_main :: bool
  m_igniter :: bool
  m_water :: bool
  m_gitvc :: bool
  m_burn :: "timestamp_t option"
  m_opening :: "timestamp_t option"
  m_closing :: "timestamp_t option"

datatype burn_event =
    Manual send_code
  | Ignite timestamp_t
  | Start_burn timestamp_t
  | End_burn
  | Shut_off rat timestamp_t
  | Pulse bool

definition burn_off :: burn_machine where
  "burn_off = \<lparr>m_main = False, m_igniter = False, m_water = False, m_gitvc = False,
     m_burn = None, m_opening = None, m_closing = None\<rparr>"

text \<open>An event that is not enabled gives \<open>None\<close>.\<close>

fun run_events :: "('e \<Rightarrow> 'm \<Rightarrow> 'm option) \<Rightarrow> 'e list \<Rightarrow> 'm \<Rightarrow> 'm option" where
  "run_events does [] m = Some m"
| "run_events does (e # es) m = Option.bind (does e m) (run_events does es)"

lemma run_events_append: "run_events does (es @ fs) m = Option.bind (run_events does es m) (run_events does fs)"
  by (induction es arbitrary: m) (simp_all split: Option.bind_split)

text \<open>An invariant is shown event by event.\<close>

lemma run_events_inv:
  assumes "run_events does es m = Some m'" and "P m"
    and "\<And>e m m'. e \<in> set es \<Longrightarrow> P m \<Longrightarrow> does e m = Some m' \<Longrightarrow> P m'"
  shows "P m'"
  using assms
proof (induction es arbitrary: m)
  case (Cons e es)
  obtain m1 where "does e m = Some m1" "run_events does es m1 = Some m'"
    using Cons.prems(1) by (auto simp: Option.bind_eq_Some_conv)
  with Cons.IH [of m1] Cons.prems(2,3) show ?case by (metis list.set_intros(1,2))
qed simp

section \<open>The events of a run\<close>

text \<open>The commands and the ignitions among them, and whether there is a start of a burn.\<close>

fun manuals :: "burn_event list \<Rightarrow> send_code list" where
  "manuals [] = []"
| "manuals (Manual c # es) = c # manuals es"
| "manuals (_ # es) = manuals es"

fun ignitions :: "burn_event list \<Rightarrow> nat" where
  "ignitions [] = 0"
| "ignitions (Ignite u # es) = Suc (ignitions es)"
| "ignitions (_ # es) = ignitions es"

definition starts :: "burn_event list \<Rightarrow> bool" where
  "starts es \<longleftrightarrow> list_ex (\<lambda>e. case e of Start_burn u \<Rightarrow> True | _ \<Rightarrow> False) es"

definition asked :: "send_code list \<Rightarrow> nat" where
  "asked cs = length (filter (\<lambda>c. c = ign_normal) cs)"

lemma events_simps [simp]:
  "manuals (es @ fs) = manuals es @ manuals fs" "ignitions (es @ fs) = ignitions es + ignitions fs"
  "\<not> starts []" "starts (e # es) \<longleftrightarrow> (case e of Start_burn u \<Rightarrow> True | _ \<Rightarrow> starts es)"
  "starts (es @ fs) \<longleftrightarrow> starts es \<or> starts fs"
  "asked [] = 0" "asked (c # cs) = (if c = ign_normal then Suc (asked cs) else asked cs)"
  "asked (cs @ ds) = asked cs + asked ds"
proof -
  show "manuals (es @ fs) = manuals es @ manuals fs"
    by (induction es rule: manuals.induct) simp_all
  show "ignitions (es @ fs) = ignitions es + ignitions fs"
    by (induction es rule: ignitions.induct) simp_all
  show "starts (e # es) \<longleftrightarrow> (case e of Start_burn u \<Rightarrow> True | _ \<Rightarrow> starts es)"
    by (simp add: starts_def split: burn_event.split)
qed (simp_all add: asked_def starts_def)

lemma manuals_iff: "c \<in> set (manuals es) \<longleftrightarrow> Manual c \<in> set es"
  by (induction es rule: manuals.induct) auto

lemma ignitions_iff: "ignitions es = 0 \<longleftrightarrow> (\<forall>u. Ignite u \<notin> set es)"
  by (induction es rule: ignitions.induct) auto

lemma starts_iff: "starts es \<longleftrightarrow> (\<exists>u. Start_burn u \<in> set es)"
proof (induction es)
  case (Cons e es)
  then show ?case by (cases e) auto
qed simp

lemma asked_iff: "asked cs = 0 \<longleftrightarrow> ign_normal \<notin> set cs"
  by (auto simp: asked_def filter_empty_conv)

section \<open>The times\<close>

text \<open>What the events do to the three times: burn, armed start, armed end.\<close>

type_synonym burn_times = "timestamp_t option \<times> timestamp_t option \<times> timestamp_t option"

fun times_do :: "burn_event \<Rightarrow> burn_times \<Rightarrow> burn_times" where
  "times_do (Ignite u) (b, s, e) = (b, Some u, e)"
| "times_do (Start_burn u) (b, s, e) = (Some u, None, Some u)"
| "times_do End_burn (b, s, e) = (None, s, None)"
| "times_do (Shut_off p u) (b, s, e) = (None, s, e)"
| "times_do (Manual c) (b, s, e) = (b, s, e)"
| "times_do (Pulse on) (b, s, e) = (b, s, e)"

definition times :: "burn_machine \<Rightarrow> burn_times" where
  "times m = (m_burn m, m_opening m, m_closing m)"

locale burn_account =
  fixes does :: "burn_event \<Rightarrow> burn_machine \<Rightarrow> burn_machine option"
  assumes times_law: "does e m = Some m' \<Longrightarrow> times m' = times_do e (times m)"
    and igniter_law: "does e m = Some m' \<Longrightarrow> m_igniter m' \<Longrightarrow> e \<noteq> Manual set_ignition \<Longrightarrow>
      (\<exists>u. e = Ignite u) \<or> m_igniter m \<and> e \<noteq> End_burn \<and> (\<forall>p u. e \<noteq> Shut_off p u)"
begin

lemma times_inv:
  assumes "run_events does es m = Some m'" and "P (times m)"
    and "\<And>e t. e \<in> set es \<Longrightarrow> P t \<Longrightarrow> P (times_do e t)"
  shows "P (times m')"
  by (rule run_events_inv [OF assms(1)]) (use assms(2,3) times_law in auto)

text \<open>A burn that is on has its end armed from its start.\<close>

lemma burn_closes:
  assumes "run_events does es burn_off = Some m" and "m_burn m = Some u"
  shows "m_closing m = Some u"
proof -
  have "case times m of (b, s, e) \<Rightarrow> b \<noteq> None \<longrightarrow> e = b"
  proof (rule times_inv [OF assms(1)])
    fix x and t :: burn_times assume "case t of (b, s, e) \<Rightarrow> b \<noteq> None \<longrightarrow> e = b"
    then show "case times_do x t of (b, s, e) \<Rightarrow> b \<noteq> None \<longrightarrow> e = b"
      by (cases t; cases x) auto
  qed (simp add: burn_off_def times_def)
  with assms(2) show ?thesis by (simp add: times_def)
qed

text \<open>Without an ignition no start is armed; without a start there is no burn, and a burn that is on stays the same one.\<close>

lemma no_ignition_unarmed:
  assumes "run_events does es burn_off = Some m" and "ignitions es = 0"
  shows "m_opening m = None"
proof -
  have "fst (snd (times m)) = None"
  proof (rule times_inv [OF assms(1)])
    fix x and t :: burn_times assume x: "x \<in> set es" "fst (snd t) = None"
    have "\<forall>u. x \<noteq> Ignite u" using x(1) assms(2) by (auto simp: ignitions_iff)
    with x(2) show "fst (snd (times_do x t)) = None" by (cases t; cases x) auto
  qed (simp add: burn_off_def times_def)
  then show ?thesis by (simp add: times_def)
qed

lemma same_burn:
  assumes "run_events does es m = Some m'" and "\<not> starts es" and "m_burn m' = Some u"
  shows "m_burn m = Some u"
proof -
  have "fst (times m') = None \<or> fst (times m') = m_burn m"
  proof (rule times_inv [OF assms(1)])
    fix x and t :: burn_times assume x: "x \<in> set es" "fst t = None \<or> fst t = m_burn m"
    have "\<forall>u. x \<noteq> Start_burn u" using x(1) assms(2) by (auto simp: starts_iff)
    with x(2) show "fst (times_do x t) = None \<or> fst (times_do x t) = m_burn m" by (cases t; cases x) auto
  qed (simp add: times_def)
  with assms(3) show ?thesis by (simp add: times_def)
qed

lemma no_start_no_burn:
  assumes "run_events does es burn_off = Some m" and "\<not> starts es"
  shows "m_burn m = None"
proof (rule ccontr)
  assume "m_burn m \<noteq> None"
  then obtain u where "m_burn m = Some u" by blast
  with same_burn [OF assms] show False by (simp add: burn_off_def)
qed

text \<open>Unless the client turns it on, the igniter is on only while a burn is on or about to start.\<close>

lemma igniter_only_in_burn:
  assumes "run_events does es burn_off = Some m" and "Manual set_ignition \<notin> set es"
  shows "m_igniter m \<longrightarrow> m_burn m \<noteq> None \<or> m_opening m \<noteq> None"
proof (rule run_events_inv [OF assms(1)])
  fix x k k' assume x: "x \<in> set es" "m_igniter k \<longrightarrow> m_burn k \<noteq> None \<or> m_opening k \<noteq> None" "does x k = Some k'"
  then have "x \<noteq> Manual set_ignition" using assms(2) by blast
  with igniter_law [OF x(3)] times_law [OF x(3)] x(2) show "m_igniter k' \<longrightarrow> m_burn k' \<noteq> None \<or> m_opening k' \<noteq> None"
    by (cases x) (auto simp: times_def)
qed (simp add: burn_off_def)

end

section \<open>Luna\<close>

text \<open>A command of the client; \<open>ign_normal\<close> only asks for an ignition, which comes as an event of its own.\<close>

definition luna_manual :: "send_code \<Rightarrow> burn_machine \<Rightarrow> burn_machine" where
  "luna_manual c m =
     (case c of
        set_valve \<Rightarrow> m\<lparr>m_main := True\<rparr>
      | unset_valve \<Rightarrow> m\<lparr>m_main := False\<rparr>
      | set_ignition \<Rightarrow> m\<lparr>m_igniter := True\<rparr>
      | unset_ignition \<Rightarrow> m\<lparr>m_main := False, m_igniter := False\<rparr>
      | set_water \<Rightarrow> m\<lparr>m_water := True\<rparr>
      | unset_water \<Rightarrow> m\<lparr>m_water := False\<rparr>
      | set_gitvc \<Rightarrow> m\<lparr>m_gitvc := True\<rparr>
      | unset_gitvc \<Rightarrow> m\<lparr>m_gitvc := False\<rparr>
      | _ \<Rightarrow> m)"

fun luna_do :: "config \<Rightarrow> burn_event \<Rightarrow> burn_machine \<Rightarrow> burn_machine option" where
  "luna_do C (Manual c) m = Some (luna_manual c m)"
| "luna_do C (Ignite u) m = Some (m\<lparr>m_igniter := m_igniter m \<or> ignition_on C, m_opening := Some u\<rparr>)"
| "luna_do C (Start_burn u) m = Some (m\<lparr>m_main := True, m_burn := Some u, m_opening := None, m_closing := Some u\<rparr>)"
| "luna_do C End_burn m =
     Some (m\<lparr>m_main := False, m_igniter := False, m_water := False, m_gitvc := False, m_burn := None, m_closing := None\<rparr>)"
| "luna_do C (Shut_off p u) m =
     (case m_burn m of
        None \<Rightarrow> None
      | Some since \<Rightarrow>
          if shutoff_due C p since u
          then Some (m\<lparr>m_main := False, m_igniter := False, m_gitvc := False, m_burn := None\<rparr>) else None)"
| "luna_do C (Pulse b) m = (if b \<and> (m_burn m = None \<or> gitvc_times C = []) then None else Some (m\<lparr>m_gitvc := b\<rparr>))"

interpretation luna_account: burn_account "luna_do C"
  for C
proof
  fix e m m'
  assume "luna_do C e m = Some m'"
  then show "times m' = times_do e (times m)"
    by (cases e) (auto simp: luna_manual_def times_def split: send_code.splits if_splits option.splits)
next
  fix e m m'
  assume "luna_do C e m = Some m'" "m_igniter m'" "e \<noteq> Manual set_ignition"
  then show "(\<exists>u. e = Ignite u) \<or> m_igniter m \<and> e \<noteq> End_burn \<and> (\<forall>p u. e \<noteq> Shut_off p u)"
    by (cases e) (auto simp: luna_manual_def split: send_code.splits if_splits option.splits)
qed

text \<open>Unless the client opens it, the main valve is open in a burn only.\<close>

lemma luna_main_only_in_burn:
  assumes "run_events (luna_do C) es burn_off = Some m" and "Manual set_valve \<notin> set es"
  shows "m_main m \<longrightarrow> m_burn m \<noteq> None"
proof (rule run_events_inv [OF assms(1)])
  fix e m m' assume e: "e \<in> set es" "m_main m \<longrightarrow> m_burn m \<noteq> None" "luna_do C e m = Some m'"
  have "e \<noteq> Manual set_valve" using e(1) assms(2) by blast
  then show "m_main m' \<longrightarrow> m_burn m' \<noteq> None"
    using e(2,3) by (cases e) (auto simp: luna_manual_def split: send_code.splits if_splits option.splits)
qed (simp add: burn_off_def)

section \<open>Titan\<close>

text \<open>Its presets, with the vent open when \<open>m_water\<close> is off; it has no GITVC commands and no pulses.\<close>

definition titan_manual :: "send_code \<Rightarrow> burn_machine \<Rightarrow> burn_machine" where
  "titan_manual c m =
     (case c of
        set_valve \<Rightarrow> m\<lparr>m_main := True\<rparr>
      | unset_valve \<Rightarrow> m\<lparr>m_main := False\<rparr>
      | set_ignition \<Rightarrow> m\<lparr>m_igniter := True\<rparr>
      | unset_ignition \<Rightarrow> m\<lparr>m_main := False, m_igniter := False\<rparr>
      | set_water \<Rightarrow> m\<lparr>m_water := False\<rparr>
      | unset_water \<Rightarrow> m\<lparr>m_water := True\<rparr>
      | leak_check \<Rightarrow> m\<lparr>m_main := True, m_water := True, m_gitvc := False\<rparr>
      | fill \<Rightarrow> m\<lparr>m_main := True, m_water := True, m_gitvc := True\<rparr>
      | fill_idle \<Rightarrow> m\<lparr>m_main := False, m_water := True, m_gitvc := False\<rparr>
      | def_code \<Rightarrow> m\<lparr>m_main := False, m_water := False, m_gitvc := False\<rparr>
      | _ \<Rightarrow> m)"

text \<open>Its burn closes the main valve and the tank and opens the vent, and its end only turns the igniter off.\<close>

fun titan_do :: "config \<Rightarrow> burn_event \<Rightarrow> burn_machine \<Rightarrow> burn_machine option" where
  "titan_do C (Manual c) m = Some (titan_manual c m)"
| "titan_do C (Start_burn u) m = Some (m\<lparr>m_main := False, m_water := False, m_gitvc := False,
     m_burn := Some u, m_opening := None, m_closing := Some u\<rparr>)"
| "titan_do C End_burn m = Some (m\<lparr>m_igniter := False, m_burn := None, m_closing := None\<rparr>)"
| "titan_do C (Ignite u) m = luna_do C (Ignite u) m"
| "titan_do C (Shut_off p u) m = luna_do C (Shut_off p u) m"
| "titan_do C (Pulse b) m = None"

interpretation titan_account: burn_account "titan_do C"
  for C
proof
  fix e m m'
  assume "titan_do C e m = Some m'"
  then show "times m' = times_do e (times m)"
    by (cases e) (auto simp: titan_manual_def times_def split: send_code.splits if_splits option.splits)
next
  fix e m m'
  assume "titan_do C e m = Some m'" "m_igniter m'" "e \<noteq> Manual set_ignition"
  then show "(\<exists>u. e = Ignite u) \<or> m_igniter m \<and> e \<noteq> End_burn \<and> (\<forall>p u. e \<noteq> Shut_off p u)"
    by (cases e) (auto simp: titan_manual_def split: send_code.splits if_splits option.splits)
qed

text \<open>The main valve and the tank are open only if the client has opened them.\<close>

lemma titan_only_manual:
  assumes "run_events (titan_do C) es burn_off = Some m"
  shows "m_main m \<longrightarrow> Manual set_valve \<in> set es \<or> Manual leak_check \<in> set es \<or> Manual fill \<in> set es"
    and "m_gitvc m \<longrightarrow> Manual fill \<in> set es"
proof -
  have "(m_main m \<longrightarrow> Manual set_valve \<in> set es \<or> Manual leak_check \<in> set es \<or> Manual fill \<in> set es)
      \<and> (m_gitvc m \<longrightarrow> Manual fill \<in> set es)" (is "?P m")
  proof (rule run_events_inv [where P = ?P, OF assms])
    fix e k k' assume e: "e \<in> set es" "?P k" "titan_do C e k = Some k'"
    show "?P k'"
    proof (cases e)
      case (Manual c)
      with e show ?thesis by (cases c) (auto simp: titan_manual_def)
    qed (use e in \<open>auto split: if_splits option.splits\<close>)
  qed (simp add: burn_off_def)
  then show "m_main m \<longrightarrow> Manual set_valve \<in> set es \<or> Manual leak_check \<in> set es \<or> Manual fill \<in> set es"
    and "m_gitvc m \<longrightarrow> Manual fill \<in> set es" by simp_all
qed

end
