(* ===== verification/BurnRefinement.thy ===== *)
theory BurnRefinement
  imports BurnMachine
begin

text \<open>
  Both engines refine their burn machines. The contract \<open>burn_engine\<close> asks that every visit amounts to events of the
  machine, with the item's command among them and no other; then every run of the program from \<open>main\<close> on, under any
  interleaving of its threads, is a run of the machine, and what holds of the machine holds of the program.
\<close>

section \<open>What a visit amounts to\<close>

definition armed_at :: "work_queue_item_action \<Rightarrow> 'a worker_visitor_scheme \<Rightarrow> timestamp_t option" where
  "armed_at a s = (let x = til_item a (ti_list s) in if enabled x then Some (scheduled x) else None)"

definition burn_of :: "'a worker_visitor_scheme \<Rightarrow> burn_machine" where
  "burn_of s = \<lparr>m_main = (pin_level (trace s) MAIN_VALVE = Some HIGH), m_igniter = (pin_level (trace s) IGN_START = Some HIGH),
     m_water = (pin_level (trace s) WATER_VALVE = Some HIGH), m_gitvc = (pin_level (trace s) GITVC_VALVE = Some LOW),
     m_burn = (if burn_on s then Some (start_time_nitr s) else None),
     m_opening = armed_at ign2 s, m_closing = armed_at ign3 s\<rparr>"

lemma burn_of_cong:
  assumes "\<forall>p \<in> set valve_pins. pin_level (trace t) p = pin_level (trace s) p"
    and "burn_on t = burn_on s" and "start_time_nitr t = start_time_nitr s"
    and "til_item ign2 (ti_list t) = til_item ign2 (ti_list s)" and "til_item ign3 (ti_list t) = til_item ign3 (ti_list s)"
  shows "burn_of t = burn_of s"
  using assms by (simp add: burn_of_def armed_at_def valve_pins_def)

text \<open>The codes of a list of command bytes; a byte that is no code does nothing to the machine.\<close>

definition codes :: "byte list \<Rightarrow> send_code list" where
  "codes cs = List.map_filter code_of cs"

lemma codes_simps [simp]:
  "codes [] = []" "codes (c # cs) = (case code_of c of None \<Rightarrow> codes cs | Some x \<Rightarrow> x # codes cs)"
  "codes (cs @ ds) = codes cs @ codes ds"
  by (simp_all add: codes_def map_filter_simps List.map_filter_def split: option.split)

text \<open>The ignitions that wait in a queue, and the item that starts a burn.\<close>

definition queued_ignitions :: "work_queue_item list \<Rightarrow> nat" where
  "queued_ignitions xs = length (filter (\<lambda>x. wqi_action x = ign1) xs)"

definition starter :: "work_queue_item \<Rightarrow> bool" where
  "starter x \<longleftrightarrow> wqi_action x = wq_timed \<and> extra_datap x = Some 10"

lemma queued_ignitions_simps [simp]:
  "queued_ignitions [] = 0"
  "queued_ignitions (x # xs) = (if wqi_action x = ign1 then Suc (queued_ignitions xs) else queued_ignitions xs)"
  "queued_ignitions (xs @ ys) = queued_ignitions xs + queued_ignitions ys"
  by (simp_all add: queued_ignitions_def)

text \<open>
  A visit amounts to the events \<open>es\<close>: they lead from the one state of the machine to the other, with the item's command and
  no other, every ignition is queued by a command and taken out as one event, and only the stage \<open>ign2\<close>, which is queued only
  when it is armed, starts a burn.
\<close>

definition amounts_to ::
    "(burn_event \<Rightarrow> burn_machine \<Rightarrow> burn_machine option) \<Rightarrow> work_queue_item \<Rightarrow> burn_event list
     \<Rightarrow> 'a worker_visitor_scheme \<Rightarrow> 'a worker_visitor_scheme \<Rightarrow> bool" where
  "amounts_to does item es s s' \<longleftrightarrow> run_events does es (burn_of s) = Some (burn_of s') \<and> manuals es = codes (commands [item])
     \<and> ignitions es + queued_ignitions (q (qw s')) = queued_ignitions (item # q (qw s)) + asked (manuals es)
     \<and> (starts es \<longrightarrow> starter item)
     \<and> (list_ex starter (q (qw s')) \<longrightarrow> list_ex starter (q (qw s)) \<or> armed_at ign2 s \<noteq> None)"

text \<open>What the engines share: ignitions, idle rounds and sensors.\<close>

lemma shared_amounts:
  assumes vw: "vis_wf s" and item: "wqi_action item \<notin> {wq_process, wq_timed}"
    and out: "visit E proc timed (worker_visitIgn E C) item s = Inr s'"
    and ignite: "\<And>u m. does (Ignite u) m = luna_do C (Ignite u) m"
  shows "\<exists>es. amounts_to does item es s s'"
proof -
  have til: "til_wf (ti_list s)" using vw by (simp add: vis_wf_def)
  obtain u tr where u: "get_time E (base_time s) (trace s) = (u, tr)" by (meson surj_pair)
  have tr: "pin_level tr p = pin_level (trace s) p" for p
    using quiet_after_pin_level [OF get_time_quiet [OF u]] .
  consider (ign) "wqi_action item = ign1" | (idle) "wqi_action item = wq_none"
    | (other) "wqi_action item \<notin> {wq_process, wq_timed, ign1, wq_none}" using item by auto
  then show ?thesis
  proof cases
    case ign
    then have "worker_visitIgn E C item s = Inr s'" using out by (simp add: visit_def)
    with ign til tr have "amounts_to does item [Ignite u] s s'"
      by (cases "ignition_on C") (auto simp: worker_visitIgn_eq [OF vw u] amounts_to_def burn_of_def armed_at_def ignite
        stage_ops stage_items ti_enable_def pin_defs)
    then show ?thesis ..
  next
    case idle
    then have "visitNone E item s = Inr s'" using out by (simp add: visit_def)
    with check_ti_list_eq [of "s\<lparr>now := u, trace := tr\<rparr>" u] vw have s': "s' = s\<lparr>now := u, trace := tr,
        qw := (qw s)\<lparr>q := q (qw s) @ map timed_wqi (filter (\<lambda>j. due u (ti_at j s)) [0..<13])\<rparr>\<rparr>"
      by (simp add: visitNone_def read_clock_def u ti_at_def)
    have "burn_of s' = burn_of s" using tr by (intro burn_of_cong) (simp_all add: s')
    moreover have "queued_ignitions (map timed_wqi js) = 0" for js by (simp add: queued_ignitions_def)
    ultimately have "amounts_to does item [] s s'"
      using idle by (auto simp: amounts_to_def s' starter_def list_ex_iff armed_at_def due_def til_item_at [of ign2 10])
    then show ?thesis ..
  next
    case other
    then have "s' = s" using out by (cases "wqi_action item") (simp_all add: visit_def visitDefault_def)
    with other have "amounts_to does item [] s s'" by (simp add: amounts_to_def)
    then show ?thesis ..
  qed
qed

lemma timed_amounts:
  assumes "wqi_action item = wq_timed" and "qw s' = qw s"
    and "run_events does es (burn_of s) = Some (burn_of s')" and "manuals es = []" and "ignitions es = 0"
    and "starts es \<longrightarrow> extra_datap item = Some 10"
  shows "\<exists>es. amounts_to does item es s s'"
  using assms by (intro exI [of _ es]) (simp add: amounts_to_def starter_def)

lemma sensor_amounts:
  assumes timed: "wqi_action item = wq_timed" "qw s' = qw s"
    and sensor: "(valves_kept (trace s) (trace s') \<and> burn_on s' = burn_on s
      \<or> valves_shut (trace s) (trace s') \<and> burn_on s \<and> \<not> burn_on s'
        \<and> shutoff_due C (pressure_avg s') (start_time_nitr s) (now s'))
    \<and> til_item ign2 (ti_list s') = til_item ign2 (ti_list s) \<and> til_item ign3 (ti_list s') = til_item ign3 (ti_list s)
    \<and> start_time_nitr s' = start_time_nitr s"
    and shut: "\<And>p u m. does (Shut_off p u) m = luna_do C (Shut_off p u) m"
  shows "\<exists>es. amounts_to does item es s s'"
proof -
  consider (kept) "burn_of s' = burn_of s"
    | (shut) "valves_shut (trace s) (trace s')" "burn_on s" "\<not> burn_on s'"
        "shutoff_due C (pressure_avg s') (start_time_nitr s) (now s')"
    using burn_of_cong [of s' s] sensor by (auto simp: valves_kept_def)
  then show ?thesis
  proof cases
    case kept
    then show ?thesis by (intro timed_amounts [OF timed, where es = "[]"]) simp_all
  next
    case shut
    with sensor show ?thesis
      by (intro timed_amounts [OF timed, where es = "[Shut_off (pressure_avg s') (now s')]"])
        (auto simp: burn_of_def armed_at_def valves_shut_def assms(4))
  qed
qed

section \<open>Luna\<close>

lemma luna_proc_amounts:
  assumes "wqi_action item = wq_process" and "luna_visitProc item s = Inr s'"
  shows "\<exists>es. amounts_to (luna_do C) item es s s'"
proof (cases "code_of (wqi_data0 item)")
  case None
  with assms have "amounts_to (luna_do C) item [] s s'"
    by (auto simp: luna_visitProc_def worker_visitProc_def push_qw_def amounts_to_def burn_of_def armed_at_def
      enqueue_def starter_def)
  then show ?thesis ..
next
  case (Some c)
  with assms have "amounts_to (luna_do C) item [Manual c] s s'"
    by (cases c) (auto simp: luna_visitProc_def worker_visitProc_def process_stmts amounts_to_def burn_of_def armed_at_def
      enqueue_def luna_manual_def pin_defs starter_def)
  then show ?thesis ..
qed

text \<open>A visit of the igniter's pulse item, which may open its valve, close it, or find the burn over.\<close>

lemma luna_pulse_amounts:
  assumes timed: "wqi_action item = wq_timed" "qw s' = qw s" and t: "luna_wf C t" "burn_of t = burn_of s"
    and s': "s' = projr (luna_gitvc C t)"
  shows "\<exists>es. amounts_to (luna_do C) item es s s'"
proof -
  note amounts = timed_amounts [OF timed, where does = "luna_do C", folded t(2)]
  have til: "til_wf (ti_list t)" using t by (simp add: luna_wf_def vis_wf_def)
  consider (close) "gitvc_on t" | (pulse) "\<not> gitvc_on t" "gitvc_count t < int (length (gitvc_times C))" "burn_on t"
    | (rest) "\<not> gitvc_on t" "\<not> (gitvc_count t < int (length (gitvc_times C)) \<and> burn_on t)" by blast
  then show ?thesis
  proof cases
    case close
    with til s' show ?thesis
      by (intro amounts [where es = "[Pulse False]"])
        (simp_all add: luna_gitvc_eq [OF t(1)] stage_ops stage_items burn_of_def armed_at_def pin_defs)
  next
    case pulse
    moreover have "0 \<le> gitvc_count t" using t by (simp add: luna_wf_def count_ok_def)
    ultimately have "gitvc_times C \<noteq> []" by auto
    with pulse til s' show ?thesis
      by (intro amounts [where es = "[Pulse True]"])
        (simp_all add: luna_gitvc_eq [OF t(1)] stage_ops stage_items burn_of_def armed_at_def pin_defs)
  next
    case rest
    with s' show ?thesis by (intro amounts [where es = "[]"]) (simp_all add: luna_gitvc_eq [OF t(1)])
  qed
qed

lemma luna_timed_amounts:
  assumes wf: "luna_wf C s" and timed: "wqi_action item = wq_timed" and i: "extra_datap item = Some i" "i < 13"
    and run: "luna_visitTimed E C item s = Inr s'"
  shows "\<exists>es. amounts_to (luna_do C) item es s s'"
proof -
  have til: "til_wf (ti_list s)" using wf by (simp add: luna_wf_def vis_wf_def)
  obtain u tr where u: "get_time E (base_time s) (trace s) = (u, tr)" by (meson surj_pair)
  have tr: "pin_level tr p = pin_level (trace s) p" for p
    using quiet_after_pin_level [OF get_time_quiet [OF u]] .
  have qw: "qw s' = qw s" using preservesD [OF preserves_qw_luna_visitTimed run] .
  note amounts = timed_amounts [OF timed qw, where does = "luna_do C"]
  note stage = luna_visit_stage [OF wf i(1) _ _ u]
  consider "i < 10" | "i = 10" | "i = 11" | "i = 12" using i(2) by linarith
  then show ?thesis
  proof cases
    case 1
    from luna_visit_sensor [OF wf i(1) 1 run] show ?thesis
      by (intro sensor_amounts [OF timed qw, where C = C]) simp_all
  next
    case 2
    with run stage [of ign2] have "s' = projr (luna_ign2 C (woken ign2 u tr s))" by simp
    then show ?thesis
      using til tr 2 i(1)
      by (intro amounts [where es = "[Start_burn u]"])
        (simp_all add: luna_ign2_eq stage_ops stage_items burn_of_def armed_at_def ti_disable_def ti_enable_def pin_defs Let_def)
  next
    case 3
    with run stage [of ign3] have "s' = projr (luna_ign3 (woken ign3 u tr s))" by simp
    then show ?thesis
      using til tr
      by (intro amounts [where es = "[End_burn]"])
        (simp_all add: luna_ign3_eq stage_ops stage_items burn_of_def armed_at_def ti_disable_def pin_defs)
  next
    case 4
    have "luna_wf C (woken gitvc u tr s)" using woken_wf [OF wf, of gitvc 12 u tr] by simp
    moreover have "burn_of (woken gitvc u tr s) = burn_of s"
      using til tr by (intro burn_of_cong) (simp_all add: stage_items, simp add: woken_def)
    ultimately show ?thesis using 4 run stage [of gitvc] by (intro luna_pulse_amounts [OF timed qw, of C "woken gitvc u tr s"]) simp_all
  qed
qed

lemma luna_visit_amounts:
  assumes wf: "luna_wf C s" and item: "wqi_ok item" and out: "luna_visit E C item s = Inr s'"
  shows "\<exists>es. amounts_to (luna_do C) item es s s'"
proof -
  consider (proc) "wqi_action item = wq_process" | (timed) "wqi_action item = wq_timed"
    | (other) "wqi_action item \<notin> {wq_process, wq_timed}" by auto
  then show ?thesis
  proof cases
    case proc
    then show ?thesis using out luna_proc_amounts by (simp add: luna_visit_def visit_def)
  next
    case timed
    then obtain i where "extra_datap item = Some i" "i < 13" using item by (auto simp: wqi_ok_def)
    with timed out show ?thesis using luna_timed_amounts [OF wf timed] by (simp add: luna_visit_def visit_def)
  next
    case other
    have "vis_wf s" using wf by (simp add: luna_wf_def)
    from shared_amounts [OF this other out [unfolded luna_visit_def]] show ?thesis by simp
  qed
qed

section \<open>Titan\<close>

lemma titan_proc_amounts:
  assumes "wqi_action item = wq_process" and "titan_visitProc item s = Inr s'"
  shows "\<exists>es. amounts_to (titan_do C) item es s s'"
proof (cases "code_of (wqi_data0 item)")
  case None
  with assms have "amounts_to (titan_do C) item [] s s'"
    by (auto simp: titan_visitProc_def worker_visitProc_def push_qw_def amounts_to_def burn_of_def armed_at_def
      enqueue_def starter_def)
  then show ?thesis ..
next
  case (Some c)
  with assms have "amounts_to (titan_do C) item [Manual c] s s'"
    by (cases c) (auto simp: titan_visitProc_def worker_visitProc_def process_stmts amounts_to_def burn_of_def armed_at_def
      enqueue_def titan_manual_def pin_defs starter_def)
  then show ?thesis ..
qed

lemma titan_timed_amounts:
  assumes vw: "vis_wf s" and timed: "wqi_action item = wq_timed" and i: "extra_datap item = Some i" "i < 13"
    and run: "titan_visitTimed E C item s = Inr s'"
  shows "\<exists>es. amounts_to (titan_do C) item es s s'"
proof -
  have til: "til_wf (ti_list s)" using vw by (simp add: vis_wf_def)
  obtain u tr where u: "get_time E (base_time s) (trace s) = (u, tr)" by (meson surj_pair)
  have tr: "pin_level tr p = pin_level (trace s) p" for p
    using quiet_after_pin_level [OF get_time_quiet [OF u]] .
  have qw: "qw s' = qw s" using preservesD [OF preserves_qw_titan_visitTimed run] .
  note amounts = timed_amounts [OF timed qw, where does = "titan_do C"]
  note stage = titan_visit_stage [OF vw i(1) _ _ u]
  consider "i < 10" | "i = 10" | "i = 11" | "i = 12" using i(2) by linarith
  then show ?thesis
  proof cases
    case 1
    from titan_visit_sensor [OF vw i(1) 1 run] show ?thesis
      by (intro sensor_amounts [OF timed qw, where C = C]) simp_all
  next
    case 2
    with run stage [of ign2] have "s' = projr (titan_ign2 (woken ign2 u tr s))" by simp
    then show ?thesis
      using til tr 2 i(1)
      by (intro amounts [where es = "[Start_burn u]"])
        (simp_all add: titan_ign2_eq stage_ops stage_items burn_of_def armed_at_def ti_disable_def ti_enable_def pin_defs)
  next
    case 3
    with run stage [of ign3] have "s' = projr (titan_ign3 (woken ign3 u tr s))" by simp
    then show ?thesis
      using til tr
      by (intro amounts [where es = "[End_burn]"])
        (simp_all add: titan_ign3_eq stage_ops stage_items burn_of_def armed_at_def ti_disable_def pin_defs)
  next
    case 4
    with run stage [of gitvc] have "s' = woken gitvc u tr s" by simp
    then have "burn_of s' = burn_of s"
      using til tr by (intro burn_of_cong) (simp_all add: stage_items, simp add: woken_def)
    then show ?thesis by (intro amounts [where es = "[]"]) simp_all
  qed
qed

lemma titan_visit_amounts:
  assumes vw: "vis_wf s" and item: "wqi_ok item" and out: "titan_visit E C item s = Inr s'"
  shows "\<exists>es. amounts_to (titan_do C) item es s s'"
proof -
  consider (proc) "wqi_action item = wq_process" | (timed) "wqi_action item = wq_timed"
    | (other) "wqi_action item \<notin> {wq_process, wq_timed}" by auto
  then show ?thesis
  proof cases
    case proc
    then show ?thesis using out titan_proc_amounts by (simp add: titan_visit_def visit_def)
  next
    case timed
    then obtain i where "extra_datap item = Some i" "i < 13" using item by (auto simp: wqi_ok_def)
    with timed out show ?thesis using titan_timed_amounts [OF vw timed] by (simp add: titan_visit_def visit_def)
  next
    case other
    from shared_amounts [OF vw other out [unfolded titan_visit_def]] show ?thesis by simp
  qed
qed

section \<open>Runs of either engine\<close>

definition run_amounts_to ::
    "(burn_event \<Rightarrow> burn_machine \<Rightarrow> burn_machine option) \<Rightarrow> byte list \<Rightarrow> burn_event list
     \<Rightarrow> 'a worker_visitor_scheme \<Rightarrow> bool" where
  "run_amounts_to does cs es s \<longleftrightarrow> run_events does es burn_off = Some (burn_of s) \<and> manuals es = codes cs
     \<and> ignitions es + queued_ignitions (q (qw s)) = asked (codes cs)
     \<and> (ignitions es = 0 \<longrightarrow> \<not> starts es \<and> \<not> list_ex starter (q (qw s)))"

locale burn_engine = command_engine ok wqv + burn_account does
  for ok :: "'a worker_visitor_scheme \<Rightarrow> bool" and wqv and does +
  assumes visit_amounts: "ok s \<Longrightarrow> wqi_ok item \<Longrightarrow> wqv item s = Inr s' \<Longrightarrow> \<exists>es. amounts_to does item es s s'"
begin

lemma run_amounts_visit:
  assumes "run_amounts_to does cs es t" and "amounts_to does item fs s u"
    and s: "burn_of s = burn_of t" "armed_at ign2 s = armed_at ign2 t"
    and qs: "q (qw t) = item # q (qw s) \<or> q (qw t) = [] \<and> q (qw s) = [] \<and> wqi_action item = wq_none"
  shows "run_amounts_to does (cs @ commands [item]) (es @ fs) u"
proof -
  have fs: "manuals fs = codes (commands [item])" "run_events does fs (burn_of s) = Some (burn_of u)"
    "ignitions fs + queued_ignitions (q (qw u)) = queued_ignitions (item # q (qw s)) + asked (codes (commands [item]))"
    "starts fs \<longrightarrow> starter item" "list_ex starter (q (qw u)) \<longrightarrow> list_ex starter (q (qw s)) \<or> armed_at ign2 s \<noteq> None"
    using assms(2) by (simp_all add: amounts_to_def)
  have "queued_ignitions (item # q (qw s)) = queued_ignitions (q (qw t))"
    "starter item \<longrightarrow> list_ex starter (q (qw t))" "list_ex starter (q (qw s)) \<longrightarrow> list_ex starter (q (qw t))"
    using qs by (auto simp: starter_def)
  moreover have "armed_at ign2 t = None" if "ignitions es = 0"
    using no_ignition_unarmed [of es "burn_of t"] assms(1) that by (simp add: run_amounts_to_def burn_of_def)
  ultimately show ?thesis
    using assms(1) fs s by (auto simp: run_amounts_to_def run_events_append)
qed

lemma run_amounts:
  assumes "command_run wqv E udp s0 cs s" and s0: "ok s0" "timeout (nw s0) = 0" "burn_of s0 = burn_off" "q (qw s0) = []"
    and ret: "missing_return E \<noteq> None"
  shows "\<exists>es. run_amounts_to does cs es s"
  using assms(1)
proof (induction rule: command_run.induct)
  case run_start
  have "run_amounts_to does [] [] s0" using s0 by (simp add: run_amounts_to_def)
  then show ?case ..
next
  case (run_worker cs t u)
  then obtain es where es: "run_amounts_to does cs es t" by blast
  have ok: "ok t" using commands_run [OF run_worker.hyps(1) s0(1,2) ret] by simp
  obtain item qw' where p: "poll (qw t) = (item, qw')" by (meson surj_pair)
  have null: "null_item (qw t) = null_wqi" "list_all wqi_ok (q (qw t))"
    using ok_wf [OF ok] by (simp_all add: vis_wf_defs)
  define s where "s = t\<lparr>qw := qw'\<rparr>"
  have qs: "q (qw t) = item # q (qw s) \<or> q (qw t) = [] \<and> q (qw s) = [] \<and> wqi_action item = wq_none"
    and s: "wqi_ok item" "ok s"
    using p null ok ok_queue [OF ok, of "q qw'"]
    by (cases rule: poll_cases; simp add: s_def wqi_ok_def null_wqi_def)+
  have "wqv item s = Inr u" using run_worker.hyps(2) p by (simp add: worker_step_def s_def)
  then obtain fs where "amounts_to does item fs s u" using visit_amounts [OF s(2,1)] by blast
  moreover have "burn_of s = burn_of t" "armed_at ign2 s = armed_at ign2 t"
    by (simp_all add: s_def burn_of_def armed_at_def)
  ultimately have "run_amounts_to does (cs @ commands [item]) (es @ fs) u"
    using run_amounts_visit [OF es _ _ _ qs] by blast
  then show ?case unfolding p fst_conv ..
next
  case (run_network cs t junk u)
  then obtain es where es: "run_amounts_to does cs es t" by blast
  have "ok t" "timeout (nw t) = 0"
    using commands_run [OF run_network.hyps(1) s0(1,2) ret] by simp_all
  from network_step_inv [OF net_inv_refl [OF ok_net_ok [OF this]] ret, of udp junk] run_network.hyps(2)
  obtain pend where inv: "net_inv t pend u" by auto
  then obtain xs where xs: "q (qw u) = q (qw t) @ xs" "list_all (\<lambda>x. wqi_action x = wq_process) xs"
    and step: "net_next t u"
    by (auto simp: net_inv_def)
  have pins: "pin_level (trace u) = pin_level (trace t)" using net_inv_pin_level [OF inv] .
  from step pins have "burn_of u = burn_of t"
    by (intro burn_of_cong) (auto simp: net_next_def)
  moreover have "queued_ignitions xs = 0 \<and> \<not> list_ex starter xs"
    using xs(2) by (induction xs) (auto simp: starter_def)
  ultimately have "run_amounts_to does cs es u" using es xs(1) by (auto simp: run_amounts_to_def)
  then show ?case ..
qed

text \<open>What the times of the machine mean for the program.\<close>

lemma run_attended:
  assumes "run_amounts_to does cs es s"
  shows "(burn_on s \<longrightarrow> armed_at ign3 s = Some (start_time_nitr s) \<and> ign_normal \<in> set (codes cs))
    \<and> (armed_at ign2 s \<noteq> None \<longrightarrow> ign_normal \<in> set (codes cs))
    \<and> (pin_level (trace s) IGN_START = Some HIGH \<longrightarrow>
        burn_on s \<or> armed_at ign2 s \<noteq> None \<or> set_ignition \<in> set (codes cs))"
proof -
  have run: "run_events does es burn_off = Some (burn_of s)" "manuals es = codes cs"
    and asked: "ignitions es + queued_ignitions (q (qw s)) = asked (codes cs)" "ignitions es = 0 \<longrightarrow> \<not> starts es"
    using assms by (simp_all add: run_amounts_to_def)
  have "m_burn (burn_of s) = None \<and> m_opening (burn_of s) = None" if "ign_normal \<notin> set (codes cs)"
  proof -
    have "ignitions es = 0" using asked(1) that by (simp flip: asked_iff)
    then show ?thesis using no_ignition_unarmed [OF run(1)] no_start_no_burn [OF run(1)] asked(2) by blast
  qed
  moreover have "set_ignition \<in> set (codes cs) \<longleftrightarrow> Manual set_ignition \<in> set es" using manuals_iff run(2) by metis
  moreover note burn_closes [OF run(1)] igniter_only_in_burn [OF run(1)]
  ultimately show ?thesis
    by (cases "ign_normal \<in> set (codes cs)") (auto simp: burn_of_def split: if_splits)
qed

end

interpretation luna_burns: burn_engine "luna_wf C" "luna_visit E C" "luna_do C"
  for C E
  by unfold_locales (rule luna_visit_amounts)

interpretation titan_burns: burn_engine vis_wf "titan_visit E C" "titan_do C"
  for C E
  by unfold_locales (rule titan_visit_amounts)

text \<open>From \<open>main\<close> on.\<close>

lemma safe_start_off:
  assumes "safe_pins (trace s)" and "\<not> burn_on s"
    and "\<not> enabled (til_item ign2 (ti_list s))" and "\<not> enabled (til_item ign3 (ti_list s))"
  shows "burn_of s = burn_off"
  using assms by (simp add: burn_of_def burn_off_def armed_at_def safe_pins_def)

lemma main_luna_start:
  "main_program E po j8_24 m junk argv = Inr (Luna_runs C s) \<Longrightarrow> config_ok C \<Longrightarrow> luna_start C s"
  using main_program_cases by fastforce

lemma luna_run_amounts:
  assumes "command_run (luna_visit E C) E udp s0 cs s" and "luna_start C s0" and "missing_return E \<noteq> None"
  shows "\<exists>es. run_amounts_to (luna_do C) cs es s"
  using luna_burns.run_amounts [OF assms(1) _ _ safe_start_off _ assms(3)] assms(2) by (simp add: luna_start_def)

lemma titan_run_amounts:
  assumes "command_run (titan_visit E C) E udp s0 cs s" and "titan_start s0" and "missing_return E \<noteq> None"
  shows "\<exists>es. run_amounts_to (titan_do C) cs es s"
  using titan_burns.run_amounts [OF assms(1) _ _ safe_start_off _ assms(3)] assms(2) by (simp add: titan_start_def)

section \<open>Properties\<close>

text \<open>What a run shows of the machine: events with the commands \<open>cs\<close>, and the ignitions that the client has asked for.\<close>

definition shows_burn ::
    "(burn_event \<Rightarrow> burn_machine \<Rightarrow> burn_machine option) \<Rightarrow> byte list \<Rightarrow> 'a worker_visitor_scheme \<Rightarrow> bool" where
  "shows_burn does cs s \<longleftrightarrow> (\<exists>es. run_events does es burn_off = Some (burn_of s) \<and> manuals es = codes cs
     \<and> ignitions es + queued_ignitions (q (qw s)) = asked (codes cs))"

text \<open>
  C2. The controller refines the burn machine of its engine. From \<open>main\<close> on, whatever the environment does and however
  the two threads interleave, every state reached shows a state of the machine, reached from the machine at rest by events of
  which the manual ones are exactly the commands the worker has carried out, in their order, and of which the ignitions, with
  those that still wait in the queue, are as many as the client has asked for.
\<close>

theorem programs_refine_burn_machines:
  assumes "main_program E po j8_24 m junk argv = Inr out" and "missing_return E \<noteq> None"
  shows "case out of
      Luna_runs C s0 \<Rightarrow> config_ok C \<longrightarrow>
        (\<forall>udp cs s. command_run (luna_visit E C) E udp s0 cs s \<longrightarrow> shows_burn (luna_do C) cs s)
    | Titan_runs C s0 \<Rightarrow>
        (\<forall>udp cs s. command_run (titan_visit E C) E udp s0 cs s \<longrightarrow> shows_burn (titan_do C) cs s)
    | _ \<Rightarrow> True"
proof (cases out)
  case (Luna_runs C s0)
  with main_luna_start assms have "config_ok C \<longrightarrow> luna_start C s0" by blast
  with Luna_runs luna_run_amounts [OF _ _ assms(2)] show ?thesis
    by (fastforce simp: shows_burn_def run_amounts_to_def)
next
  case (Titan_runs C s0)
  with main_program_cases [OF assms(1)] have "titan_start s0" by simp
  with Titan_runs titan_run_amounts [OF _ _ assms(2)] show ?thesis
    by (fastforce simp: shows_burn_def run_amounts_to_def)
qed simp_all

text \<open>The first round of the worker after \<open>main\<close> has read \<open>coldflow.ini\<close>.\<close>

lemma sample_command_run:
  "\<exists>C s0 s. sample_run (Luna_runs C s0) \<and> config_ok C \<and> command_run (luna_visit sample_env C) sample_env False s0 [] s"
proof -
  obtain C s0 where s0: "sample_run (Luna_runs C s0)" "config_ok C"
    using sample_run_luna by (force simp: config_ok_def coldflow_config_def INT_MAX_def)
  from main_luna_start [OF s0(1) [unfolded sample_run_def] s0(2)]
  have start: "luna_wf C s0" "q (qw s0) = []" by (simp_all add: luna_start_def)
  obtain s where "worker_step (luna_visit sample_env C) s0 = Inr s" by (rule luna.worker_round_ok [OF start(1)])
  from run_worker [OF run_start this] have "command_run (luna_visit sample_env C) sample_env False s0
      ([] @ commands [fst (poll (qw s0))]) s" .
  moreover have "null_item (qw s0) = null_wqi" using start(1) by (simp add: luna_wf_def vis_wf_defs)
  then have "commands [fst (poll (qw s0))] = []" using start(2) by (simp add: poll_def null_wqi_def)
  ultimately show ?thesis using s0 by auto
qed

theorem programs_refine_burn_machines_witness:
  "\<exists>C s0 s. sample_run (Luna_runs C s0) \<and> command_run (luna_visit sample_env C) sample_env False s0 [] s
     \<and> shows_burn (luna_do C) [] s"
proof -
  obtain C s0 s where s: "sample_run (Luna_runs C s0)" "config_ok C"
    "command_run (luna_visit sample_env C) sample_env False s0 [] s" using sample_command_run by blast
  have "missing_return sample_env \<noteq> None" by (simp add: sample_env_def)
  from programs_refine_burn_machines [OF s(1) [unfolded sample_run_def] this] s(2,3)
  have "shows_burn (luna_do C) [] s" by auto
  with s(1,3) show ?thesis by blast
qed

text \<open>
  C3. Nothing opens or burns unasked and nothing burns unattended, end to end. From \<open>main\<close> on, under every
  interleaving of the two threads of a Luna: a burn is on, or armed, only if the client has sent an ignition command
  that was carried out, and while it is on its end is armed from its start; the main valve is open only during a burn, unless
  the client has opened it by hand; the igniter is on only during a burn or while one is about to start, unless
  the client has turned it on by hand.
\<close>

theorem nothing_opens_unasked:
  assumes "main_program E po j8_24 m junk argv = Inr (Luna_runs C s0)" and "config_ok C" and "missing_return E \<noteq> None"
    and "command_run (luna_visit E C) E udp s0 cs s"
  shows "(burn_on s \<longrightarrow> armed_at ign3 s = Some (start_time_nitr s) \<and> ign_normal \<in> set (codes cs))
    \<and> (armed_at ign2 s \<noteq> None \<longrightarrow> ign_normal \<in> set (codes cs))
    \<and> (pin_level (trace s) MAIN_VALVE = Some HIGH \<longrightarrow> burn_on s \<or> set_valve \<in> set (codes cs))
    \<and> (pin_level (trace s) IGN_START = Some HIGH \<longrightarrow>
        burn_on s \<or> armed_at ign2 s \<noteq> None \<or> set_ignition \<in> set (codes cs))"
proof -
  obtain es where es: "run_amounts_to (luna_do C) cs es s"
    using luna_run_amounts [OF assms(4) main_luna_start [OF assms(1,2)] assms(3)] by blast
  then have "m_main (burn_of s) \<longrightarrow> m_burn (burn_of s) \<noteq> None \<or> Manual set_valve \<in> set es"
    using luna_main_only_in_burn by (auto simp: run_amounts_to_def)
  moreover have "Manual set_valve \<in> set es \<longleftrightarrow> set_valve \<in> set (codes cs)"
    using es by (simp add: run_amounts_to_def flip: manuals_iff)
  ultimately have "pin_level (trace s) MAIN_VALVE = Some HIGH \<longrightarrow> burn_on s \<or> set_valve \<in> set (codes cs)"
    by (auto simp: burn_of_def split: if_splits)
  with luna_burns.run_attended [OF es] show ?thesis by blast
qed

theorem nothing_opens_unasked_witness:
  "\<exists>C s0 s. sample_run (Luna_runs C s0) \<and> command_run (luna_visit sample_env C) sample_env False s0 [] s
     \<and> pin_level (trace s) MAIN_VALVE \<noteq> Some HIGH \<and> pin_level (trace s) IGN_START \<noteq> Some HIGH \<and> \<not> burn_on s"
proof -
  obtain C s0 s where s: "sample_run (Luna_runs C s0)" "config_ok C"
    "command_run (luna_visit sample_env C) sample_env False s0 [] s" using sample_command_run by blast
  have "missing_return sample_env \<noteq> None" by (simp add: sample_env_def)
  from nothing_opens_unasked [OF s(1) [unfolded sample_run_def] s(2) this s(3)]
  have "pin_level (trace s) MAIN_VALVE \<noteq> Some HIGH" "pin_level (trace s) IGN_START \<noteq> Some HIGH" "\<not> burn_on s"
    by auto
  with s(1,3) show ?thesis by blast
qed

text \<open>
  C23. A second ignition during a burn can open the main valve unlit. The ignition stage that it arms survives the end of the
  burn, which turns the igniter off; when its delay is over, its visit opens the main valve and starts a burn with
  the igniter off, although the configuration asks for ignition.
\<close>

theorem second_ignition_opens_unlit:
  assumes "luna_wf C s" and "burn_on s" and "wqi_action item = ign1"
  shows "\<exists>s1 s2 s3. luna_visit E C item s = Inr s1 \<and> burn_on s1 \<and> armed_at ign2 s1 = Some (now s1)
    \<and> (ignition_on C \<longrightarrow> pin_level (trace s1) IGN_START = Some HIGH)
    \<and> luna_visit E C (timed_wqi 11) s1 = Inr s2 \<and> \<not> burn_on s2 \<and> armed_at ign2 s2 = armed_at ign2 s1
    \<and> pin_level (trace s2) MAIN_VALVE = Some LOW
    \<and> luna_visit E C (timed_wqi 10) s2 = Inr s3 \<and> burn_on s3
    \<and> pin_level (trace s3) MAIN_VALVE = Some HIGH \<and> pin_level (trace s3) IGN_START = Some LOW"
proof -
  have vw: "vis_wf s" and til: "til_wf (ti_list s)" using assms(1) by (simp_all add: luna_wf_def vis_wf_def)
  obtain u tr where u: "get_time E (base_time s) (trace s) = (u, tr)" by (meson surj_pair)
  have "wqi_ok item" using assms(3) by (simp add: wqi_ok_def)
  then obtain s1 where s1: "luna_visit E C item s = Inr s1" "luna_wf C s1"
    using luna_visit_returns [OF assms(1)] by blast
  then have ign: "burn_on s1" "armed_at ign2 s1 = Some (now s1)"
    "ignition_on C \<longrightarrow> pin_level (trace s1) IGN_START = Some HIGH"
    using assms(2,3) worker_visitIgn_eq [OF vw u] til
    by (auto simp: luna_visit_def visit_def armed_at_def stage_ops stage_items ti_enable_def)
  have timed: "luna_visit E C (timed_wqi i) = luna_visitTimed E C (timed_wqi i)" for i
    by (simp add: luna_visit_def visit_def fun_eq_iff)
  obtain s2 where s2: "luna_visit E C (timed_wqi 11) s1 = Inr s2" "\<not> burn_on s2"
    "pin_level (trace s2) MAIN_VALVE = Some LOW" "pin_level (trace s2) IGN_START = Some LOW"
    "til_item ign2 (ti_list s2) = til_item ign2 (ti_list s1)"
    using luna_ign3_visit [OF s1(2), of "timed_wqi 11" E] by (auto simp: timed)
  have "luna_wf C s2" using luna_visit_returns [OF s1(2), of "timed_wqi 11" E] s2(1) by (simp add: wqi_ok_def)
  from luna_ign2_visit [OF this, of "timed_wqi 10" E] obtain s3 where
    "luna_visit E C (timed_wqi 10) s2 = Inr s3" "burn_on s3"
    "pin_level (trace s3) = (pin_level (trace s2))(MAIN_VALVE \<mapsto> HIGH)" by (auto simp: timed)
  then show ?thesis
    using s1(1) ign s2 by (simp add: armed_at_def pin_defs)
qed

theorem second_ignition_opens_unlit_witness:
  "\<exists>s s1 s2 s3. luna_visit sample_env sample_config (null_wqi\<lparr>wqi_action := ign1\<rparr>) (s :: luna_visitor) = Inr s1
     \<and> pin_level (trace s1) IGN_START = Some HIGH \<and> luna_visit sample_env sample_config (timed_wqi 11) s1 = Inr s2
     \<and> luna_visit sample_env sample_config (timed_wqi 10) s2 = Inr s3
     \<and> pin_level (trace s3) MAIN_VALVE = Some HIGH \<and> pin_level (trace s3) IGN_START = Some LOW"
proof -
  have "luna_wf sample_config (sample_luna\<lparr>burn_on := True\<rparr>)"
    using sample_luna_wf by (simp add: luna_wf_def vis_wf_defs)
  from second_ignition_opens_unlit [OF this, of "null_wqi\<lparr>wqi_action := ign1\<rparr>" sample_env] show ?thesis
    by (simp add: sample_config_def) blast
qed

text \<open>
  C27. The same for a Titan, whose main valve opens in no burn: from \<open>main\<close> on, under every interleaving, the main valve is open
  only if the client has sent \<open>set_valve\<close>, \<open>leak_check\<close> or \<open>fill\<close>, and the tank only after \<open>fill\<close>; a burn is on or armed only
  after an ignition command, with its end armed; and the igniter is on only during a burn or while one is about to start, unless the
  client has turned it on by hand.
\<close>

theorem titan_nothing_opens_unasked:
  assumes "main_program E po j8_24 m junk argv = Inr (Titan_runs C s0)" and "missing_return E \<noteq> None"
    and "command_run (titan_visit E C) E udp s0 cs s"
  shows "(pin_level (trace s) MAIN_VALVE = Some HIGH \<longrightarrow>
        set_valve \<in> set (codes cs) \<or> leak_check \<in> set (codes cs) \<or> fill \<in> set (codes cs))
    \<and> (pin_level (trace s) TANK = Some LOW \<longrightarrow> fill \<in> set (codes cs))
    \<and> (burn_on s \<longrightarrow> armed_at ign3 s = Some (start_time_nitr s) \<and> ign_normal \<in> set (codes cs))
    \<and> (armed_at ign2 s \<noteq> None \<longrightarrow> ign_normal \<in> set (codes cs))
    \<and> (pin_level (trace s) IGN_START = Some HIGH \<longrightarrow>
        burn_on s \<or> armed_at ign2 s \<noteq> None \<or> set_ignition \<in> set (codes cs))"
proof -
  have "titan_start s0" using main_program_cases [OF assms(1)] by simp
  then obtain es where es: "run_amounts_to (titan_do C) cs es s" using titan_run_amounts [OF assms(3) _ assms(2)] by blast
  then have run: "run_events (titan_do C) es burn_off = Some (burn_of s)"
    and "manuals es = codes cs" by (simp_all add: run_amounts_to_def)
  then have "Manual c \<in> set es \<longleftrightarrow> c \<in> set (codes cs)" for c by (simp flip: manuals_iff)
  then have "(pin_level (trace s) MAIN_VALVE = Some HIGH \<longrightarrow>
        set_valve \<in> set (codes cs) \<or> leak_check \<in> set (codes cs) \<or> fill \<in> set (codes cs))
    \<and> (pin_level (trace s) TANK = Some LOW \<longrightarrow> fill \<in> set (codes cs))"
    using titan_only_manual [OF run] by (simp add: burn_of_def pin_defs)
  with titan_burns.run_attended [OF es] show ?thesis by blast
qed

text \<open>A Titan at rest: the first round of its worker.\<close>

theorem titan_nothing_opens_unasked_witness:
  "\<exists>C s0 s. main_program sample_env titan_ini RPI_V2_GPIO_P1_24 sample_network (\<lambda>a i. 0)
       [''final'', ''titan.ini''] = Inr (Titan_runs C s0)
     \<and> command_run (titan_visit sample_env C) sample_env False s0 [] s
     \<and> pin_level (trace s) MAIN_VALVE \<noteq> Some HIGH \<and> pin_level (trace s) TANK \<noteq> Some LOW \<and> \<not> burn_on s"
proof -
  obtain C s0 where s0: "main_program sample_env titan_ini RPI_V2_GPIO_P1_24 sample_network (\<lambda>a i. 0)
      [''final'', ''titan.ini''] = Inr (Titan_runs C s0)"
    using titan_ini_starts by blast
  then have start: "vis_wf s0" "q (qw s0) = []" using main_program_cases [OF s0] by (simp_all add: titan_start_def)
  obtain s where "worker_step (titan_visit sample_env C) s0 = Inr s" by (rule titan.worker_round_ok [OF start(1)])
  from run_worker [OF run_start this] have "command_run (titan_visit sample_env C) sample_env False s0
      ([] @ commands [fst (poll (qw s0))]) s" .
  moreover have "null_item (qw s0) = null_wqi" using start(1) by (simp add: vis_wf_defs)
  then have "commands [fst (poll (qw s0))] = []" using start(2) by (simp add: poll_def null_wqi_def)
  ultimately have run: "command_run (titan_visit sample_env C) sample_env False s0 [] s" by simp
  have "missing_return sample_env \<noteq> None" by (simp add: sample_env_def)
  from titan_nothing_opens_unasked [OF s0 this run] s0 run show ?thesis by auto
qed

end
