(* ===== verification/Deadline.thy ===== *)
theory Deadline
  imports Backlog BurnRefinement
begin

text \<open>
  How long a burn can last, in time. When a round of the worker, with what the other thread does meanwhile, never takes longer
  than \<open>d\<close> microseconds and the client sends only commands the engine knows, then a burn is over at most 28
  rounds, and one more for each command carried out during the burn, after its configured length.
\<close>

section \<open>Runs with a bounded round\<close>

definition network_moves :: "env \<Rightarrow> bool \<Rightarrow> 'a process_scheme \<Rightarrow> 'a process_scheme \<Rightarrow> bool" where
  "network_moves E udp = (\<lambda>s t. \<exists>junk. network_step E udp junk s = Inr t)\<^sup>*\<^sup>*"

text \<open>The commands carried out since the main valve was last opened for a burn, after a round on \<open>item\<close>.\<close>

definition orders_since :: "work_queue_item \<Rightarrow> nat \<Rightarrow> nat" where
  "orders_since item m = (if starter item then 0 else if order_item item then Suc m else m)"

text \<open>
  A run from the start of one worker round to the start of another, with any number of rounds of the network thread
  after each, and that count of commands.
\<close>

inductive paced_run ::
    "env \<Rightarrow> config \<Rightarrow> bool \<Rightarrow> nat \<Rightarrow> 'a luna_visitor_scheme \<Rightarrow> nat \<Rightarrow> 'a luna_visitor_scheme \<Rightarrow> bool"
  for E C udp d s0 where
  paced_start: "paced_run E C udp d s0 0 s0"
| paced_round: "paced_run E C udp d s0 m s \<Longrightarrow> worker_step (luna_visit E C) s = Inr t \<Longrightarrow> network_moves E udp t u \<Longrightarrow>
    unat (clock E s) \<le> unat (clock E u) \<Longrightarrow> unat (clock E u) \<le> unat (clock E s) + d \<Longrightarrow>
    (\<forall>x \<in> set (q (qw u)). wqi_action x = wq_process \<longrightarrow> known_command (wqi_data0 x)) \<Longrightarrow>
    paced_run E C udp d s0 (orders_since (fst (poll (qw s))) m) u"

lemma paced_network_inv:
  assumes "network_moves E udp t u" and "net_ok t" and "missing_return E \<noteq> None"
  shows "net_inv t [] u"
  using assms(1) unfolding network_moves_def
proof (induction rule: rtranclp_induct)
  case base
  show ?case by (rule net_inv_refl [OF assms(2)])
next
  case (step a b)
  then obtain junk where "network_step E udp junk a = Inr b" by blast
  with network_step_inv [OF step(3) assms(3), of udp junk] show ?case by simp
qed

section \<open>A round of the worker\<close>

text \<open>Between its start and its end a burn stays the same one.\<close>

lemma luna_visit_burn:
  assumes "luna_wf C s" and "wqi_ok item" and "luna_visit E C item s = Inr u" and "\<not> starter item" and "burn_on u"
  shows "burn_on s \<and> start_time_nitr u = start_time_nitr s"
proof -
  obtain es where "amounts_to (luna_do C) item es s u" using luna_visit_amounts [OF assms(1-3)] by blast
  then have "run_events (luna_do C) es (burn_of s) = Some (burn_of u)" "\<not> starts es"
    using assms(4) by (auto simp: amounts_to_def)
  from luna_account.same_burn [OF this] assms(5) show ?thesis by (simp add: burn_of_def split: if_splits)
qed

lemma luna_order_visit:
  assumes "vis_wf s" and "order_item c" and "luna_visit E C c s = Inr u"
  shows "\<exists>ds. q (qw u) = q (qw s) @ ds \<and> (\<forall>y \<in> set ds. order_item y)"
proof -
  from assms(2) consider (ign) "wqi_action c = ign1" | (proc) "wqi_action c = wq_process" "known_command (wqi_data0 c)"
    by (auto simp: order_item_def)
  then show ?thesis
  proof cases
    case ign
    obtain v tr where "get_time E (base_time s) (trace s) = (v, tr)" by (meson surj_pair)
    from worker_visitIgn_eq [OF assms(1) this] ign assms(3) show ?thesis
      by (auto simp: luna_visit_def visit_def)
  next
    case proc
    with assms(3) luna_visitProc_known [OF proc(2)] show ?thesis by (auto simp: luna_visit_def visit_def)
  qed
qed

section \<open>The deadline\<close>

text \<open>
  The clock is not too far after the end of the burn for what is still ahead of it: the items of the table that are queued, and
  \<open>ign3\<close> among them if it is late.
\<close>

definition hotflow :: "config \<Rightarrow> nat" where
  "hotflow C = unat (word_of_int (hotflow_us C) :: timestamp_t)"

definition in_time :: "config \<Rightarrow> nat \<Rightarrow> nat \<Rightarrow> nat list \<Rightarrow> nat \<Rightarrow> 'a worker_visitor_scheme \<Rightarrow> bool" where
  "in_time C d m js c s \<longleftrightarrow> (burn_on s \<longrightarrow> c + length js * d
     \<le> unat (start_time_nitr s) + hotflow C + (if 11 \<in> set js then 28 * d else 14 * d) + m * d)"

definition deadline_inv :: "env \<Rightarrow> config \<Rightarrow> nat \<Rightarrow> nat \<Rightarrow> 'a worker_visitor_scheme \<Rightarrow> bool" where
  "deadline_inv E C d m s \<longleftrightarrow> (\<exists>js cs. q (qw s) = map timed_wqi js @ cs \<and> distinct js \<and> (\<forall>j \<in> set js. j < 13)
     \<and> (\<forall>y \<in> set cs. order_item y) \<and> in_time C d m js (unat (clock E s)) s)"

lemma deadline_invI:
  assumes "q (qw s) = map timed_wqi js @ cs" and "distinct js" and "\<forall>j \<in> set js. j < 13"
    and "\<forall>y \<in> set cs. order_item y" and "in_time C d m js (unat (clock E s)) s"
  shows "deadline_inv E C d m s"
  unfolding deadline_inv_def using assms by blast

lemma table_length:
  assumes "distinct js" and "\<forall>j \<in> set js. j < (13 :: nat)"
  shows "length js \<le> 13"
proof -
  have "set js \<subseteq> {0..<13}" using assms(2) by auto
  from card_mono [OF _ this] show ?thesis by (simp add: distinct_card [OF assms(1)])
qed

text \<open>The four ways in which the queue and the deadline move on, by arithmetic alone.\<close>

lemma in_timeI:
  assumes "burn_on s \<Longrightarrow> c + length js * d \<le> unat (start_time_nitr s) + hotflow C + 14 * d + m * d
    \<or> 11 \<in> set js \<and> c + length js * d \<le> unat (start_time_nitr s) + hotflow C + 28 * d + m * d"
  shows "in_time C d m js c s"
  unfolding in_time_def
proof (intro impI)
  assume "burn_on s"
  from assms [OF this] show "c + length js * d
      \<le> unat (start_time_nitr s) + hotflow C + (if 11 \<in> set js then 28 * d else 14 * d) + m * d"
    by (cases "11 \<in> set js") (simp_all only: if_True if_False simp_thms, linarith)
qed

lemma in_time_opened:
  assumes "start_time_nitr t = k" and "c \<le> unat k + d" and "length js \<le> 12"
  shows "in_time C d 0 js c t"
proof (rule in_timeI)
  have "length js * d \<le> 12 * d" using assms(3) by (rule mult_right_mono) simp
  then have "c + length js * d \<le> unat (start_time_nitr t) + hotflow C + 14 * d + 0 * d"
    unfolding assms(1) using assms(2) by linarith
  then show "c + length js * d \<le> unat (start_time_nitr t) + hotflow C + 14 * d + 0 * d
      \<or> 11 \<in> set js \<and> c + length js * d \<le> unat (start_time_nitr t) + hotflow C + 28 * d + 0 * d" ..
qed

lemma in_time_item:
  assumes "in_time C d m (i # js) b s" and "burn_on t \<Longrightarrow> burn_on s \<and> start_time_nitr t = start_time_nitr s"
    and "i \<noteq> 11" and "c \<le> b + d"
  shows "in_time C d m js c t"
  using assms by (auto simp: in_time_def)

lemma in_time_order:
  assumes "in_time C d m [] b s" and "burn_on t \<Longrightarrow> burn_on s \<and> start_time_nitr t = start_time_nitr s" and "c \<le> b + d"
  shows "in_time C d (Suc m) [] c t"
  using assms by (auto simp: in_time_def)

lemma in_time_idle:
  assumes "in_time C d m [] b s" and "burn_on t \<Longrightarrow> burn_on s \<and> start_time_nitr t = start_time_nitr s" and "c \<le> b + d"
    and "length js \<le> 13" and "burn_on s \<Longrightarrow> 11 \<notin> set js \<Longrightarrow> b \<le> unat (start_time_nitr s) + hotflow C"
  shows "in_time C d m js c t"
proof (rule in_timeI)
  assume t: "burn_on t"
  have js: "length js * d \<le> 13 * d" using assms(4) by (rule mult_right_mono) simp
  have b: "b \<le> unat (start_time_nitr t) + hotflow C + 14 * d + m * d"
    using assms(1,2) t by (simp add: in_time_def)
  show "c + length js * d \<le> unat (start_time_nitr t) + hotflow C + 14 * d + m * d
    \<or> 11 \<in> set js \<and> c + length js * d \<le> unat (start_time_nitr t) + hotflow C + 28 * d + m * d"
  proof (cases "11 \<in> set js")
    case True
    have "c + length js * d \<le> unat (start_time_nitr t) + hotflow C + 28 * d + m * d"
      using b js assms(3) by linarith
    with True show ?thesis by blast
  next
    case False
    then have "b \<le> unat (start_time_nitr t) + hotflow C" using assms(2,5) t by auto
    then have "c + length js * d \<le> unat (start_time_nitr t) + hotflow C + 14 * d + m * d"
      using js assms(3) by linarith
    then show ?thesis ..
  qed
qed

text \<open>A round of the worker, and what the network thread does before the next one.\<close>

lemma round_takes:
  assumes "luna_wf C s" and "q (qw s) = x # rest" and "worker_step (luna_visit E C) s = Inr t"
  shows "luna_visit E C x (s\<lparr>qw := (qw s)\<lparr>q := rest\<rparr>\<rparr>) = Inr t" and "luna_wf C (s\<lparr>qw := (qw s)\<lparr>q := rest\<rparr>\<rparr>)"
    and "wqi_ok x" and "fst (poll (qw s)) = x"
    and "burn_on t \<Longrightarrow> \<not> starter x \<Longrightarrow> burn_on s \<and> start_time_nitr t = start_time_nitr s"
proof -
  have "list_all wqi_ok (q (qw s))" using assms(1) by (simp add: luna_wf_def vis_wf_defs)
  then show v: "luna_visit E C x (s\<lparr>qw := (qw s)\<lparr>q := rest\<rparr>\<rparr>) = Inr t"
      "luna_wf C (s\<lparr>qw := (qw s)\<lparr>q := rest\<rparr>\<rparr>)" "wqi_ok x" and "fst (poll (qw s)) = x"
    using assms luna.ok_queue [OF assms(1), of rest] by (simp_all add: worker_step_Cons poll_def)
  show "burn_on s \<and> start_time_nitr t = start_time_nitr s" if "burn_on t" "\<not> starter x"
    using luna_visit_burn [OF v(2,3,1)] that by fastforce
qed

lemma deadline_timed:
  assumes wf: "luna_wf C s" and cons: "q (qw s) = timed_wqi i # (map timed_wqi js @ cs)"
    and qs: "distinct (i # js)" "\<forall>j \<in> set (i # js). j < 13" "\<forall>y \<in> set cs. order_item y"
    and time: "in_time C d m (i # js) (unat (clock E s)) s"
    and out: "worker_step (luna_visit E C) s = Inr t"
    and u: "q (qw u) = q (qw t) @ xs" "\<forall>y \<in> set xs. order_item y" "burn_on u = burn_on t"
      "start_time_nitr u = start_time_nitr t" "unat (clock E u) \<le> unat (clock E s) + d"
  shows "deadline_inv E C d (orders_since (fst (poll (qw s))) m) u"
proof -
  note v = round_takes [OF wf cons out]
  have run: "luna_visitTimed E C (timed_wqi i) (s\<lparr>qw := (qw s)\<lparr>q := map timed_wqi js @ cs\<rparr>\<rparr>) = Inr t"
    using v(1) by (simp add: luna_visit_def visit_def)
  have q: "q (qw u) = map timed_wqi js @ (cs @ xs)"
    using preservesD [OF preserves_qw_luna_visitTimed run] u(1) by simp
  have since: "orders_since (fst (poll (qw s))) m = (if i = 10 then 0 else m)"
    using v(4) by (simp add: orders_since_def starter_def order_item_def)
  have len: "length js \<le> 12" using table_length [OF qs(1,2)] by simp
  consider "i = 10" | "i = 11" | "i \<noteq> 10" "i \<noteq> 11" by blast
  then have "in_time C d (orders_since (fst (poll (qw s))) m) js (unat (clock E u)) u"
  proof cases
    case 1
    with luna_ign2_visit [OF v(2), of "timed_wqi i" E] run have "start_time_nitr u = clock E s"
      by (auto simp: u(4) clock_def)
    from in_time_opened [OF this u(5) len] show ?thesis using 1 since by simp
  next
    case 2
    with luna_ign3_visit [OF v(2), of "timed_wqi i" E] run have "\<not> burn_on u" by (auto simp: u(3))
    then show ?thesis by (simp add: in_time_def)
  next
    case 3
    then have "burn_on u \<Longrightarrow> burn_on s \<and> start_time_nitr u = start_time_nitr s"
      using v(5) u(3,4) by (simp add: starter_def)
    from in_time_item [OF time this 3(2) u(5)] show ?thesis using 3(1) since by simp
  qed
  with q show ?thesis using qs u(2) by (intro deadline_invI [of u js "cs @ xs"]) auto
qed

lemma deadline_order:
  assumes wf: "luna_wf C s" and cons: "q (qw s) = c # cs" and qs: "\<forall>y \<in> set (c # cs). order_item y"
    and time: "in_time C d m [] (unat (clock E s)) s"
    and out: "worker_step (luna_visit E C) s = Inr t"
    and u: "q (qw u) = q (qw t) @ xs" "\<forall>y \<in> set xs. order_item y" "burn_on u = burn_on t"
      "start_time_nitr u = start_time_nitr t" "unat (clock E u) \<le> unat (clock E s) + d"
  shows "deadline_inv E C d (orders_since (fst (poll (qw s))) m) u"
proof -
  note v = round_takes [OF wf cons out]
  have c: "order_item c" using qs by simp
  have "vis_wf (s\<lparr>qw := (qw s)\<lparr>q := cs\<rparr>\<rparr>)" using v(2) by (simp add: luna_wf_def)
  from luna_order_visit [OF this c v(1)] obtain ds where ds: "q (qw t) = cs @ ds" "\<forall>y \<in> set ds. order_item y" by auto
  have "\<not> starter c" using c by (auto simp: starter_def order_item_def)
  then have "orders_since (fst (poll (qw s))) m = Suc m" "burn_on u \<Longrightarrow> burn_on s \<and> start_time_nitr u = start_time_nitr s"
    using v(4,5) c u(3,4) by (simp_all add: orders_since_def)
  with in_time_order [OF time _ u(5), of u]
  have "in_time C d (orders_since (fst (poll (qw s))) m) [] (unat (clock E u)) u" by simp
  then show ?thesis
    using ds qs u(1,2) by (intro deadline_invI [of u "[]" "cs @ ds @ xs"]) auto
qed

lemma deadline_idle:
  assumes wf: "luna_wf C s" and burn: "burn_inv C s" and empty: "q (qw s) = []"
    and time: "in_time C d m [] (unat (clock E s)) s"
    and out: "worker_step (luna_visit E C) s = Inr t"
    and u: "q (qw u) = q (qw t) @ xs" "\<forall>y \<in> set xs. order_item y" "burn_on u = burn_on t"
      "start_time_nitr u = start_time_nitr t" "unat (clock E u) \<le> unat (clock E s) + d"
  shows "deadline_inv E C d (orders_since (fst (poll (qw s))) m) u"
proof -
  have vw: "vis_wf s" using wf by (simp add: luna_wf_def)
  then have poll: "poll (qw s) = (null_wqi, qw s)" using empty by (simp add: poll_def vis_wf_defs)
  define js where "js = filter (\<lambda>i. enabled (ti_at i s)
    \<and> unat (scheduled (ti_at i s)) + unat (time_delay (ti_at i s)) < unat (clock E s)) [0..<13]"
  from idle_round [OF vw empty, of E luna_visitProc "luna_visitTimed E C" "worker_visitIgn E C"] out
  have t: "q (qw t) = map timed_wqi js" "burn_on t = burn_on s"
    by (auto simp: luna_visit_def js_def clock_def)
  have step: "luna_visit E C null_wqi s = Inr t" using out poll by (simp add: worker_step_def)
  have "wqi_ok null_wqi" "\<not> starter null_wqi" by (simp_all add: wqi_ok_def starter_def null_wqi_def)
  then have kept: "burn_on u \<Longrightarrow> burn_on s \<and> start_time_nitr u = start_time_nitr s"
    using luna_visit_burn [OF wf _ step] u(3,4) by simp
  have js: "distinct js" "\<forall>j \<in> set js. j < 13" by (auto simp: js_def)
  have "unat (clock E s) \<le> unat (start_time_nitr s) + hotflow C" if "burn_on s" "11 \<notin> set js"
    using that burn by (auto simp: js_def burn_inv_def hotflow_def til_item_at [of ign3 11])
  from in_time_idle [OF time kept u(5) table_length [OF js] this]
  have "in_time C d m js (unat (clock E u)) u" by simp
  moreover have "orders_since (fst (poll (qw s))) m = m"
    using poll by (simp add: orders_since_def starter_def order_item_def null_wqi_def)
  ultimately show ?thesis using t(1) u(1,2) js by (intro deadline_invI [of u js xs]) auto
qed

lemma deadline_round:
  assumes wf: "luna_wf C s" and burn: "burn_inv C s" and inv: "deadline_inv E C d m s"
    and out: "worker_step (luna_visit E C) s = Inr t"
    and u: "q (qw u) = q (qw t) @ xs" "\<forall>y \<in> set xs. order_item y" "burn_on u = burn_on t"
      "start_time_nitr u = start_time_nitr t" "unat (clock E u) \<le> unat (clock E s) + d"
  shows "deadline_inv E C d (orders_since (fst (poll (qw s))) m) u"
proof -
  obtain js cs where qs: "q (qw s) = map timed_wqi js @ cs" "distinct js" "\<forall>j \<in> set js. j < 13"
    "\<forall>y \<in> set cs. order_item y" and time: "in_time C d m js (unat (clock E s)) s"
    using inv unfolding deadline_inv_def by blast
  consider (item) i js' where "js = i # js'" | (order) c cs' where "js = []" "cs = c # cs'" | (idle) "js = []" "cs = []"
    by (meson neq_Nil_conv)
  then show ?thesis
  proof cases
    case (item i js')
    with qs time show ?thesis by (intro deadline_timed [OF wf _ _ _ _ _ out u]) simp_all
  next
    case (order c cs')
    with qs time show ?thesis by (intro deadline_order [OF wf _ _ _ out u]) simp_all
  next
    case idle
    with qs time show ?thesis by (intro deadline_idle [OF wf burn _ _ out u]) simp_all
  qed
qed

text \<open>A state to start from: nothing queued, and no burn that is late already. The state that \<open>main\<close> starts is one.\<close>

definition on_time :: "env \<Rightarrow> config \<Rightarrow> 'a luna_visitor_scheme \<Rightarrow> bool" where
  "on_time E C s \<longleftrightarrow> luna_wf C s \<and> timeout (nw s) = 0 \<and> burn_inv C s \<and> q (qw s) = []
     \<and> (burn_on s \<longrightarrow> unat (clock E s) \<le> unat (start_time_nitr s) + hotflow C)"

lemma main_on_time:
  assumes "main_program E po j8_24 m junk argv = Inr (Luna_runs C s)" and "config_ok C"
  shows "on_time E C s" and "0 \<le> hotflow_us C" and "hotflow_us C \<le> INT_MAX"
  using main_luna_start [OF assms] main_program_cases [OF assms(1)] by (simp_all add: luna_start_def on_time_def)

lemma paced_run_inv:
  assumes "paced_run E C udp d s0 m s" and "on_time E C s0" and "missing_return E \<noteq> None"
  shows "luna_wf C s \<and> timeout (nw s) = 0 \<and> burn_inv C s \<and> deadline_inv E C d m s"
  using assms(1)
proof (induction rule: paced_run.induct)
  case paced_start
  have "deadline_inv E C d 0 s0"
    using assms(2) by (intro deadline_invI [of s0 "[]" "[]"]) (auto simp: on_time_def in_time_def)
  with assms(2) show ?case by (simp add: on_time_def)
next
  case (paced_round m s t u)
  then have s: "luna_wf C s" "timeout (nw s) = 0" "burn_inv C s" "deadline_inv E C d m s" by simp_all
  obtain t' where "worker_step (luna_visit E C) s = Inr t'" "luna_wf C t'" "nw t' = nw s"
    by (rule luna.worker_round_ok [OF s(1)])
  then have t: "luna_wf C t" "timeout (nw t) = 0" using paced_round.hyps(2) s(2) by simp_all
  have "burn_inv C t" by (rule luna_round_burn_inv [OF s(1,3) paced_round.hyps(2)])
  moreover from paced_network_inv [OF paced_round.hyps(3) luna.ok_net_ok [OF t] assms(3)]
  obtain xs where next_u: "net_next t u" "net_ok u" and
    xs: "q (qw u) = q (qw t) @ xs" "list_all (\<lambda>x. wqi_action x = wq_process) xs"
    by (auto simp: net_inv_def)
  from next_u(1) have same: "burn_on u = burn_on t" "start_time_nitr u = start_time_nitr t" "ti_list u = ti_list t"
    by (auto simp: net_next_def)
  ultimately have "burn_inv C u" by (simp add: burn_inv_def)
  have "\<forall>y \<in> set xs. order_item y" using xs paced_round.hyps(6) by (auto simp: order_item_def list_all_iff)
  from deadline_round [OF s(1,3,4) paced_round.hyps(2) xs(1) this same(1,2) paced_round.hyps(5)]
  have "deadline_inv E C d (orders_since (fst (poll (qw s))) m) u" .
  moreover obtain ys zs n tr where "u = t\<lparr>qw := (qw t)\<lparr>q := ys\<rparr>, qn := (qn t)\<lparr>q := zs\<rparr>, nw := n, trace := tr\<rparr>"
    "list_all wqi_ok ys" "list_all (nqi_ok (length (heap t))) zs" "timeout n = 0"
    by (rule net_next_ok [OF next_u])
  then have "luna_wf C u" "timeout (nw u) = 0" using luna.ok_network [OF t(1)] by simp_all
  ultimately show ?case using \<open>burn_inv C u\<close> by simp
qed

section \<open>Properties\<close>


text \<open>A burn of two seconds that is on for one, and one more round of the worker.\<close>

definition burning_luna :: luna_visitor where
  "burning_luna = sample_luna\<lparr>burn_on := True, start_time_nitr := 0,
     ti_list := til_upd ign3 (\<lambda>x. x\<lparr>enabled := True, scheduled := 0, time_delay := 2000000\<rparr>) sample_til\<rparr>"

lemma burning_luna_ok: "on_time late_env (sample_config\<lparr>hotflow_us := 2000000\<rparr>) burning_luna"
proof -
  let ?C = "sample_config\<lparr>hotflow_us := 2000000\<rparr>"
  have "vis_wf (sample_luna\<lparr>ti_list := (ti_list sample_luna)\<lparr>tis := (tis (ti_list sample_luna))
      [11 := (\<lambda>x. x\<lparr>enabled := True, scheduled := 0, time_delay := 2000000\<rparr>) (tis (ti_list sample_luna) ! 11)]\<rparr>\<rparr>)"
    using sample_luna_wf by (intro vis_wf_update_item) (simp_all add: luna_wf_def harmless_def)
  then have "luna_wf ?C burning_luna"
    using sample_luna_wf
    by (simp add: burning_luna_def luna_wf_def vis_wf_defs til_upd_def til_item_def config_ok_def count_ok_def)
  moreover have "til_wf sample_til" using sample_luna_wf by (simp add: luna_wf_def vis_wf_def)
  ultimately show ?thesis
    by (simp add: on_time_def burning_luna_def burn_inv_def stage_items hotflow_def clock_def
      get_time_value usecs_def late_env_def sample_network_def safe_queue_new_def)
qed


end
