(* ===== verification/Offline.thy ===== *)
theory Offline
  imports MainProgram Commands
begin

text \<open>
  The constructor of the network worker leaves \<open>connected\<close> as it finds it, and \<open>main\<close> builds the worker on the
  stack. Where the byte it finds there is not zero, the thread takes the connection for open and never waits for a client.
\<close>

section \<open>The worker that main builds\<close>

lemma first_process_connection:
  "connected (nw (first_process E m junk p tr)) = connected m \<and> connfd_tcp (nw (first_process E m junk p tr)) = -1"
  by (simp add: first_process_def network_worker_new_def split: prod.split)

text \<open>A run of \<open>main\<close> that starts the threads of a Luna hands its process over to the visitor.\<close>

lemma start_hardware_luna:
  assumes "start_hardware E j8_24 m junk C p tr = Inr (Luna_runs D s)"
  shows "\<exists>tr'. luna_visitor_new D junk (first_process E m junk p tr') = Inr s"
  using assms
  by (auto simp: start_hardware_def start_threads_def Let_def split: if_splits sum.splits prod.splits)

lemma main_program_luna:
  assumes "main_program E po j8_24 m junk argv = Inr (Luna_runs C s)"
  obtains p tr where "luna_visitor_new C junk (first_process E m junk p tr) = Inr s"
  using assms start_hardware_luna
  by (fastforce simp: main_program_def split: if_splits option.splits sum.splits)

lemma luna_visitor_new_nw:
  assumes "luna_visitor_new C junk (first_process E m junk' p tr) = Inr s"
  shows "nw s = nw (first_process E m junk' p tr)"
proof -
  define s0 where "s0 = first_process E m junk' p tr"
  note ok = first_process_ok(1,2) [OF s0_def [symmetric]]
  obtain v where v: "worker_visitor_new C junk s0 = Inr v" "nw v = nw s0"
    using worker_visitor_new_ok [OF ok, of C junk] by metis
  with assms show ?thesis
    by (auto simp: luna_visitor_new_def worker_visitor.defs luna_visitor.defs simp flip: s0_def)
qed

section \<open>No client\<close>

text \<open>The worker does not touch the connection, so under any interleaving it stays cut off.\<close>

lemma luna_worker_received:
  assumes "worker_step (luna_visit E C) s = Inr t"
  shows "received (trace t) = received (trace s)"
proof -
  obtain item qw' where p: "poll (qw s) = (item, qw')" by (meson surj_pair)
  then have "luna_visit E C item (s\<lparr>qw := qw'\<rparr>) = Inr t" using assms by (simp add: worker_step_def)
  then have "cmd_view t = cmd_view (s\<lparr>qw := qw'\<rparr>)" by (rule preservesD [OF luna_commands_kept.luna])
  then show ?thesis by (simp add: cmd_view_def)
qed

lemma cut_off_run:
  assumes "(sys_step (luna_visit E C) E udp)\<^sup>*\<^sup>* s s'"
    and s: "luna_wf C s" "timeout (nw s) = 0" "cut_off E (nw s)" and ret: "missing_return E \<noteq> None"
  shows "luna_wf C s' \<and> timeout (nw s') = 0 \<and> cut_off E (nw s') \<and> received (trace s') = received (trace s)"
  using assms(1)
proof (induction rule: rtranclp_induct)
  case base
  with s show ?case by simp
next
  case (step t u)
  then have t: "luna_wf C t" "timeout (nw t) = 0" "cut_off E (nw t)" "received (trace t) = received (trace s)" by simp_all
  have u: "luna_wf C u" "timeout (nw u) = 0"
    using luna_run_safe [OF _ t(1,2)] step(2) by blast+
  from step(2) have "cut_off E (nw u) \<and> received (trace u) = received (trace t)"
  proof (rule sys_stepE)
    assume w: "worker_step (luna_visit E C) t = Inr u"
    obtain v where "worker_step (luna_visit E C) t = Inr v" "nw v = nw t" by (rule luna.worker_round_ok [OF t(1)])
    with w t(3) luna_worker_received [OF w] show ?thesis by simp
  next
    fix junk assume "network_step E udp junk t = Inr u"
    from dead_step [OF luna.ok_net_ok [OF t(1,2)] ret t(3) this] show ?thesis by (simp add: still_dead_def)
  qed
  with u t(4) show ?case by simp
qed

section \<open>Property\<close>

text \<open>
  C37. An uninitialised flag can keep the controller off line. If the memory in which \<open>main\<close> builds the network worker
  holds a set flag where \<open>connected\<close> comes to lie, then under every interleaving of the two threads of a Luna the
  connection is taken for open with descriptor -1: no client is ever accepted, not a byte is received, and the worker never has a
  command to carry out.
\<close>

theorem uninitialised_flag_cuts_off:
  assumes "main_program E po j8_24 m junk argv = Inr (Luna_runs C s)" and "config_ok C"
    and "missing_return E \<noteq> None" and "unreadable E" and "connected m"
    and "command_run (luna_visit E C) E udp s cs s'"
  shows "connected (nw s') \<and> connfd_tcp (nw s') = -1 \<and> received (trace s') = received (trace s) \<and> cs = []"
proof -
  have s: "luna_wf C s" "timeout (nw s) = 0" "q (qw s) = []"
    using main_program_cases [OF assms(1)] assms(2) by (simp_all add: luna_start_def)
  obtain p tr where "luna_visitor_new C junk (first_process E m junk p tr) = Inr s"
    by (rule main_program_luna [OF assms(1)])
  from luna_visitor_new_nw [OF this] have "cut_off E (nw s)"
    using first_process_connection assms(4,5) by (simp add: cut_off_def)
  note run = cut_off_run [OF command_run_sys [OF assms(6)] s(1,2) this assms(3)]
  moreover obtain new where "received (trace s') = received (trace s) @ new"
    "commands (q (qw s)) @ new = cs @ commands (q (qw s'))"
    using luna_cmd.commands_run [OF assms(6) s(1,2) assms(3)] by (auto simp: luna_cmd.delivered_def)
  ultimately show ?thesis using s(3) by (simp add: cut_off_def)
qed

text \<open>An outside in which every read fails, and memory with the flag set.\<close>

definition deaf_env :: env where
  "deaf_env = sample_env\<lparr>env_read := \<lambda>tr fd n. None\<rparr>"

theorem uninitialised_flag_cuts_off_witness:
  "\<exists>C s s'. main_program deaf_env coldflow_ini RPI_V2_GPIO_P1_24 (sample_network\<lparr>connected := True\<rparr>) (\<lambda>a i. 0)
       [''final'', ''coldflow.ini''] = Inr (Luna_runs C s)
     \<and> worker_step (luna_visit deaf_env C) s = Inr s' \<and> connected (nw s') \<and> connfd_tcp (nw s') = -1"
proof -
  let ?C = "(ini_globals coldflow_config)\<lparr>preignite_us := 750000, hotflow_us := 2000000\<rparr>"
  let ?m = "sample_network\<lparr>connected := True\<rparr>"
  obtain s where s: "main_program deaf_env coldflow_ini RPI_V2_GPIO_P1_24 ?m (\<lambda>a i. 0)
      [''final'', ''coldflow.ini''] = Inr (Luna_runs ?C s)"
    using main_starts [of "[''final'', ''coldflow.ini'']" coldflow_ini coldflow_config deaf_env
        RPI_V2_GPIO_P1_24 ?m "\<lambda>a i. 0"] init_config_coldflow
    by (auto simp: coldflow_config_def deaf_env_def sample_env_def)
  have C: "config_ok ?C" by (simp add: config_ok_def coldflow_config_def INT_MAX_def)
  then have "luna_wf ?C s" using main_program_cases [OF s] by (simp add: luna_start_def)
  then obtain s' where s': "worker_step (luna_visit deaf_env ?C) s = Inr s'"
    using luna.worker_round_ok by blast
  have env: "missing_return deaf_env \<noteq> None" "unreadable deaf_env"
    by (simp_all add: deaf_env_def sample_env_def unreadable_def)
  from uninitialised_flag_cuts_off [OF s C env _ run_worker [OF run_start s']] s s' show ?thesis by auto
qed

end
