(* ===== verification/Threads.thy ===== *)
theory Threads
  imports MainProgram EchoServer Samplers
begin

text \<open>
  \<open>src/server/worker.hpp\<close>, the base class of every worker, with \<open>final/main_worker.hpp\<close> and the last lines of
  the mains, which start the two threads and wait for them; and \<open>visitor/network_visitor.hpp\<close>, an interface to
  the items of the network queue that no class implements yet.
\<close>

section \<open>Workers\<close>

text \<open>
  How \<open>std::thread\<close> ends a program: an assignment to a thread that still runs, and the destruction of one, call
  \<open>std::terminate\<close>; joining one that does not run throws \<open>std::system_error\<close>.
\<close>

datatype thread_stop = Terminated | Not_joinable

text \<open>\<open>t_main\<close> is the method the thread runs, if it was started; the two queues belong to the process.\<close>

record 'm worker =
  t_main :: "'m option"

definition worker_new :: "'m worker" where
  "worker_new = \<lparr>t_main = None\<rparr>"

definition worker_start :: "'m \<Rightarrow> ('m, 'a) worker_scheme \<Rightarrow> thread_stop + ('m, 'a) worker_scheme" where
  "worker_start m w = (case t_main w of None \<Rightarrow> Inr (w\<lparr>t_main := Some m\<rparr>) | Some _ \<Rightarrow> Inl Terminated)"

text \<open>\<open>join\<close> blocks until the method has returned: while it has not, \<open>wait\<close> does not return, which is \<open>None\<close>.\<close>

definition worker_wait :: "('m \<Rightarrow> bool) \<Rightarrow> ('m, 'a) worker_scheme \<Rightarrow> (thread_stop + ('m, 'a) worker_scheme) option" where
  "worker_wait returned w =
     (case t_main w of
        None \<Rightarrow> Some (Inl Not_joinable)
      | Some m \<Rightarrow> if returned m then Some (Inr (w\<lparr>t_main := None\<rparr>)) else None)"

definition worker_destroy :: "('m, 'a) worker_scheme \<Rightarrow> thread_stop + unit" where
  "worker_destroy w = (if t_main w = None then Inr () else Inl Terminated)"

text \<open>The worker of the controller: an address of a ring it never uses, the ADCs and the visitor.\<close>

record ('m, 'v) main_worker = "'m worker" +
  mw_buff :: nat
  mw_adcs :: adc_block
  mw_wqv :: 'v

definition main_worker_new :: "nat \<Rightarrow> adc_block \<Rightarrow> 'v \<Rightarrow> ('m, 'v) main_worker" where
  "main_worker_new b adcs v = worker.extend worker_new (main_worker.fields b adcs v)"

definition main_worker_start :: "'m \<Rightarrow> ('m, 'v) main_worker \<Rightarrow> thread_stop + ('m, 'v) main_worker" where
  "main_worker_start = worker_start"

definition main_worker_stop :: "('m, 'v) main_worker \<Rightarrow> ('m, 'v) main_worker" where
  "main_worker_stop w = w"

text \<open>
  The workers of the other programs. That of the echo server drops the ring it is given; that of the counter keeps it.
\<close>

type_synonym 'm echo_worker = "'m worker"

definition echo_worker_new :: "nat \<Rightarrow> 'm echo_worker" where
  "echo_worker_new buff = worker_new"

definition echo_worker_start :: "'m \<Rightarrow> 'm echo_worker \<Rightarrow> thread_stop + 'm echo_worker" where
  "echo_worker_start = worker_start"

definition echo_worker_stop :: "'m echo_worker \<Rightarrow> 'm echo_worker" where
  "echo_worker_stop w = w"

record 'm counter_worker = "'m worker" +
  cw_buff :: nat

definition counter_worker_new :: "nat \<Rightarrow> 'm counter_worker" where
  "counter_worker_new b = worker.extend worker_new (counter_worker.fields b)"

definition counter_worker_start :: "'m \<Rightarrow> 'm counter_worker \<Rightarrow> thread_stop + 'm counter_worker" where
  "counter_worker_start = worker_start"

definition counter_worker_stop :: "'m counter_worker \<Rightarrow> 'm counter_worker" where
  "counter_worker_stop w = w"

text \<open>
  The network workers: all three are built by the constructor of their base class, without a timeout, and that of the
  controller keeps a ring besides.
\<close>

definition network_worker_stop :: "'a network_worker_scheme \<Rightarrow> 'a network_worker_scheme" where
  "network_worker_stop n = n"

definition network_echo_worker_new ::
    "env \<Rightarrow> network_worker \<Rightarrow> int \<Rightarrow> timestamp_t \<Rightarrow> event list \<Rightarrow> network_worker \<times> event list" where
  "network_echo_worker_new E m p base tr = network_worker_new E m p base tr"

definition network_counter_worker_new ::
    "env \<Rightarrow> network_worker \<Rightarrow> int \<Rightarrow> timestamp_t \<Rightarrow> event list \<Rightarrow> network_worker \<times> event list" where
  "network_counter_worker_new E m p base tr = network_worker_new E m p base tr"

record main_network_worker = network_worker +
  mnw_buff :: nat

definition main_network_worker_new ::
    "env \<Rightarrow> network_worker \<Rightarrow> int \<Rightarrow> timestamp_t \<Rightarrow> event list \<Rightarrow> nat \<Rightarrow> main_network_worker \<times> event list" where
  "main_network_worker_new E m p base tr b =
     (case network_worker_new E m p base tr of
        (n, tr) \<Rightarrow> (network_worker.extend n (main_network_worker.fields b), tr))"

text \<open>
  The state the threads start on holds the network worker that \<open>main\<close> constructs, but for its ring, at
  address 0 of the heap, which no method uses. The port is an \<open>unsigned\<close> in \<open>main\<close> and an \<open>int\<close> in the constructor.
\<close>

lemma first_process_network_worker:
  assumes "set_base_time E 0 tr = (base, tr1)" and "main_network_worker_new E m (int_of_unsigned p) base tr1 b = (n, tr2)"
  shows "nw (first_process E m junk p tr) = network_worker.truncate n"
    and "trace (first_process E m junk p tr) = tr2" and "mnw_buff n = b"
  using assms
  by (auto simp: first_process_def main_network_worker_new_def network_worker.defs main_network_worker.defs
    split: prod.splits)

text \<open>A worker that \<open>main\<close> has built is idle, and can be started once.\<close>

lemma new_workers_idle:
  "t_main (main_worker_new b adcs v) = None" "t_main (echo_worker_new b) = None" "t_main (counter_worker_new b) = None"
  by (simp_all add: main_worker_new_def echo_worker_new_def counter_worker_new_def worker_new_def worker.defs
    main_worker.defs counter_worker.defs)

section \<open>The end of main\<close>

datatype main_thread = Network_thread | Worker_thread

text \<open>\<open>nw.start(); cw.start(); nw.wait(); cw.wait();\<close>\<close>

definition main_threads ::
    "(main_thread \<Rightarrow> bool) \<Rightarrow> (main_thread, 'a) worker_scheme \<Rightarrow> (main_thread, 'b) worker_scheme
     \<Rightarrow> (thread_stop + (main_thread, 'a) worker_scheme \<times> (main_thread, 'b) worker_scheme) option" where
  "main_threads returned n w =
     (case worker_start Network_thread n of
        Inl e \<Rightarrow> Some (Inl e)
      | Inr n \<Rightarrow>
          (case worker_start Worker_thread w of
             Inl e \<Rightarrow> Some (Inl e)
           | Inr w \<Rightarrow>
               (case worker_wait returned n of
                  None \<Rightarrow> None
                | Some (Inl e) \<Rightarrow> Some (Inl e)
                | Some (Inr n) \<Rightarrow>
                    map_option (map_sum id (\<lambda>w. (n, w))) (worker_wait returned w))))"

text \<open>
  On two new workers it ends neither way: it returns when both methods have returned and waits otherwise, and
  what it leaves behind can be destroyed. The methods of all workers are endless loops, so
  their mains only end by \<open>exit\<close>.
\<close>

lemma main_threads_new:
  assumes "t_main n = None" and "t_main w = None"
  shows "main_threads returned n w =
    (if returned Network_thread \<and> returned Worker_thread then Some (Inr (n, w)) else None)"
  using assms by (simp add: main_threads_def worker_start_def worker_wait_def)

lemma main_threads_destroy:
  assumes "t_main n = None" and "t_main w = None" and "main_threads returned n w = Some r"
  shows "\<exists>n' w'. r = Inr (n', w') \<and> worker_destroy n' = Inr () \<and> worker_destroy w' = Inr ()"
  using assms by (auto simp: main_threads_new worker_destroy_def split: if_splits)

text \<open>Waiting for a worker that was not started, or starting it twice, would end the program.\<close>

lemma worker_misuse:
  "worker_wait returned worker_new = Some (Inl Not_joinable)"
  "worker_start m w = Inr w' \<Longrightarrow> worker_start m' w' = Inl Terminated"
  by (auto simp: worker_wait_def worker_start_def worker_new_def split: option.splits)

section \<open>The visitor of network items\<close>

text \<open>Its virtual methods, and the method that chooses among them.\<close>

record 's network_queue_visitor =
  nv_recv :: "network_queue_item \<Rightarrow> 's \<Rightarrow> error + (bool \<times> 's)"
  nv_ack :: "network_queue_item \<Rightarrow> 's \<Rightarrow> error + (bool \<times> 's)"
  nv_send :: "network_queue_item \<Rightarrow> 's \<Rightarrow> error + (bool \<times> 's)"
  nv_none :: "network_queue_item \<Rightarrow> 's \<Rightarrow> error + (bool \<times> 's)"
  nv_default :: "network_queue_item \<Rightarrow> 's \<Rightarrow> error + (bool \<times> 's)"

definition network_visit :: "'s network_queue_visitor \<Rightarrow> network_queue_item \<Rightarrow> 's \<Rightarrow> error + (bool \<times> 's)" where
  "network_visit v item =
     (case nqi_action item of
        nq_recv \<Rightarrow> nv_recv v item
      | nq_send_ack \<Rightarrow> nv_ack v item
      | nq_send \<Rightarrow> nv_send v item
      | nq_none \<Rightarrow> nv_none v item)"

text \<open>The three network workers are instances of it, with the parts they have in common.\<close>

definition base_visitor :: "env \<Rightarrow> bool \<Rightarrow> 'a process_scheme network_queue_visitor" where
  "base_visitor E udp = \<lparr>nv_recv = base_process_nqi E udp, nv_ack = base_process_nqi E udp,
     nv_send = base_process_nqi E udp, nv_none = base_process_nqi E udp, nv_default = base_process_nqi E udp\<rparr>"

lemma process_nqi_visit:
  "process_nqi E udp junk item s = network_visit ((base_visitor E udp)
     \<lparr>nv_recv := \<lambda>_. recv_command E junk, nv_send := send_item E,
      nv_ack := \<lambda>_ s. case missing_return E of None \<Rightarrow> Inl Undefined | Some v \<Rightarrow> Inr (v \<noteq> 0, s)\<rparr>) item s"
  by (simp add: process_nqi_def network_visit_def base_visitor_def split: network_queue_item_action.split)

lemma echo_process_nqi_visit:
  "echo_process_nqi E udp junk item s = network_visit ((base_visitor E udp)
     \<lparr>nv_recv := \<lambda>_. recv_command E junk, nv_send := echo_send E\<rparr>) item s"
  by (simp add: echo_process_nqi_def network_visit_def base_visitor_def split: network_queue_item_action.split)

lemma counter_process_nqi_visit:
  "counter_process_nqi E connfd udp junk item s = network_visit ((base_visitor E udp)
     \<lparr>nv_recv := \<lambda>_. counter_recv E connfd junk, nv_send := counter_send E connfd\<rparr>) item s"
  by (simp add: counter_process_nqi_def network_visit_def base_visitor_def split: network_queue_item_action.split)

end
