(* ===== verification/Logger.thy ===== *)
theory Logger
  imports Timestamps
begin

text \<open>
  \<open>src/util/logger.hpp\<close> and \<open>.cpp\<close>: the text logger. A message of at least the logger's level becomes one
  line, appended to the log file and printed; nothing in the program reads either back. The handlers
  of the two threads are modelled without their calls.
\<close>

section \<open>State\<close>

datatype LOG_LEVEL = LOG_DEBUG_VERBOSE | LOG_DEBUG | LOG_INFO | LOG_WARNING | LOG_ERROR

primrec log_code :: "LOG_LEVEL \<Rightarrow> nat" where
  "log_code LOG_DEBUG_VERBOSE = 0"
| "log_code LOG_DEBUG = 1"
| "log_code LOG_INFO = 2"
| "log_code LOG_WARNING = 3"
| "log_code LOG_ERROR = 4"

lemma log_code_inj [simp]: "log_code a = log_code b \<longleftrightarrow> a = b"
  by (cases a; cases b) simp_all

instantiation LOG_LEVEL :: linorder
begin

definition less_eq_LOG_LEVEL :: "LOG_LEVEL \<Rightarrow> LOG_LEVEL \<Rightarrow> bool" where
  "less_eq_LOG_LEVEL a b \<longleftrightarrow> log_code a \<le> log_code b"

definition less_LOG_LEVEL :: "LOG_LEVEL \<Rightarrow> LOG_LEVEL \<Rightarrow> bool" where
  "less_LOG_LEVEL a b \<longleftrightarrow> log_code a < log_code b"

instance
  by standard (auto simp: less_eq_LOG_LEVEL_def less_LOG_LEVEL_def)

end

record logger =
  lg_logfile :: string
  lg_name :: string
  lg_level :: LOG_LEVEL

definition logger_new :: "string \<Rightarrow> string \<Rightarrow> LOG_LEVEL \<Rightarrow> logger" where
  "logger_new file name level = \<lparr>lg_logfile = file, lg_name = name, lg_level = level\<rparr>"

text \<open>
  What a logger acts on: the contents of the files and the output so far. Which files can be opened is
  the environment's; output to a stream whose file did not open is lost.
\<close>

record log_world =
  lw_files :: "string \<Rightarrow> string"
  lw_stdout :: string

section \<open>Operations\<close>

text \<open>\<open>std::to_string\<close> of an unsigned number.\<close>

fun to_string :: "nat \<Rightarrow> string" where
  "to_string n = (if n < 10 then [char_of (48 + n)] else to_string (n div 10) @ [char_of (48 + n mod 10)])"

primrec label :: "LOG_LEVEL \<Rightarrow> string" where
  "label LOG_DEBUG_VERBOSE = ''DEBUGV: ''"
| "label LOG_DEBUG = ''DEBUG: ''"
| "label LOG_INFO = ''INFO: ''"
| "label LOG_WARNING = ''WARNING: ''"
| "label LOG_ERROR = ''ERROR: ''"

definition newline :: string where
  "newline = [char_of (10 :: nat)]"

definition log_line :: "string \<Rightarrow> LOG_LEVEL \<Rightarrow> timestamp_t \<Rightarrow> string \<Rightarrow> string" where
  "log_line name level t message =
     label level @ name @ '' ['' @ to_string (unat t) @ ''] '' @ message @ newline"

definition log_message_at ::
    "(string \<Rightarrow> bool) \<Rightarrow> logger \<Rightarrow> string \<Rightarrow> LOG_LEVEL \<Rightarrow> timestamp_t \<Rightarrow> log_world \<Rightarrow> log_world" where
  "log_message_at openable lg message level t w =
     (if level < lg_level lg then w
      else
        let line = log_line (lg_name lg) level t message;
            f = lg_logfile lg;
            w = (if openable f then w\<lparr>lw_files := (lw_files w)(f := lw_files w f @ line)\<rparr> else w)
        in w\<lparr>lw_stdout := lw_stdout w @ line\<rparr>)"

text \<open>Without a time, the clock is read, whether the message is kept or not.\<close>

definition log_message ::
    "env \<Rightarrow> timestamp_t \<Rightarrow> (string \<Rightarrow> bool) \<Rightarrow> logger \<Rightarrow> string \<Rightarrow> LOG_LEVEL \<Rightarrow> log_world \<times> event list
     \<Rightarrow> log_world \<times> event list" where
  "log_message E base openable lg message level s =
     (case s of (w, tr) \<Rightarrow>
        case get_time E base tr of (t, tr) \<Rightarrow> (log_message_at openable lg message level t w, tr))"

definition debugv_at :: "(string \<Rightarrow> bool) \<Rightarrow> logger \<Rightarrow> string \<Rightarrow> timestamp_t \<Rightarrow> log_world \<Rightarrow> log_world" where
  "debugv_at openable lg message = log_message_at openable lg message LOG_DEBUG_VERBOSE"

definition debug_at :: "(string \<Rightarrow> bool) \<Rightarrow> logger \<Rightarrow> string \<Rightarrow> timestamp_t \<Rightarrow> log_world \<Rightarrow> log_world" where
  "debug_at openable lg message = log_message_at openable lg message LOG_DEBUG"

definition info_at :: "(string \<Rightarrow> bool) \<Rightarrow> logger \<Rightarrow> string \<Rightarrow> timestamp_t \<Rightarrow> log_world \<Rightarrow> log_world" where
  "info_at openable lg message = log_message_at openable lg message LOG_INFO"

definition warn_at :: "(string \<Rightarrow> bool) \<Rightarrow> logger \<Rightarrow> string \<Rightarrow> timestamp_t \<Rightarrow> log_world \<Rightarrow> log_world" where
  "warn_at openable lg message = log_message_at openable lg message LOG_WARNING"

definition error_at :: "(string \<Rightarrow> bool) \<Rightarrow> logger \<Rightarrow> string \<Rightarrow> timestamp_t \<Rightarrow> log_world \<Rightarrow> log_world" where
  "error_at openable lg message = log_message_at openable lg message LOG_ERROR"

text \<open>The same with the current time.\<close>

definition debugv_now :: "env \<Rightarrow> timestamp_t \<Rightarrow> (string \<Rightarrow> bool) \<Rightarrow> logger \<Rightarrow> string \<Rightarrow> log_world \<times> event list \<Rightarrow> log_world \<times> event list" where
  "debugv_now E base openable lg message = log_message E base openable lg message LOG_DEBUG_VERBOSE"

definition debug_now :: "env \<Rightarrow> timestamp_t \<Rightarrow> (string \<Rightarrow> bool) \<Rightarrow> logger \<Rightarrow> string \<Rightarrow> log_world \<times> event list \<Rightarrow> log_world \<times> event list" where
  "debug_now E base openable lg message = log_message E base openable lg message LOG_DEBUG"

definition info_now :: "env \<Rightarrow> timestamp_t \<Rightarrow> (string \<Rightarrow> bool) \<Rightarrow> logger \<Rightarrow> string \<Rightarrow> log_world \<times> event list \<Rightarrow> log_world \<times> event list" where
  "info_now E base openable lg message = log_message E base openable lg message LOG_INFO"

definition warn_now :: "env \<Rightarrow> timestamp_t \<Rightarrow> (string \<Rightarrow> bool) \<Rightarrow> logger \<Rightarrow> string \<Rightarrow> log_world \<times> event list \<Rightarrow> log_world \<times> event list" where
  "warn_now E base openable lg message = log_message E base openable lg message LOG_WARNING"

definition error_now :: "env \<Rightarrow> timestamp_t \<Rightarrow> (string \<Rightarrow> bool) \<Rightarrow> logger \<Rightarrow> string \<Rightarrow> log_world \<times> event list \<Rightarrow> log_world \<times> event list" where
  "error_now E base openable lg message = log_message E base openable lg message LOG_ERROR"

declare to_string.simps [simp del]

section \<open>Numbers\<close>

text \<open>The digits of a number and nothing else; and back.\<close>

lemma to_string_digits: "c \<in> set (to_string n) \<Longrightarrow> \<exists>d < (10 :: nat). c = char_of (48 + d)"
proof (induction n rule: to_string.induct)
  case (1 n)
  then show ?case
    by (subst (asm) to_string.simps) (auto split: if_splits intro: exI [of _ "n mod 10"])
qed

definition read_digits :: "string \<Rightarrow> nat" where
  "read_digits cs = foldl (\<lambda>v c. 10 * v + (of_char c - 48)) 0 cs"

lemma read_to_string: "read_digits (to_string n) = n"
proof (induction n rule: to_string.induct)
  case (1 n)
  have d: "of_char (char_of (48 + d) :: char) - 48 = d" if "d < 10" for d :: nat
    using that by simp
  show ?case
    using "1.IH" d [of n] d [of "n mod 10"]
    by (subst to_string.simps) (simp add: read_digits_def)
qed

lemma no_bracket: "CHR '']'' \<notin> set (to_string n)"
proof
  assume "CHR '']'' \<in> set (to_string n)"
  then obtain d :: nat where d: "d < 10" "CHR '']'' = char_of (48 + d)" using to_string_digits by blast
  then have "of_char (CHR '']'') = (of_char (char_of (48 + d) :: char) :: nat)" by simp
  with d(1) show False by simp
qed

section \<open>Lines\<close>

text \<open>Up to the first bracket a list is determined by the whole.\<close>

lemma split_at_first: "c \<notin> set xs \<Longrightarrow> c \<notin> set ys \<Longrightarrow> xs @ c # us = ys @ c # vs \<Longrightarrow> xs = ys \<and> us = vs"
proof (induction xs arbitrary: ys)
  case Nil
  then show ?case by (cases ys) auto
next
  case (Cons x xs)
  then show ?case by (cases ys) auto
qed

lemma label_prefix: "label a @ xs = label b @ ys \<Longrightarrow> a = b \<and> xs = ys"
  by (cases a; cases b) simp_all

lemma log_line_inj:
  assumes "log_line name l t m = log_line name l' t' m'"
  shows "l = l' \<and> t = t' \<and> m = m'"
proof -
  have "l = l'" "name @ '' ['' @ to_string (unat t) @ ''] '' @ m @ newline = name @ '' ['' @ to_string (unat t') @ ''] '' @ m' @ newline"
    using label_prefix [OF assms [unfolded log_line_def]] by auto
  then have "to_string (unat t) @ CHR '']'' # '' '' @ m @ newline = to_string (unat t') @ CHR '']'' # '' '' @ m' @ newline"
    by simp
  from split_at_first [OF no_bracket no_bracket this] have "to_string (unat t) = to_string (unat t')" "m = m'" by simp_all
  moreover have "unat t = unat t'" using calculation(1) read_to_string by metis
  ultimately show ?thesis using \<open>l = l'\<close> by (simp add: word_unat_eq_iff)
qed

text \<open>A series of messages to one logger.\<close>

definition log_all ::
    "(string \<Rightarrow> bool) \<Rightarrow> logger \<Rightarrow> (LOG_LEVEL \<times> timestamp_t \<times> string) list \<Rightarrow> log_world \<Rightarrow> log_world" where
  "log_all openable lg = fold (\<lambda>(l, t, m). log_message_at openable lg m l t)"

lemma log_message_at_cases:
  assumes "openable (lg_logfile lg)"
  shows "l < lg_level lg \<Longrightarrow> log_message_at openable lg m l t w = w"
    and "\<not> l < lg_level lg \<Longrightarrow> log_message_at openable lg m l t w =
      w\<lparr>lw_files := (lw_files w)(lg_logfile lg := lw_files w (lg_logfile lg) @ log_line (lg_name lg) l t m),
        lw_stdout := lw_stdout w @ log_line (lg_name lg) l t m\<rparr>"
  using assms by (simp_all add: log_message_at_def Let_def)

lemma log_all_lines:
  assumes "openable (lg_logfile lg)"
  shows "log_all openable lg ms w =
    (let lines = concat (map (\<lambda>(l, t, m). log_line (lg_name lg) l t m) (filter (\<lambda>(l, t, m). lg_level lg \<le> l) ms))
     in w\<lparr>lw_files := (lw_files w)(lg_logfile lg := lw_files w (lg_logfile lg) @ lines), lw_stdout := lw_stdout w @ lines\<rparr>)"
proof (induction ms arbitrary: w)
  case Nil
  show ?case by (cases w) (auto simp: log_all_def Let_def)
next
  case (Cons x ms)
  obtain l t m where x: "x = (l, t, m)" by (cases x)
  have "log_all openable lg (x # ms) w = log_all openable lg ms (log_message_at openable lg m l t w)"
    by (simp add: log_all_def x)
  with Cons [of "log_message_at openable lg m l t w"] log_message_at_cases [of openable lg, OF assms, of l m t w] show ?case
    by (cases w; cases "l < lg_level lg") (auto simp: x Let_def not_less)
qed

section \<open>Properties\<close>

text \<open>
  C39. The log keeps exactly the messages of the logger's level and above: after any series of messages
  the log file and the output have grown by one line for each of them, in order, and no other file
  has changed; and a line tells the level, the time and the message, so that no two different messages
  of one logger look alike.
\<close>

theorem log_keeps_messages:
  assumes "openable (lg_logfile lg)"
  shows "\<exists>lines w'. log_all openable lg ms w = w'
    \<and> lines = map (\<lambda>(l, t, m). log_line (lg_name lg) l t m) (filter (\<lambda>(l, t, m). lg_level lg \<le> l) ms)
    \<and> lw_files w' (lg_logfile lg) = lw_files w (lg_logfile lg) @ concat lines
    \<and> lw_stdout w' = lw_stdout w @ concat lines
    \<and> (\<forall>f. f \<noteq> lg_logfile lg \<longrightarrow> lw_files w' f = lw_files w f)
    \<and> inj (\<lambda>(l, t, m). log_line (lg_name lg) l t m)"
proof -
  have "inj (\<lambda>(l, t, m). log_line (lg_name lg) l t m)"
    using log_line_inj [of "lg_name lg"] by (auto simp: inj_def)
  then show ?thesis using assms by (simp add: log_all_lines [of openable lg] Let_def)
qed

theorem log_keeps_messages_witness:
  "lw_stdout (log_all (\<lambda>f. True) (logger_new ''logs/nw.log'' ''nw'' LOG_INFO)
      [(LOG_INFO, 12, ''up''), (LOG_DEBUG, 13, ''busy''), (LOG_ERROR, 140, ''down'')]
      \<lparr>lw_files = \<lambda>f. [], lw_stdout = []\<rparr>)
    = ''INFO: nw [12] up'' @ newline @ ''ERROR: nw [140] down'' @ newline"
proof -
  have "to_string 12 = ''12''" "to_string 140 = ''140''"
    by (simp_all add: to_string.simps char_of_def bit_numeral_rec bit_Suc_0_iff)
  moreover have "(\<lambda>f :: string. True) (lg_logfile (logger_new ''logs/nw.log'' ''nw'' LOG_INFO))" by simp
  from log_keeps_messages [OF this, where ms = "[(LOG_INFO, 12, ''up''), (LOG_DEBUG, 13, ''busy''), (LOG_ERROR, 140, ''down'')]"
      and w = "\<lparr>lw_files = \<lambda>f. [], lw_stdout = []\<rparr>"]
  show ?thesis by (simp add: logger_new_def less_eq_LOG_LEVEL_def log_line_def calculation)
qed

end
