(* ===== verification/UdpTest.thy ===== *)
theory UdpTest
  imports Logger "HOL-Library.Sublist"
begin

text \<open>
  \<open>src/udp_test/server.c\<close> and \<open>client.c\<close>: a pair of C programs that try a TCP connection and a UDP socket side
  by side. The server greets the first datagram and then sends the number of its loop every 100000
  iterations; the client sends every word typed over TCP. Both keep their buffers on the stack and
  print them as C strings, so what is modelled with care is where they read and write. Their printed output and
  \<open>perror\<close> are left out; that a string to be printed has an end is not.
\<close>

section \<open>What they call\<close>

text \<open>
  Datagrams, \<open>select\<close> and the words typed: the answers of the outside. POSIX: \<open>recvfrom\<close> gives at most the
  bytes asked for, \<open>select\<close> only takes descriptors out of the sets and leaves them alone when it fails.
\<close>

record dgram_env =
  env_recvfrom :: "event list \<Rightarrow> int \<Rightarrow> nat \<Rightarrow> (byte list \<times> sockaddr_in) option"
  env_select :: "event list \<Rightarrow> int \<Rightarrow> int set \<Rightarrow> int set \<Rightarrow> (int set \<times> int set) option"
  env_scanf :: "event list \<Rightarrow> byte list option"

definition sys_recvfrom ::
    "dgram_env \<Rightarrow> int \<Rightarrow> nat \<Rightarrow> event list \<Rightarrow> int \<times> byte list \<times> sockaddr_in option \<times> event list" where
  "sys_recvfrom D fd n tr =
     (case env_recvfrom D tr fd n of
        None \<Rightarrow> (-1, [], None, tr @ [Sys_recvfrom fd [] (-1)])
      | Some (bs, a) \<Rightarrow>
          (let bs = take n bs; r = int (length bs) in (r, bs, Some a, tr @ [Sys_recvfrom fd bs r])))"

definition sys_select ::
    "dgram_env \<Rightarrow> int \<Rightarrow> int set \<Rightarrow> int set \<Rightarrow> event list \<Rightarrow> int set \<times> int set \<times> event list" where
  "sys_select D nfds r w tr =
     (case env_select D tr nfds r w of
        None \<Rightarrow> (r, w, tr @ [Sys_select (-1)])
      | Some (r', w') \<Rightarrow> (r \<inter> r', w \<inter> w', tr @ [Sys_select (int (card (r \<inter> r') + card (w \<inter> w')))]))"

text \<open>\<open>FD_SET\<close> and \<open>FD_ISSET\<close> are arrays of 1024 bits.\<close>

definition fd_in_range :: "int \<Rightarrow> bool" where
  "fd_in_range fd \<longleftrightarrow> 0 \<le> fd \<and> fd < 1024"

section \<open>Buffers and strings\<close>

text \<open>Bytes stored at an offset of an array, and the C string that starts there.\<close>

definition put_bytes :: "int \<Rightarrow> byte list \<Rightarrow> byte list \<Rightarrow> error + byte list" where
  "put_bytes off bs a =
     (if off < 0 \<or> length a < nat off + length bs then Inl Undefined
      else Inr (take (nat off) a @ bs @ drop (nat off + length bs) a))"

definition c_string :: "int \<Rightarrow> byte list \<Rightarrow> error + byte list" where
  "c_string off a =
     (if off < 0 \<or> 0 \<notin> set (drop (nat off) a) then Inl Undefined
      else Inr (takeWhile (\<lambda>b. b \<noteq> 0) (drop (nat off) a)))"

text \<open>\<open>printf\<close> of a string.\<close>

definition print_string :: "('s \<Rightarrow> int) \<Rightarrow> ('s \<Rightarrow> byte list) \<Rightarrow> 's \<Rightarrow> error + 's" where
  "print_string off a s = (case c_string (off s) (a s) of Inl e \<Rightarrow> Inl e | Inr x \<Rightarrow> Inr s)"

definition chars :: "string \<Rightarrow> byte list" where
  "chars = map of_char"

text \<open>\<open>atoi\<close>: leading white space, a sign, digits; a value that is no \<open>int\<close> is undefined.\<close>

definition is_space :: "char \<Rightarrow> bool" where
  "is_space c \<longleftrightarrow> (let n = of_char c :: nat in n = 32 \<or> 9 \<le> n \<and> n \<le> 13)"

definition is_digit :: "char \<Rightarrow> bool" where
  "is_digit c \<longleftrightarrow> (let n = of_char c :: nat in 48 \<le> n \<and> n \<le> 57)"

definition digits_value :: "string \<Rightarrow> int" where
  "digits_value ds = foldl (\<lambda>v c. 10 * v + (of_char c - 48)) 0 (takeWhile is_digit ds)"

definition atoi :: "string \<Rightarrow> int option" where
  "atoi str =
     (let v = (case dropWhile is_space str of
                 [] \<Rightarrow> 0
               | c # cs \<Rightarrow> (if c = CHR ''-'' then - digits_value cs
                           else if c = CHR ''+'' then digits_value cs else digits_value (c # cs)))
      in if in_int v then Some v else None)"

section \<open>The server\<close>

text \<open>The locals of \<open>main\<close>; \<open>us_client\<close> is \<open>udp_client\<close>, the address datagrams go to.\<close>

record udp_server =
  us_tcp_server :: int
  us_tcp_client :: int
  us_udp_server :: int
  us_rfds :: "int set"
  us_wfds :: "int set"
  us_tcp_data :: "byte list"
  us_udp_data :: "byte list"
  us_client :: sockaddr_in
  us_n :: int
  us_tcp_len :: int
  us_count :: int
  us_trace :: "event list"

text \<open>A socket call that ends the program when it fails.\<close>

definition us_call :: "env \<Rightarrow> (udp_server \<Rightarrow> sock_call) \<Rightarrow> (int \<Rightarrow> udp_server \<Rightarrow> udp_server) \<Rightarrow> udp_server \<Rightarrow> error + udp_server" where
  "us_call E c put s =
     (case sys_sock E (c s) (us_trace s) of (r, tr) \<Rightarrow>
        if r = -1 then Inl (Exit (-1) tr) else Inr (put r (s\<lparr>us_trace := tr\<rparr>)))"

definition us_bind :: "env \<Rightarrow> string \<Rightarrow> (udp_server \<Rightarrow> int) \<Rightarrow> udp_server \<Rightarrow> error + udp_server" where
  "us_bind E arg fd s =
     (case atoi arg of
        None \<Rightarrow> Inl Undefined
      | Some p \<Rightarrow> us_call E (\<lambda>s. Bind (fd s) (word_of_int p)) (\<lambda>r. id) s)"

definition udp_server_start :: "env \<Rightarrow> string \<Rightarrow> udp_server \<Rightarrow> error + udp_server" where
  "udp_server_start E arg = exec
     [assign (\<lambda>s. s\<lparr>us_rfds := {3}, us_wfds := {4}\<rparr>),
      us_call E (\<lambda>s. Socket SOCK_STREAM) (\<lambda>r. us_tcp_server_update (\<lambda>_. r)),
      us_bind E arg us_tcp_server,
      us_call E (\<lambda>s. Socket SOCK_DGRAM) (\<lambda>r. us_udp_server_update (\<lambda>_. r)),
      us_bind E arg us_udp_server,
      us_call E (\<lambda>s. Listen (us_tcp_server s) 5) (\<lambda>r. id),
      us_call E (\<lambda>s. Accept (us_tcp_server s)) (\<lambda>r. us_tcp_client_update (\<lambda>_. r))]"

text \<open>\<open>char msg[21]\<close> has no room for the end of the string.\<close>

definition server_msg :: "byte list" where
  "server_msg = chars ''Hello from UDP server''"

definition us_receive :: "dgram_env \<Rightarrow> udp_server \<Rightarrow> error + udp_server" where
  "us_receive D s =
     (case sys_recvfrom D (us_udp_server s) (length (us_udp_data s)) (us_trace s) of (n, bs, a, tr) \<Rightarrow>
        case put_bytes 0 bs (us_udp_data s) of
          Inl e \<Rightarrow> Inl e
        | Inr d \<Rightarrow> Inr (s\<lparr>us_n := n, us_udp_data := d, us_trace := tr,
                        us_client := (case a of None \<Rightarrow> us_client s | Some x \<Rightarrow> x)\<rparr>))"

definition us_sendto :: "env \<Rightarrow> byte list \<Rightarrow> udp_server \<Rightarrow> error + udp_server" where
  "us_sendto E bs s =
     (case sys_sock E (Sendto (us_udp_server s) bs (us_client s)) (us_trace s) of (r, tr) \<Rightarrow>
        Inr (s\<lparr>us_trace := tr\<rparr>))"

definition udp_server_greet :: "env \<Rightarrow> dgram_env \<Rightarrow> udp_server \<Rightarrow> error + udp_server" where
  "udp_server_greet E D = exec
     [us_receive D,
      print_string (\<lambda>s. 0) us_udp_data,
      print_string (\<lambda>s. 0) (\<lambda>s. server_msg),
      \<lambda>s. case c_string 0 server_msg of Inl e \<Rightarrow> Inl e | Inr m \<Rightarrow> us_sendto E m s]"

text \<open>The loop around it may never end, which is \<open>None\<close>.\<close>

partial_function (option) udp_server_hello :: "env \<Rightarrow> dgram_env \<Rightarrow> udp_server \<Rightarrow> (error + udp_server) option" where
  "udp_server_hello E D s =
     (if us_n s = 0
      then (case udp_server_greet E D s of Inl e \<Rightarrow> Some (Inl e) | Inr s' \<Rightarrow> udp_server_hello E D s')
      else Some (Inr s))"

definition us_tcp_read :: "env \<Rightarrow> udp_server \<Rightarrow> error + udp_server" where
  "us_tcp_read E s =
     (if us_tcp_len s < 0 \<or> us_tcp_len s > int (length (us_tcp_data s)) then Inl Undefined
      else
        case sys_read E (us_tcp_client s) 1024 (us_trace s) of (result, bs, tr) \<Rightarrow>
          case put_bytes (us_tcp_len s) bs (us_tcp_data s) of
            Inl e \<Rightarrow> Inl e
          | Inr d \<Rightarrow>
              if result = 0 then Inl (Exit 1 (sys_close (us_tcp_server s) tr))
              else exec
                [print_string us_tcp_len us_tcp_data,
                 assign (us_tcp_len_update (\<lambda>l. l + result))] (s\<lparr>us_tcp_data := d, us_trace := tr\<rparr>))"

text \<open>\<open>snprintf(udp_data, sizeof(udp_data), "%d", count)\<close>, for a count that is not negative.\<close>

definition us_send_count :: "env \<Rightarrow> udp_server \<Rightarrow> error + udp_server" where
  "us_send_count E s =
     (let num = chars (to_string (nat (us_count s)))
      in case put_bytes 0 (num @ [0]) (us_udp_data s) of
           Inl e \<Rightarrow> Inl e
         | Inr d \<Rightarrow> exec
             [\<lambda>s. us_sendto E (take (length num) (us_udp_data s)) s,
              print_string (\<lambda>s. 0) us_udp_data] (s\<lparr>us_udp_data := d\<rparr>))"

definition us_select :: "dgram_env \<Rightarrow> udp_server \<Rightarrow> error + udp_server" where
  "us_select D s =
     (if \<not> fd_in_range (us_tcp_client s) \<or> \<not> fd_in_range (us_udp_server s) then Inl Undefined
      else case sys_select D (us_tcp_client s + 1) (insert (us_tcp_client s) (us_rfds s))
             (insert (us_udp_server s) (us_wfds s)) (us_trace s) of
        (r, w, tr) \<Rightarrow> Inr (s\<lparr>us_rfds := r, us_wfds := w, us_trace := tr\<rparr>))"

definition udp_server_round :: "env \<Rightarrow> dgram_env \<Rightarrow> udp_server \<Rightarrow> error + udp_server" where
  "udp_server_round E D = exec
     [us_select D,
      when_s (\<lambda>s. us_tcp_client s \<in> us_rfds s) [us_tcp_read E],
      when_s (\<lambda>s. us_udp_server s \<in> us_wfds s \<and> us_count s mod 100000 = 0) [us_send_count E],
      \<lambda>s. if us_count s = INT_MAX then Inl Undefined else Inr (s\<lparr>us_count := us_count s + 1\<rparr>)]"

text \<open>
  \<open>main\<close> up to its endless loop, on the arguments after the program's name; \<open>u\<close> is what is uninitialised.
  Returning 0 is \<open>Exit 0\<close>.
\<close>

definition udp_server_main :: "env \<Rightarrow> dgram_env \<Rightarrow> string list \<Rightarrow> udp_server \<Rightarrow> (error + udp_server) option" where
  "udp_server_main E D args u =
     (case args of
        [] \<Rightarrow> Some (Inl (Exit 0 (us_trace u)))
      | arg # _ \<Rightarrow>
          (case udp_server_start E arg u of
             Inl e \<Rightarrow> Some (Inl e)
           | Inr s \<Rightarrow>
               map_option (map_sum id (\<lambda>s. s\<lparr>us_count := 0, us_tcp_len := 1\<rparr>))
                 (udp_server_hello E D (s\<lparr>us_n := 0\<rparr>))))"

section \<open>The client\<close>

text \<open>The descriptors 0, 3 and 4 are written into the code: the terminal, and the two sockets if nothing else is open.\<close>

record udp_client =
  uc_tcp_server :: int
  uc_udp_server :: int
  uc_rfds :: "int set"
  uc_wfds :: "int set"
  uc_tcp_data :: "byte list"
  uc_udp_data :: "byte list"
  uc_server :: sockaddr_in
  uc_n :: int
  uc_trace :: "event list"

definition uc_call :: "env \<Rightarrow> (udp_client \<Rightarrow> sock_call) \<Rightarrow> (int \<Rightarrow> udp_client \<Rightarrow> udp_client) \<Rightarrow> udp_client \<Rightarrow> error + udp_client" where
  "uc_call E c put s =
     (case sys_sock E (c s) (uc_trace s) of (r, tr) \<Rightarrow>
        if r = -1 then Inl (Exit (-1) tr) else Inr (put r (s\<lparr>uc_trace := tr\<rparr>)))"

text \<open>The literal address 127.0.0.1 converts; the port is computed before each use of it.\<close>

definition with_port :: "string \<Rightarrow> (16 word \<Rightarrow> udp_client \<Rightarrow> error + udp_client) \<Rightarrow> udp_client \<Rightarrow> error + udp_client" where
  "with_port arg f s = (case atoi arg of None \<Rightarrow> Inl Undefined | Some p \<Rightarrow> f (word_of_int p) s)"

definition udp_client_start :: "env \<Rightarrow> string \<Rightarrow> udp_client \<Rightarrow> error + udp_client" where
  "udp_client_start E arg = exec
     [assign (\<lambda>s. s\<lparr>uc_rfds := {0, 4}, uc_wfds := {3}\<rparr>),
      uc_call E (\<lambda>s. Socket SOCK_STREAM) (\<lambda>r. uc_tcp_server_update (\<lambda>_. r)),
      with_port arg (\<lambda>p. exec []),
      uc_call E (\<lambda>s. Socket SOCK_DGRAM) (\<lambda>r. uc_udp_server_update (\<lambda>_. r)),
      with_port arg (\<lambda>p. assign (uc_server_update (\<lambda>_. \<lparr>sin_port = p, sin_addr = 0\<rparr>))),
      with_port arg (\<lambda>p. uc_call E (\<lambda>s. Connect (uc_tcp_server s) p) (\<lambda>r. id))]"

definition client_msg :: "byte list" where
  "client_msg = chars ''UDP client initial message'' @ [0]"

text \<open>The length of the address is uninitialised, so that what comes back as the address may be anything.\<close>

definition uc_receive :: "dgram_env \<Rightarrow> udp_client \<Rightarrow> error + udp_client" where
  "uc_receive D s =
     (case sys_recvfrom D (uc_udp_server s) (length (uc_udp_data s)) (uc_trace s) of (n, bs, a, tr) \<Rightarrow>
        case put_bytes 0 bs (uc_udp_data s) of
          Inl e \<Rightarrow> Inl e
        | Inr d \<Rightarrow> Inr (s\<lparr>uc_n := n, uc_udp_data := d, uc_trace := tr,
                        uc_server := (case a of None \<Rightarrow> uc_server s | Some x \<Rightarrow> x)\<rparr>))"

definition uc_sendto :: "env \<Rightarrow> byte list \<Rightarrow> udp_client \<Rightarrow> error + udp_client" where
  "uc_sendto E bs s =
     (case sys_sock E (Sendto (uc_udp_server s) bs (uc_server s)) (uc_trace s) of (r, tr) \<Rightarrow>
        Inr (s\<lparr>uc_trace := tr\<rparr>))"

definition udp_client_greet :: "env \<Rightarrow> dgram_env \<Rightarrow> udp_client \<Rightarrow> error + udp_client" where
  "udp_client_greet E D = exec
     [\<lambda>s. case c_string 0 client_msg of Inl e \<Rightarrow> Inl e | Inr m \<Rightarrow> uc_sendto E m s,
      print_string (\<lambda>s. 0) (\<lambda>s. client_msg),
      uc_receive D,
      print_string (\<lambda>s. 0) uc_udp_data]"

partial_function (option) udp_client_hello :: "env \<Rightarrow> dgram_env \<Rightarrow> udp_client \<Rightarrow> (error + udp_client) option" where
  "udp_client_hello E D s =
     (if uc_n s = 0
      then (case udp_client_greet E D s of Inl e \<Rightarrow> Some (Inl e) | Inr s' \<Rightarrow> udp_client_hello E D s')
      else Some (Inr s))"

definition uc_select :: "dgram_env \<Rightarrow> udp_client \<Rightarrow> error + udp_client" where
  "uc_select D s =
     (case sys_select D 5 ({0, 4} \<union> uc_rfds s) (insert 3 (uc_wfds s)) (uc_trace s) of
        (r, w, tr) \<Rightarrow> Inr (s\<lparr>uc_rfds := r, uc_wfds := w, uc_trace := tr\<rparr>))"

definition fd_isset :: "(udp_client \<Rightarrow> int) \<Rightarrow> udp_client \<Rightarrow> error + udp_client" where
  "fd_isset fd s = (if fd_in_range (fd s) then Inr s else Inl Undefined)"

text \<open>\<open>scanf("%s")\<close> stores a word of any length and its end, or nothing at the end of the input.\<close>

definition uc_forward :: "env \<Rightarrow> dgram_env \<Rightarrow> udp_client \<Rightarrow> error + udp_client" where
  "uc_forward E D s =
     (let w = env_scanf D (uc_trace s); tr = uc_trace s @ [Scanf w]
      in case (case w of None \<Rightarrow> Inr (uc_tcp_data s) | Some x \<Rightarrow> put_bytes 0 (x @ [0]) (uc_tcp_data s)) of
           Inl e \<Rightarrow> Inl e
         | Inr d \<Rightarrow>
             (case c_string 0 d of
                Inl e \<Rightarrow> Inl e
              | Inr m \<Rightarrow> (case sys_write E (uc_tcp_server s) m tr of
                  (r, tr) \<Rightarrow> Inr (s\<lparr>uc_tcp_data := d, uc_trace := tr\<rparr>))))"

definition udp_client_round :: "env \<Rightarrow> dgram_env \<Rightarrow> udp_client \<Rightarrow> error + udp_client" where
  "udp_client_round E D = exec
     [uc_select D,
      fd_isset uc_tcp_server,
      when_s (\<lambda>s. uc_tcp_server s \<in> uc_wfds s \<and> 0 \<in> uc_rfds s) [uc_forward E D],
      fd_isset uc_udp_server,
      when_s (\<lambda>s. uc_udp_server s \<in> uc_rfds s) [uc_receive D, print_string (\<lambda>s. 0) uc_udp_data]]"

definition udp_client_main :: "env \<Rightarrow> dgram_env \<Rightarrow> string list \<Rightarrow> udp_client \<Rightarrow> (error + udp_client) option" where
  "udp_client_main E D args u =
     (case args of
        [] \<Rightarrow> Some (Inl (Exit 0 (uc_trace u)))
      | arg # _ \<Rightarrow>
          (case udp_client_start E arg u of
             Inl e \<Rightarrow> Some (Inl e)
           | Inr s \<Rightarrow> udp_client_hello E D (s\<lparr>uc_n := 0\<rparr>)))"

section \<open>The server never greets\<close>

lemma server_msg_unterminated: "0 \<notin> set server_msg" "c_string 0 server_msg = Inl Undefined"
proof -
  show "0 \<notin> set server_msg" by (simp add: server_msg_def chars_def)
  then show "c_string 0 server_msg = Inl Undefined" by (simp add: c_string_def)
qed

lemma server_greet_undefined: "udp_server_greet E D s = Inl Undefined"
proof -
  obtain n bs a tr where "sys_recvfrom D (us_udp_server s) (length (us_udp_data s)) (us_trace s) = (n, bs, a, tr)"
    by (meson prod_cases4)
  then show ?thesis
    by (simp add: udp_server_greet_def us_receive_def print_string_def server_msg_unterminated put_bytes_def
        c_string_def [of 0 "bs @ xs" for xs])
qed

lemma udp_server_hello_undefined:
  assumes "us_n s = 0"
  shows "udp_server_hello E D s = Some (Inl Undefined)"
  using assms by (subst udp_server_hello.simps) (simp add: server_greet_undefined)

text \<open>Whatever the network does, the server ends at its start or reads past its message.\<close>

lemma udp_server_main_fails:
  "\<exists>e. udp_server_main E D args u = Some (Inl e)"
  by (auto simp: udp_server_main_def udp_server_hello_undefined split: list.splits sum.splits)

section \<open>The loop of the server\<close>

text \<open>What the loop would do after a greeting. The datagrams sent so far.\<close>

definition datagrams :: "event list \<Rightarrow> byte list list" where
  "datagrams tr = concat (map (\<lambda>e. case e of Sys_sock (Sendto fd bs a) r \<Rightarrow> [bs] | _ \<Rightarrow> []) tr)"

lemma datagrams_append [simp]: "datagrams (tr @ us) = datagrams tr @ datagrams us"
  by (simp add: datagrams_def)

lemma datagrams_simps [simp]:
  "datagrams [] = []"
  "datagrams (e # es) = (case e of Sys_sock (Sendto fd bs a) r \<Rightarrow> [bs] | _ \<Rightarrow> []) @ datagrams es"
  by (simp_all add: datagrams_def)

definition decimal :: "nat \<Rightarrow> byte list" where
  "decimal k = chars (to_string k)"

lemma put_bytes_length: "put_bytes off bs a = Inr d \<Longrightarrow> length d = length a \<and> (off \<ge> 0 \<longrightarrow> nat off + length bs \<le> length a)"
  by (auto simp: put_bytes_def split: if_splits)

lemma print_string_keeps: "print_string off a s = Inr t \<Longrightarrow> t = s"
  by (auto simp: print_string_def split: sum.splits)

lemma us_sendto_datagram: "us_sendto E bs s = Inr t \<Longrightarrow> \<exists>r. t = s\<lparr>us_trace := us_trace s @ [Sys_sock (Sendto (us_udp_server s) bs (us_client s)) r]\<rparr>"
  by (auto simp: us_sendto_def sys_sock_def Let_def)

lemma us_select_keeps:
  "us_select D s = Inr t \<Longrightarrow> datagrams (us_trace t) = datagrams (us_trace s) \<and> received (us_trace t) = received (us_trace s)
    \<and> us_count t = us_count s \<and> us_tcp_len t = us_tcp_len s \<and> us_tcp_data t = us_tcp_data s"
  by (auto simp: us_select_def sys_select_def split: if_splits option.splits prod.splits)

lemma us_tcp_read_returns:
  assumes "us_tcp_read E s = Inr t" and "\<And>tr fd n. env_read E tr fd n \<noteq> None"
  shows "\<exists>bs. received (us_trace t) = received (us_trace s) @ bs \<and> us_tcp_len t = us_tcp_len s + int (length bs)
    \<and> us_tcp_len t \<le> int (length (us_tcp_data s)) \<and> length (us_tcp_data t) = length (us_tcp_data s)
    \<and> datagrams (us_trace t) = datagrams (us_trace s) \<and> us_count t = us_count s"
proof -
  obtain r bs tr where rd: "sys_read E (us_tcp_client s) 1024 (us_trace s) = (r, bs, tr)" by (meson prod_cases3)
  then have tr: "tr = us_trace s @ [Sys_read (us_tcp_client s) bs r]" and r: "r = int (length bs)"
    using assms(2) [of "us_trace s" "us_tcp_client s" 1024]
    by (auto simp: sys_read_def Let_def split: option.splits)
  from assms(1) rd obtain d where d: "put_bytes (us_tcp_len s) bs (us_tcp_data s) = Inr d" "0 \<le> us_tcp_len s"
    and t: "t = s\<lparr>us_tcp_data := d, us_trace := tr, us_tcp_len := us_tcp_len s + r\<rparr>"
    by (auto simp: us_tcp_read_def assign_def split: if_splits sum.splits dest!: print_string_keeps)
  from put_bytes_length [OF d(1)] d(2) have "us_tcp_len s + int (length bs) \<le> int (length (us_tcp_data s))"
    by linarith
  then show ?thesis using t tr r put_bytes_length [OF d(1)] by simp
qed

lemma us_send_count_returns:
  assumes "us_send_count E s = Inr t"
  shows "datagrams (us_trace t) = datagrams (us_trace s) @ [decimal (nat (us_count s))]
    \<and> received (us_trace t) = received (us_trace s) \<and> us_count t = us_count s \<and> us_tcp_len t = us_tcp_len s
    \<and> us_tcp_data t = us_tcp_data s"
proof -
  let ?num = "decimal (nat (us_count s))"
  obtain d where d: "put_bytes 0 (?num @ [0]) (us_udp_data s) = Inr d"
    using assms by (auto simp: us_send_count_def decimal_def Let_def split: sum.splits)
  then have num: "take (length ?num) d = ?num" by (auto simp: put_bytes_def split: if_splits)
  from assms d num obtain u where "us_sendto E ?num (s\<lparr>us_udp_data := d\<rparr>) = Inr u" "t = u"
    by (auto simp: us_send_count_def decimal_def [symmetric] Let_def split: sum.splits dest!: print_string_keeps)
  from us_sendto_datagram [OF this(1)] this(2) show ?thesis by auto
qed

lemma udp_server_round_returns:
  assumes "udp_server_round E D s = Inr t" and "\<And>tr fd n. env_read E tr fd n \<noteq> None"
    and "us_tcp_len s \<le> int (length (us_tcp_data s))"
  shows "us_count s \<noteq> INT_MAX \<and> us_count t = us_count s + 1 \<and> length (us_tcp_data t) = length (us_tcp_data s)
    \<and> us_tcp_len t \<le> int (length (us_tcp_data s))
    \<and> us_tcp_len t - int (length (received (us_trace t))) = us_tcp_len s - int (length (received (us_trace s)))
    \<and> (datagrams (us_trace t) = datagrams (us_trace s)
      \<or> us_count s mod 100000 = 0 \<and> datagrams (us_trace t) = datagrams (us_trace s) @ [decimal (nat (us_count s))])"
proof -
  from assms(1) obtain a b c where a: "us_select D s = Inr a"
    and b: "when_s (\<lambda>s. us_tcp_client s \<in> us_rfds s) [us_tcp_read E] a = Inr b"
    and c: "when_s (\<lambda>s. us_udp_server s \<in> us_wfds s \<and> us_count s mod 100000 = 0) [us_send_count E] b = Inr c"
    and t: "us_count c \<noteq> INT_MAX" "t = c\<lparr>us_count := us_count c + 1\<rparr>"
    by (auto simp: udp_server_round_def split: sum.splits if_splits)
  note a' = us_select_keeps [OF a]
  have b': "us_count b = us_count a \<and> length (us_tcp_data b) = length (us_tcp_data a)
      \<and> us_tcp_len b \<le> int (length (us_tcp_data a)) \<and> datagrams (us_trace b) = datagrams (us_trace a)
      \<and> us_tcp_len b - int (length (received (us_trace b))) = us_tcp_len a - int (length (received (us_trace a)))"
  proof (cases "us_tcp_client a \<in> us_rfds a")
    case True
    with b have "us_tcp_read E a = Inr b" by (simp add: when_s_def split: sum.splits)
    from us_tcp_read_returns [OF this assms(2)] show ?thesis by auto
  next
    case False
    with b assms(3) a' show ?thesis by (simp add: when_s_def)
  qed
  have c': "received (us_trace c) = received (us_trace b) \<and> us_count c = us_count b \<and> us_tcp_len c = us_tcp_len b
      \<and> us_tcp_data c = us_tcp_data b \<and> (datagrams (us_trace c) = datagrams (us_trace b)
        \<or> us_count b mod 100000 = 0 \<and> datagrams (us_trace c) = datagrams (us_trace b) @ [decimal (nat (us_count b))])"
  proof (cases "us_udp_server b \<in> us_wfds b \<and> us_count b mod 100000 = 0")
    case True
    with c have "us_send_count E b = Inr c" by (simp add: when_s_def split: sum.splits)
    from us_send_count_returns [OF this] True show ?thesis by simp
  next
    case False
    with c show ?thesis by (auto simp: when_s_def)
  qed
  show ?thesis using a' b' c' t by auto
qed

text \<open>
  As long as the loop runs without undefined behaviour, and no read fails: it goes round at most
  2147483647 times, has received at most 1023 bytes in all, and sends, in order and in decimal, multiples of
  100000 that its counter passed, each at most once.
\<close>

lemma udp_server_loop:
  assumes "exec (replicate n (udp_server_round E D)) s = Inr t" and "\<And>tr fd n. env_read E tr fd n \<noteq> None"
    and "us_count s = 0" and "us_tcp_len s = 1" and "length (us_tcp_data s) = 1024"
    and "datagrams (us_trace s) = []" and "received (us_trace s) = []"
  shows "n \<le> 2147483647 \<and> length (received (us_trace t)) \<le> 1023
    \<and> (\<exists>ks. subseq ks (filter (\<lambda>k. k mod 100000 = 0) [0..<n]) \<and> datagrams (us_trace t) = map decimal ks)"
proof -
  have "int n \<le> INT_MAX \<and> us_count t = int n \<and> length (us_tcp_data t) = 1024 \<and> us_tcp_len t \<le> 1024
      \<and> us_tcp_len t - int (length (received (us_trace t))) = 1
      \<and> (\<exists>ks. subseq ks (filter (\<lambda>k. k mod 100000 = 0) [0..<n]) \<and> datagrams (us_trace t) = map decimal ks)"
    using assms(1)
  proof (induction n arbitrary: t)
    case 0
    with assms(3-7) show ?case by (simp add: INT_MAX_def)
  next
    case (Suc n)
    from Suc.prems have "exec (replicate n (udp_server_round E D) @ [udp_server_round E D]) s = Inr t"
      by (simp add: replicate_append_same)
    then obtain u where u: "exec (replicate n (udp_server_round E D)) s = Inr u" "udp_server_round E D u = Inr t"
      by (auto simp: exec_append split: sum.splits)
    from Suc.IH [OF u(1)] obtain ks where ks: "subseq ks (filter (\<lambda>k. k mod 100000 = 0) [0..<n])"
        "datagrams (us_trace u) = map decimal ks"
      and inv: "int n \<le> INT_MAX" "us_count u = int n" "length (us_tcp_data u) = 1024" "us_tcp_len u \<le> 1024"
        "us_tcp_len u - int (length (received (us_trace u))) = 1" by blast
    have room: "us_tcp_len u \<le> int (length (us_tcp_data u))" using inv by simp
    note r = udp_server_round_returns [OF u(2) assms(2) room]
    have "\<exists>ks. subseq ks (filter (\<lambda>k. k mod 100000 = 0) [0..<Suc n]) \<and> datagrams (us_trace t) = map decimal ks"
    proof (cases "datagrams (us_trace t) = datagrams (us_trace u)")
      case True
      with ks show ?thesis by (intro exI [of _ ks]) (auto simp: subseq_rev_drop_many)
    next
      case False
      with r inv(2) have "int n mod 100000 = 0" "datagrams (us_trace t) = map decimal (ks @ [n])"
        using ks(2) by auto
      moreover from this(1) have "n mod 100000 = 0" by presburger
      ultimately show ?thesis using ks(1)
        by (intro exI [of _ "ks @ [n]"]) (simp add: list_emb_append_mono)
    qed
    moreover have "int n \<noteq> INT_MAX" using r inv(2) by simp
    ultimately show ?case using r inv by auto
  qed
  then show ?thesis by (auto simp: INT_MAX_def)
qed

text \<open>Bytes that do not fit are undefined behaviour.\<close>

lemma us_tcp_read_overflow:
  assumes "env_read E (us_trace s) (us_tcp_client s) 1024 = Some bs" and "length bs \<le> 1024"
    and "us_tcp_len s + int (length bs) > int (length (us_tcp_data s))" and "0 \<le> us_tcp_len s"
  shows "us_tcp_read E s = Inl Undefined"
  using assms by (auto simp: us_tcp_read_def sys_read_def put_bytes_def Let_def)

section \<open>The client\<close>

text \<open>A word is sent as typed when it has no zero byte and fits with its end; a longer one is undefined behaviour.\<close>

lemma uc_forward_word:
  assumes "env_scanf D (uc_trace s) = Some w" and "0 \<notin> set w"
  shows "length w < length (uc_tcp_data s) \<Longrightarrow> \<exists>t. uc_forward E D s = Inr t
      \<and> uc_trace t = snd (sys_write E (uc_tcp_server s) w (uc_trace s @ [Scanf (Some w)]))"
    and "length w \<ge> length (uc_tcp_data s) \<Longrightarrow> uc_forward E D s = Inl Undefined"
  using assms
  by (auto simp: uc_forward_def put_bytes_def c_string_def takeWhile_append Let_def split: prod.splits)

lemma client_msg_terminated: "c_string 0 client_msg = Inr (chars ''UDP client initial message'')"
  by (simp add: c_string_def client_msg_def chars_def)

end
