(* ===== verification/RingTests.thy ===== *)
theory RingTests
  imports Samplers
begin

text \<open>
  \<open>src/test/circular_buffer\<close>, \<open>src/test/threaded_circular_buffer\<close> and \<open>src/test/mocks\<close>: the repository's own
  tests of the ring, and the stand-ins for the hardware. A test case is a list of calls and \<open>REQUIRE\<close>s on one ring and one output file, run in order; it is
  shown that no \<open>REQUIRE\<close> fails. The threaded test is a third sampler, with the network thread of the ADC test.
\<close>

section \<open>Test cases\<close>

text \<open>
  A \<open>Require\<close> sees the ring and the contents of the file. The tests read the file through a mapping of
  \<open>4 * cb_size\<close> bytes; here a byte past its end makes the test fail.
\<close>

datatype test_call =
  Add_data "byte list"
| Write_data size_t size_t
| Require "circular_buffer \<Rightarrow> byte list \<Rightarrow> bool"

fun run_call ::
    "env \<Rightarrow> int \<Rightarrow> test_call \<Rightarrow> circular_buffer \<times> event list \<Rightarrow> (circular_buffer \<times> event list) option" where
  "run_call E fd (Add_data p) (b, tr) = (case add_data b p of Inl e \<Rightarrow> None | Inr b' \<Rightarrow> Some (b', tr))"
| "run_call E fd (Write_data n off) (b, tr) =
     (case write_data E b fd n off tr of Inl e \<Rightarrow> None | Inr (r, tr') \<Rightarrow> Some (b, tr'))"
| "run_call E fd (Require P) (b, tr) = (if P b (fd_bytes tr fd) then Some (b, tr) else None)"

fun run_test ::
    "env \<Rightarrow> int \<Rightarrow> test_call list \<Rightarrow> circular_buffer \<times> event list \<Rightarrow> (circular_buffer \<times> event list) option" where
  "run_test E fd [] x = Some x"
| "run_test E fd (c # cs) x = (case run_call E fd c x of None \<Rightarrow> None | Some x' \<Rightarrow> run_test E fd cs x')"

definition test_passes :: "env \<Rightarrow> int \<Rightarrow> test_call list \<Rightarrow> circular_buffer \<Rightarrow> event list \<Rightarrow> bool" where
  "test_passes E fd cs b tr \<longleftrightarrow> run_test E fd cs (b, tr) \<noteq> None"

text \<open>\<open>REQUIRE(xs[j] == j)\<close> for all \<open>j < m\<close>.\<close>

definition counts_up :: "nat \<Rightarrow> byte list \<Rightarrow> bool" where
  "counts_up m xs \<longleftrightarrow> m \<le> length xs \<and> list_all (\<lambda>j. xs ! j = of_nat j) [0..<m]"

text \<open>The ring a test starts on: a new one of 64 bytes, or of 100, zeroed.\<close>

definition fresh_ring :: "size_t \<Rightarrow> (nat \<Rightarrow> byte) \<Rightarrow> circular_buffer" where
  "fresh_ring cb_size junk = zero (circular_buffer_new cb_size junk)"

definition fresh_checks :: "size_t \<Rightarrow> test_call list" where
  "fresh_checks cb_size = [Require (\<lambda>b out. bytes_written b = 0), Require (\<lambda>b out. nbytes b = cb_size)]"

section \<open>The test file\<close>

text \<open>Ascending bytes in increments of \<open>w\<close>, which is 1 or 4: \<open>n\<close> turns, with all bytes so far checked in each.\<close>

primrec write_ascending :: "nat \<Rightarrow> nat \<Rightarrow> test_call list" where
  "write_ascending w 0 = []"
| "write_ascending w (Suc i) = write_ascending w i
     @ [Add_data (map of_nat [w * i..<w * i + w]), Require (\<lambda>b out. counts_up (w * i + w) (data b))]"

text \<open>The same out of the ring into the file.\<close>

primrec output_ascending :: "nat \<Rightarrow> nat \<Rightarrow> test_call list" where
  "output_ascending w 0 = []"
| "output_ascending w (Suc i) = output_ascending w i
     @ [Write_data (of_nat w) (of_nat (w * i)), Require (\<lambda>b out. counts_up (w * i + w) out)]"

text \<open>Overflowing bytes: \<open>bs\<close> is the array \<open>b\<close>, uninitialised in one of the two test cases and zeroed in the other.\<close>

definition marked :: "byte list \<Rightarrow> byte list" where
  "marked bs = bs[0 := 10, 1 := 11]"

definition write_overflowing :: "byte list \<Rightarrow> test_call list" where
  "write_overflowing bs =
     [Add_data (take (64 - 1) bs), Add_data (take 2 (marked bs)),
      Require (\<lambda>b out. data b ! 0 = marked bs ! 1),
      Require (\<lambda>b out. data b ! (unat (nbytes b) - 1) = marked bs ! 0)]"

definition file_byte :: "nat \<Rightarrow> byte \<Rightarrow> test_call" where
  "file_byte i c = Require (\<lambda>b out. i < length out \<and> out ! i = c)"

definition file_byte_differs :: "nat \<Rightarrow> byte \<Rightarrow> test_call" where
  "file_byte_differs i c = Require (\<lambda>b out. i < length out \<and> out ! i \<noteq> c)"

definition output_overflowing :: "byte list \<Rightarrow> test_call list" where
  "output_overflowing bs =
     (let b0 = marked bs ! 0; b1 = marked bs ! 1; more = slice 3 (64 - 5) (marked bs) in
     [Write_data 2 (64 - 1), file_byte 0 b0, file_byte 1 b1,
      Write_data 2 (64 - 1 + 100 * 64), file_byte 2 b0, file_byte 3 b1,
      Add_data more,
      Write_data 2 (64 - 1 + 100 * 64), file_byte 4 b0, file_byte 5 b1,
      Add_data more,
      Write_data 2 (64 - 1 + 100 * 64), file_byte_differs 6 b0, file_byte_differs 7 b1])"

text \<open>The readings of the ADC test: a 16-bit value, six bytes of padding, and a 64-bit time.\<close>

definition adc_case_reading :: "byte list \<Rightarrow> nat \<Rightarrow> byte list" where
  "adc_case_reading padding i = le_bytes 2 i @ padding @ le_bytes 8 i"

definition adc_case_check :: "nat \<Rightarrow> test_call" where
  "adc_case_check j =
     Require (\<lambda>b out. le_value (slice (j * 16) 2 (data b)) = j \<and> le_value (slice (j * 16 + 8) 8 (data b)) = j)"

primrec adc_case :: "byte list \<Rightarrow> nat \<Rightarrow> test_call list" where
  "adc_case padding 0 = []"
| "adc_case padding (Suc i) =
     adc_case padding i @ Add_data (adc_case_reading padding i) # map adc_case_check [0..<i + 1]"

section \<open>Running them\<close>

declare run_call.simps(1,2) [simp del]

lemma run_test_append:
  "run_test E fd (cs @ ds) x = (case run_test E fd cs x of None \<Rightarrow> None | Some x' \<Rightarrow> run_test E fd ds x')"
  by (induction cs arbitrary: x) (simp_all split: option.split)

lemma holds_fresh: "0 < unat sz \<Longrightarrow> holds (fresh_ring sz junk) [] \<and> nbytes (fresh_ring sz junk) = sz"
  by (simp add: fresh_ring_def holds_def cb_wf_def zero_def circular_buffer_new_def)

lemma run_fresh_checks [simp]:
  "run_test E fd (fresh_checks sz) (fresh_ring sz junk, tr) = Some (fresh_ring sz junk, tr)"
  by (simp add: fresh_checks_def fresh_ring_def zero_def circular_buffer_new_def)

text \<open>Before the ring wraps, the stream is what the ring starts with.\<close>

lemma holds_short:
  assumes "holds b st" and "length st \<le> unat (nbytes b)" and "i < length st"
  shows "data b ! i = st ! i"
  using assms by (auto simp: holds_def)

lemma run_add:
  assumes "holds b st" and "length st + length p < 4294967296"
  shows "\<exists>b'. run_call E fd (Add_data p) (b, tr) = Some (b', tr) \<and> holds b' (st @ p) \<and> nbytes b' = nbytes b"
  using add_data_appends [of b st p] assms by (auto simp: counter_ok_def run_call.simps(1))

lemma run_write:
  assumes "takes_all E fd" and "cb_wf b" and "unat off + unat n < 4294967296"
  shows "\<exists>tr'. run_call E fd (Write_data n off) (b, tr) = Some (b, tr')
    \<and> fd_bytes tr' fd = fd_bytes tr fd @ ring_bytes b (unat off) (unat n)"
  using write_data_ring [OF assms(2,3), of E fd tr] assms(1) by (auto simp: run_call.simps(2))

lemma counts_up_ascending: "counts_up m (map of_nat [0..<m])"
  by (simp add: counts_up_def list_all_iff)

lemma write_ascending_passes:
  assumes "holds b []" and "w * n \<le> unat (nbytes b)"
  shows "\<exists>b'. run_test E fd (write_ascending w n) (b, tr) = Some (b', tr)
    \<and> holds b' (map of_nat [0..<w * n]) \<and> nbytes b' = nbytes b"
  using assms(2)
proof (induction n)
  case 0
  with assms(1) show ?case by simp
next
  case (Suc n)
  then obtain b1 where b1: "run_test E fd (write_ascending w n) (b, tr) = Some (b1, tr)"
      "holds b1 (map of_nat [0..<w * n])" "nbytes b1 = nbytes b" by auto
  have small: "w * n + w < 4294967296" using Suc.prems unat_size_less [of "nbytes b"] by simp
  then obtain b2 where b2: "run_call E fd (Add_data (map of_nat [w * n..<w * n + w])) (b1, tr) = Some (b2, tr)"
      "holds b2 (map of_nat [0..<w * n] @ map of_nat [w * n..<w * n + w])" "nbytes b2 = nbytes b1"
    using run_add [OF b1(2), of "map of_nat [w * n..<w * n + w]" E fd tr] unfolding length_map length_upt
    by (metis add_diff_cancel_left' diff_zero)
  from b2(3) b1(3) have nb: "nbytes b2 = nbytes b" by (rule trans)
  from b2(2) have st: "holds b2 (map of_nat [0..<w * n + w])"
    by (simp only: upt_add_eq_append [of 0, simplified] map_append)
  then have "w * n + w \<le> length (data b2)" using Suc.prems nb st by (simp add: holds_def cb_wf_def)
  moreover have "data b2 ! j = of_nat j" if "j < w * n + w" for j
    using holds_short [OF st, of j] that Suc.prems nb by simp
  ultimately have "counts_up (w * n + w) (data b2)" by (simp add: counts_up_def list_all_iff)
  with b1(1) b2(1) nb st show ?case by (simp add: run_test_append add.commute)
qed

lemma output_ascending_passes:
  assumes b: "holds b (map of_nat [0..<w * n])" and "w * n \<le> unat (nbytes b)"
    and "takes_all E fd" and "fd_bytes tr fd = []" and "k \<le> n"
  shows "\<exists>tr'. run_test E fd (output_ascending w k) (b, tr) = Some (b, tr') \<and> fd_bytes tr' fd = map of_nat [0..<w * k]"
  using assms(5)
proof (induction k)
  case 0
  with assms(4) show ?case by simp
next
  case (Suc k)
  then obtain tr1 where tr1: "run_test E fd (output_ascending w k) (b, tr) = Some (b, tr1)"
      "fd_bytes tr1 fd = map of_nat [0..<w * k]" by auto
  have le: "w * k + w \<le> w * n" using mult_le_mono2 [OF Suc.prems, of w] by simp
  then have small: "w * k + w < 4294967296"
    using assms(2) unat_size_less [of "nbytes b"] by simp
  then have off: "unat (of_nat w :: size_t) = w" "unat (of_nat (w * k) :: size_t) = w * k"
    by (intro unat_of_nat_small; simp)+
  have "ring_bytes b (w * k) w = slice (w * k) w (map of_nat [0..<w * n])"
    using le assms(2) by (intro holds_ring_bytes [OF b]) simp_all
  also have "\<dots> = map of_nat [w * k..<w * k + w]"
    using le by (intro nth_equalityI) simp_all
  finally have piece: "ring_bytes b (w * k) w = map of_nat [w * k..<w * k + w]" .
  have "cb_wf b" using b by (simp add: holds_def)
  from run_write [OF assms(3) this, of "of_nat (w * k)" "of_nat w" tr1] small obtain tr2 where
    tr2: "run_call E fd (Write_data (of_nat w) (of_nat (w * k))) (b, tr1) = Some (b, tr2)"
      "fd_bytes tr2 fd = fd_bytes tr1 fd @ ring_bytes b (w * k) w"
    unfolding off by blast
  from tr2(2) have "fd_bytes tr2 fd = map of_nat [0..<w * k + w]"
    by (simp only: tr1(2) piece upt_add_eq_append [of 0, simplified] map_append)
  with tr1(1) tr2(1) show ?case by (simp add: run_test_append counts_up_ascending add.commute)
qed

lemma ascending_passes:
  assumes "takes_all E fd" and "fd_bytes tr fd = []" and "0 < unat sz" and "w * n \<le> unat sz"
  shows "test_passes E fd (fresh_checks sz @ write_ascending w n @ output_ascending w n) (fresh_ring sz junk) tr"
proof -
  note fresh = holds_fresh [OF assms(3), of junk]
  with assms(4) write_ascending_passes [of "fresh_ring sz junk" w n E fd tr] obtain b where b:
    "run_test E fd (write_ascending w n) (fresh_ring sz junk, tr) = Some (b, tr)"
    "holds b (map of_nat [0..<w * n])" "nbytes b = sz" by auto
  with assms output_ascending_passes [OF b(2), of E fd tr n] show ?thesis
    by (auto simp: test_passes_def run_test_append)
qed

text \<open>The overflowing tests: what the first two bytes from position 63 on are, at each of the three stages.\<close>

lemma ring_two:
  assumes "holds b st" and "nbytes b = 64" and "off mod 64 = 63" and "64 * k + 64 < length st" and "length st \<le> 64 * k + 127"
  shows "ring_bytes b off 2 = [st ! (64 * k + 63), st ! (64 * k + 64)]"
    and "data b ! 63 = st ! (64 * k + 63)" and "data b ! 0 = st ! (64 * k + 64)"
proof -
  have "data b ! (i mod 64) = st ! i" if "i < length st" "length st \<le> i + 64" for i
    using assms(1,2) that by (simp add: holds_def)
  from this [of "64 * k + 63"] this [of "64 * k + 64"] assms(4,5)
  show d: "data b ! 63 = st ! (64 * k + 63)" "data b ! 0 = st ! (64 * k + 64)"
    by (simp_all add: mod_add_eq [symmetric, of "64 * k"])
  have "(off + 1) mod 64 = 0" using assms(3) by (simp add: mod_Suc)
  moreover have "[0..<2] = [0, 1]" by (simp add: upt_rec)
  ultimately show "ring_bytes b off 2 = [st ! (64 * k + 63), st ! (64 * k + 64)]"
    using d assms(2,3) by (simp add: ring_bytes_def)
qed

lemma write_overflowing_passes:
  assumes "length bs = 64"
  shows "\<exists>b. run_test E fd (write_overflowing bs) (fresh_ring 64 junk, tr) = Some (b, tr)
    \<and> holds b (take 63 bs @ [10, 11]) \<and> nbytes b = 64"
proof -
  have fresh: "holds (fresh_ring 64 junk) []" "nbytes (fresh_ring 64 junk) = 64"
    using holds_fresh [of 64 junk] by simp_all
  obtain b1 where b1: "run_call E fd (Add_data (take 63 bs)) (fresh_ring 64 junk, tr) = Some (b1, tr)"
      "holds b1 (take 63 bs)" "nbytes b1 = 64"
    using run_add [OF fresh(1), of "take 63 bs" E fd tr] fresh(2) assms by auto
  have two: "take 2 (marked bs) = [10, 11]" and m: "marked bs ! 0 = 10" "marked bs ! Suc 0 = 11"
    using assms by (auto simp: marked_def intro!: nth_equalityI simp: less_Suc_eq numeral_2_eq_2)
  obtain b2 where b2: "run_call E fd (Add_data [10, 11]) (b1, tr) = Some (b2, tr)"
      "holds b2 (take 63 bs @ [10, 11])" "nbytes b2 = 64"
    using run_add [OF b1(2), of "[10, 11]" E fd tr] b1(3) assms by auto
  have "data b2 ! 63 = 10" "data b2 ! 0 = 11"
    using ring_two(2,3) [OF b2(2,3), of 63 0] assms by (simp_all add: nth_append)
  with b1 b2 show ?thesis by (simp add: write_overflowing_def two m)
qed

text \<open>The output of two bytes from a position equal to 63 modulo the size, with what is then at the end of the file.\<close>

lemma output_two:
  assumes "takes_all E fd" and "holds b st" and "nbytes b = 64" and "unat off mod 64 = 63" and "unat off < 10000"
    and "64 * k + 64 < length st" and "length st \<le> 64 * k + 127"
  shows "\<exists>tr'. run_call E fd (Write_data 2 off) (b, tr) = Some (b, tr')
    \<and> fd_bytes tr' fd = fd_bytes tr fd @ [st ! (64 * k + 63), st ! (64 * k + 64)]"
  using run_write [OF assms(1), of b off 2 tr] ring_two(1) [OF assms(2,3,4,6,7)] assms(2,5)
  by (simp add: holds_def)

lemma overflowing_passes:
  assumes all: "takes_all E fd" and "fd_bytes tr fd = []" and bs: "length bs = 64" "bs ! 6 \<noteq> 10" "bs ! 7 \<noteq> 11"
  shows "test_passes E fd (fresh_checks 64 @ write_overflowing bs @ output_overflowing bs) (fresh_ring 64 junk) tr"
proof -
  define more where "more = slice 3 59 (marked bs)"
  let ?st = "take 63 bs @ [10, 11]"
  have m: "marked bs ! 0 = 10" "marked bs ! Suc 0 = 11" "more ! 3 = bs ! 6" "more ! 4 = bs ! 7" and len: "length more = 59"
    using bs(1) by (simp_all add: marked_def more_def)
  obtain b where b: "run_test E fd (write_overflowing bs) (fresh_ring 64 junk, tr) = Some (b, tr)"
      "holds b ?st" "nbytes b = 64"
    using write_overflowing_passes [OF bs(1)] by blast
  have st: "length ?st = 65" "?st ! 63 = 10" "?st ! 64 = 11" using bs(1) by (simp_all add: nth_append)
  obtain tr1 where t1: "run_call E fd (Write_data 2 63) (b, tr) = Some (b, tr1)" "fd_bytes tr1 fd = [10, 11]"
    using output_two [OF all b(2,3), of 63 0 tr] st bs(1) assms(2) by auto
  obtain tr2 where t2: "run_call E fd (Write_data 2 6463) (b, tr1) = Some (b, tr2)" "fd_bytes tr2 fd = [10, 11, 10, 11]"
    using output_two [OF all b(2,3), of 6463 0 tr1] st bs(1) t1(2) by auto
  obtain b2 where b2: "run_call E fd (Add_data more) (b, tr2) = Some (b2, tr2)" "holds b2 (?st @ more)" "nbytes b2 = 64"
    using run_add [OF b(2), of more E fd tr2] st(1) len b(3) by auto
  obtain tr3 where t3: "run_call E fd (Write_data 2 6463) (b2, tr2) = Some (b2, tr3)"
      "fd_bytes tr3 fd = [10, 11, 10, 11, 10, 11]"
    using output_two [OF all b2(2,3), of 6463 0 tr2] st bs(1) len t2(2) by (auto simp: nth_append)
  obtain b3 where b3: "run_call E fd (Add_data more) (b2, tr3) = Some (b3, tr3)" "holds b3 ((?st @ more) @ more)" "nbytes b3 = 64"
    using run_add [OF b2(2), of more E fd tr3] st(1) len b2(3) by auto
  obtain tr4 where t4: "run_call E fd (Write_data 2 6463) (b3, tr3) = Some (b3, tr4)"
      "fd_bytes tr4 fd = [10, 11, 10, 11, 10, 11, bs ! 6, bs ! 7]"
    using output_two [OF all b3(2,3), of 6463 1 tr3] st(1) bs(1) len t3(2) m(3,4) by (auto simp: nth_append)
  from t1 t2 b2 t3 b3 t4 bs(2,3) show ?thesis
    by (simp add: test_passes_def run_test_append b(1) output_overflowing_def file_byte_def file_byte_differs_def m
        flip: more_def)
qed

lemma adc_case_reading_parts:
  assumes "length padding = 6" and "i < 65536"
  shows "length (adc_case_reading padding i) = 16"
    and "le_value (slice 0 2 (adc_case_reading padding i)) = i"
    and "le_value (slice 8 8 (adc_case_reading padding i)) = i"
  using assms by (simp_all add: adc_case_reading_def slice_def)

lemma slice_concat:
  assumes "\<And>i. length (f i) = w" and "j < n"
  shows "slice (w * j) w (concat (map f [0..<n])) = f j"
proof -
  have "[0..<n] = [0..<j] @ j # [Suc j..<n]"
    using assms(2) upt_add_eq_append [of 0 j "n - j"] by (simp add: upt_conv_Cons)
  moreover have "length (concat (map f [0..<j])) = w * j"
    using assms(1) by (simp add: length_concat comp_def sum_list_triv)
  ultimately show ?thesis using assms(1) by (simp add: slice_def)
qed

lemma slice_slice: "k + m \<le> n \<Longrightarrow> slice k m (slice j n xs) = slice (j + k) m xs"
  by (simp add: slice_def drop_take min_absorb1 add.commute)

lemma run_requires: "(\<And>c. c \<in> set cs \<Longrightarrow> run_call E fd c x = Some x) \<Longrightarrow> run_test E fd cs x = Some x"
  by (induction cs) simp_all

lemma adc_case_passes:
  assumes "holds b []" and pad: "length padding = 6" and "16 * n \<le> unat (nbytes b)" and "n \<le> 65536"
  shows "\<exists>b'. run_test E fd (adc_case padding n) (b, tr) = Some (b', tr)
    \<and> holds b' (concat (map (adc_case_reading padding) [0..<n])) \<and> nbytes b' = nbytes b"
  using assms(3,4)
proof (induction n)
  case 0
  with assms(1) show ?case by simp
next
  case (Suc n)
  let ?f = "adc_case_reading padding"
  have len: "length (?f i) = 16" for i using pad by (simp add: adc_case_reading_def)
  then have total: "length (concat (map ?f [0..<n])) = 16 * n" for n
    by (simp add: length_concat comp_def sum_list_triv)
  from Suc obtain b1 where b1: "run_test E fd (adc_case padding n) (b, tr) = Some (b1, tr)"
      "holds b1 (concat (map ?f [0..<n]))" "nbytes b1 = nbytes b" by auto
  obtain b2 where b2: "run_call E fd (Add_data (?f n)) (b1, tr) = Some (b2, tr)"
      "holds b2 (concat (map ?f [0..<n]) @ ?f n)" "nbytes b2 = nbytes b1"
    using run_add [OF b1(2), of "?f n" E fd tr] Suc.prems(2) by (auto simp: total len)
  let ?st = "concat (map ?f [0..<Suc n])"
  have st: "holds b2 ?st" using b2(2) by simp
  have fits: "length ?st \<le> unat (nbytes b2)" "length (data b2) = unat (nbytes b2)"
    using Suc.prems(1) b1(3) b2(3) st by (simp_all only: total) (simp add: holds_def cb_wf_def)
  have "run_call E fd (adc_case_check j) (b2, tr) = Some (b2, tr)" if "j < Suc n" for j
  proof -
    have le: "16 * j + 16 \<le> length ?st" using that total [of "Suc n"] by (simp del: upt_Suc)
    have "slice (16 * j) 16 (data b2) = slice (16 * j) 16 ?st"
      using holds_short [OF st fits(1)] le fits by (intro nth_equalityI) simp_all
    also have "\<dots> = ?f j" using that by (intro slice_concat len)
    finally have j: "slice (16 * j) 16 (data b2) = ?f j" .
    with slice_slice [of 0 2 16 "16 * j" "data b2"] slice_slice [of 8 8 16 "16 * j" "data b2"]
    show ?thesis
      using adc_case_reading_parts(2,3) [OF pad, of j] that Suc.prems(2)
      by (simp add: adc_case_check_def mult.commute)
  qed
  then have "run_test E fd (map adc_case_check [0..<n + 1]) (b2, tr) = Some (b2, tr)"
    by (intro run_requires) auto
  with b1(1,3) b2(1,3) st show ?case by (simp add: run_test_append)
qed

section \<open>All of them pass\<close>

text \<open>
  No \<open>REQUIRE\<close> of the tests of the ring fails, whatever the new array, the uninitialised \<open>b\<close> and the padding
  of a reading hold, when the file takes every byte; \<open>ascending\<close> and \<open>adc\<close> pass at every width and every ring
  in which they fit, not only at the sizes of the test file.
\<close>

theorem ring_unit_tests_pass:
  assumes "takes_all E fd" and "fd_bytes tr fd = []" and "length bs = 64" and "length padding = 6"
    and "0 < unat sz" and "w * n \<le> unat sz" and "16 * k \<le> unat sz" and "k \<le> 65536"
  shows "test_passes E fd (fresh_checks sz @ write_ascending w n @ output_ascending w n) (fresh_ring sz junk) tr
    \<and> test_passes E fd (fresh_checks 64 @ write_overflowing bs) (fresh_ring 64 junk) tr
    \<and> test_passes E fd (write_overflowing (replicate 64 0) @ output_overflowing (replicate 64 0)) (fresh_ring 64 junk) tr
    \<and> test_passes E fd (adc_case padding k) (fresh_ring sz junk) tr"
proof (intro conjI)
  show "test_passes E fd (fresh_checks sz @ write_ascending w n @ output_ascending w n) (fresh_ring sz junk) tr"
    by (rule ascending_passes [OF assms(1,2,5,6)])
  show "test_passes E fd (fresh_checks 64 @ write_overflowing bs) (fresh_ring 64 junk) tr"
    using write_overflowing_passes [OF assms(3), of E fd junk tr] by (auto simp: test_passes_def run_test_append)
  show "test_passes E fd (write_overflowing (replicate 64 0) @ output_overflowing (replicate 64 0)) (fresh_ring 64 junk) tr"
    using overflowing_passes [OF assms(1,2), of "replicate 64 0" junk] by (simp add: test_passes_def run_test_append)
  show "test_passes E fd (adc_case padding k) (fresh_ring sz junk) tr"
    using adc_case_passes [of "fresh_ring sz junk" padding k E fd tr] holds_fresh [OF assms(5), of junk] assms(4,7,8)
    by (auto simp: test_passes_def)
qed

text \<open>The sizes of the test file: a ring of 64 bytes written one or four at a time, and one of 100 for three readings.\<close>

theorem ring_unit_tests_pass_witness:
  "(let E = sample_env\<lparr>env_write := \<lambda>tr fd bs. Some (length bs)\<rparr>; junk = (\<lambda>i. 7) in
    test_passes E 3 (fresh_checks 64 @ write_ascending 1 64 @ output_ascending 1 64) (fresh_ring 64 junk) []
    \<and> test_passes E 3 (fresh_checks 64 @ write_ascending 4 16 @ output_ascending 4 16) (fresh_ring 64 junk) []
    \<and> test_passes E 3 (adc_case (replicate 6 7) 3) (fresh_ring 100 junk) [])"
proof -
  define E where "E = sample_env\<lparr>env_write := \<lambda>tr fd bs. Some (length bs)\<rparr>"
  have "takes_all E 3" by (simp add: takes_all_def E_def)
  from ring_unit_tests_pass [OF this, of "[]" "replicate 64 7" "replicate 6 7" 64 1 64 0 "\<lambda>i. 7"]
    ring_unit_tests_pass [OF this, of "[]" "replicate 64 7" "replicate 6 7" 64 4 16 0 "\<lambda>i. 7"]
    ring_unit_tests_pass [OF this, of "[]" "replicate 64 7" "replicate 6 7" 100 1 0 3 "\<lambda>i. 7"]
  show ?thesis by (simp only: Let_def E_def [symmetric]) simp
qed

section \<open>The threaded test\<close>

text \<open>
  The worker of \<open>threaded_circular_buffer_test.cpp\<close> counts instead of reading a converter; the local \<open>count\<close>
  is the only one the ADC test does not have. Its network thread is that of the ADC test, word for word.
\<close>

definition SAMPLES_TO_SEND :: size_t where
  "SAMPLES_TO_SEND = 100"

record ring_test = adc_program +
  rt_count :: "16 word"

definition ring_test_read :: "env \<Rightarrow> 'a ring_test_scheme \<Rightarrow> error + 'a ring_test_scheme" where
  "ring_test_read E s =
     (case get_time E (base_time s) (trace s) of (u, tr) \<Rightarrow>
        Inr (s\<lparr>trace := tr @ [Stderr ''ADC reading''], adc_value := \<lparr>at_value = rt_count s, at_t = u\<rparr>,
               rt_count := rt_count s + 1\<rparr>))"

definition ring_test_item :: "size_t \<Rightarrow> size_t \<Rightarrow> network_queue_item \<Rightarrow> network_queue_item" where
  "ring_test_item bw prev item =
     item\<lparr>nqi_action := nq_send, nqi_nbytes := SAMPLES_TO_SEND * 16, total_bytes := bw\<rparr>"

definition ring_test_round :: "env \<Rightarrow> 'a ring_test_scheme \<Rightarrow> error + 'a ring_test_scheme" where
  "ring_test_round E = sampler_round
     [ring_test_read E,
      \<lambda>s. ring_add (adc_test_bytes (adc_value s)) s,
      ring_send ring_test_item]"

definition ring_test_net_start :: "env \<Rightarrow> 'a ring_test_scheme \<Rightarrow> error + 'a ring_test_scheme" where
  "ring_test_net_start = adc_net_start"

definition ring_test_net_round ::
    "env \<Rightarrow> work_queue_item \<Rightarrow> 'a ring_test_scheme \<Rightarrow> error + (bool \<times> 'a ring_test_scheme)" where
  "ring_test_net_round = adc_net_round"

text \<open>\<open>main\<close>: the state the two threads start on; \<open>u\<close> is what is uninitialised.\<close>

definition ring_test_main :: "env \<Rightarrow> (nat \<Rightarrow> byte) \<Rightarrow> ring_test \<Rightarrow> event list \<Rightarrow> ring_test" where
  "ring_test_main E junk u tr =
     (case set_base_time E 0 tr of (base, tr) \<Rightarrow>
        let initial = null_nqi\<lparr>nqi_action := nq_recv\<rparr>
        in u\<lparr>qn := enqueue initial (safe_queue_new null_nqi), qw := safe_queue_new null_wqi,
             heap := [circular_buffer_new (push_bit 14 1) junk], base_time := base, trace := tr,
             s_sending := False, s_last := 0, adc_value := \<lparr>at_value = 0, at_t = 0\<rparr>, rt_count := 0\<rparr>)"

interpretation ring_test: paced_sampler "ring_test_round E" ring_test_item
  "\<lambda>n s. rt_count s = of_nat n" "\<lambda>n p. length p = 16 \<and> take 2 p = le_bytes 2 (unat (of_nat n :: 16 word))"
  "\<lambda>bw prev. (bw, 1600)" for E
proof unfold_locales
  fix st :: "byte list" and s :: "'a ring_test_scheme" and n :: nat
  assume s: "sampling st s" and n: "rt_count s = of_nat n" and len: "length st + 16 < 4294967296"
  obtain t tr where t: "get_time E (base_time s) (trace s) = (t, tr)" by (meson surj_pair)
  define u where "u = s\<lparr>trace := tr @ [Stderr ''ADC reading''], adc_value := \<lparr>at_value = of_nat n, at_t = t\<rparr>,
    rt_count := of_nat n + 1\<rparr>"
  let ?p = "adc_test_bytes (adc_value u)"
  have u: "ring_test_read E s = Inr u" "sampling st u" "qn u = qn s" "s_last u = s_last s"
    using s by (simp_all add: ring_test_read_def t u_def n sampling_def)
  obtain b where b: "heap u = [b]" "holds b st" using u(2) by (auto simp: sampling_def)
  have p: "length ?p = 16" "take 2 ?p = le_bytes 2 (unat (of_nat n :: 16 word))"
    by (simp_all add: adc_test_bytes_def u_def)
  with len ring_add_holds [OF b, of ?p] obtain b' where
    b': "ring_add ?p u = Inr (u\<lparr>heap := [b']\<rparr>)" "holds b' (st @ ?p)" by auto
  show "\<exists>p u. ring_test_round E s = ring_send ring_test_item u \<and> sampling (st @ p) u \<and> rt_count u = of_nat (Suc n)
      \<and> (length p = 16 \<and> take 2 p = le_bytes 2 (unat (of_nat n :: 16 word))) \<and> qn u = qn s \<and> s_last u = s_last s"
    using s u b' p
    by (intro exI [of _ ?p] exI [of _ "u\<lparr>heap := [b']\<rparr>"])
      (simp add: ring_test_round_def sampler_round_idle sampling_def u_def)
qed (simp_all add: ring_test_item_def SAMPLES_TO_SEND_def)

lemma ring_test_main_ready:
  "sampling [] ((ring_test_main E junk u tr)\<lparr>s_sending := True\<rparr>)"
  "s_last (ring_test_main E junk u tr) = 0" "rt_count (ring_test_main E junk u tr) = 0"
  "\<exists>i. q (qn (ring_test_main E junk u tr)) = [i] \<and> nqi_action i = nq_recv"
proof -
  have "holds (circular_buffer_new (push_bit 14 1) junk) []" by (rule holds_new) simp
  then show "sampling [] ((ring_test_main E junk u tr)\<lparr>s_sending := True\<rparr>)"
    "s_last (ring_test_main E junk u tr) = 0" "rt_count (ring_test_main E junk u tr) = 0"
    "\<exists>i. q (qn (ring_test_main E junk u tr)) = [i] \<and> nqi_action i = nq_recv"
    by (auto simp: ring_test_main_def sampling_def enqueue_def safe_queue_new_def split: prod.splits)
qed

text \<open>
  From its start on, told to sample, the test stores one reading per idle iteration, numbered from 0, and queues
  a send item per 101 readings; like the ADC test's, each asks for the 1600 bytes after the end of the stream.
\<close>

theorem ring_test_sends_unwritten:
  assumes "16 * n + 1600 < 4294967296"
  shows "\<exists>s' ps ys. sampler_rounds (ring_test_round E) n ((ring_test_main E junk u tr)\<lparr>s_sending := True\<rparr>) = Inr s'
    \<and> sampling (concat ps) s' \<and> length ps = n
    \<and> (\<forall>i < n. length (ps ! i) = 16 \<and> take 2 (ps ! i) = le_bytes 2 (unat (of_nat i :: 16 word)))
    \<and> q (qn s') = q (qn (ring_test_main E junk u tr)) @ ys
    \<and> map (\<lambda>i. (total_bytes i, nqi_nbytes i)) ys = map (\<lambda>k. (of_nat (16 * (101 * (k + 1))), 1600)) [0..<n div 101]"
proof -
  let ?s = "(ring_test_main E junk u tr)\<lparr>s_sending := True\<rparr>"
  have "ring_test.sampled (q (qn (ring_test_main E junk u tr))) 0 ?s"
    using ring_test_main_ready [of E junk u tr] by (auto simp: ring_test.sampled_def)
  from ring_test.sampled_rounds [OF this assms, of E] show ?thesis
    by (auto simp: ring_test.sampled_def algebra_simps)
qed

section \<open>The mocks\<close>

text \<open>
  What \<open>final_mocked\<close> is linked with instead of the driver, the library and the initialisation: nothing is
  driven, every start succeeds, and a reading is the value of the counter \<open>count\<close>, returned with its new value.
\<close>

definition fake_read_item :: "adc_info_t \<Rightarrow> 16 word \<Rightarrow> 16 word \<times> 16 word" where
  "fake_read_item idx count = (count, count + 1)"

definition fake_read_item_num :: "byte \<Rightarrow> bool \<Rightarrow> byte \<Rightarrow> 16 word" where
  "fake_read_item_num adc_num single chan = 0"

definition fake_gpio_write :: "byte \<Rightarrow> byte \<Rightarrow> event list \<Rightarrow> event list" where
  "fake_gpio_write pin_num on tr = tr"

definition fake_bcm_init :: int where
  "fake_bcm_init = 1"

definition fake_initialize_pins :: "event list \<Rightarrow> event list" where
  "fake_initialize_pins tr = tr"

definition fake_titan_initialize_pins :: "event list \<Rightarrow> event list" where
  "fake_titan_initialize_pins tr = tr"

definition fake_initialize_spi :: int where
  "fake_initialize_spi = 0"

primrec fake_readings :: "(nat \<Rightarrow> adc_info_t) \<Rightarrow> nat \<Rightarrow> 16 word \<Rightarrow> 16 word list" where
  "fake_readings idx 0 count = []"
| "fake_readings idx (Suc n) count =
     (case fake_read_item (idx n) count of (v, count) \<Rightarrow> v # fake_readings idx n count)"

text \<open>
  The mock counts through all 16 bits, whichever channels are read: reading 4096 from the start is one that the
  driver never returns, whose readings have 12 bits (\<open>decode_bound\<close>).
\<close>

lemma fake_readings_count: "fake_readings idx n c = map (\<lambda>i. c + of_nat i) [0..<n]"
proof (induction n arbitrary: c)
  case (Suc n)
  have "[0..<Suc n] = 0 # map Suc [0..<n]" by (simp add: upt_conv_Cons map_Suc_upt del: upt_Suc)
  with Suc show ?case by (simp add: fake_read_item_def comp_def ac_simps del: upt_Suc)
qed simp

lemma fake_readings_exceed_driver:
  assumes "n < 65536"
  shows "unat (fake_readings idx (Suc n) 0 ! n) = n"
    and "4096 \<le> n \<Longrightarrow> fake_readings idx (Suc n) 0 ! n \<noteq> decode_reading False r1 r2"
proof -
  show n: "unat (fake_readings idx (Suc n) 0 ! n) = n"
    using assms by (simp add: fake_readings_count unsigned_of_nat take_bit_nat_eq_self del: fake_readings.simps upt_Suc)
  show "4096 \<le> n \<Longrightarrow> fake_readings idx (Suc n) 0 ! n \<noteq> decode_reading False r1 r2"
    using decode_bound [of r1 r2] n by (auto simp del: fake_readings.simps)
qed

end
