(* ===== verification/Counting.thy ===== *)
theory Counting
  imports Telemetry Samplers
begin

text \<open>
  The counter server as a whole: its two threads interleaved, from the readings to the client. The stream is
  the same in every run, so what arrives can be written down: the blocks of 101 readings, one frame each.
\<close>

section \<open>The two threads\<close>

inductive counter_step :: "env \<Rightarrow> int \<Rightarrow> bool \<Rightarrow> 'a counter_scheme \<Rightarrow> 'a counter_scheme \<Rightarrow> bool"
  for E connfd udp where
  counter_work: "counter_round s = Inr s' \<Longrightarrow> counter_step E connfd udp s s'"
| counter_net: "network_round (counter_process_nqi E connfd udp junk) s = Inr s' \<Longrightarrow> counter_step E connfd udp s s'"

inductive_cases counter_stepE: "counter_step E connfd udp s s'"

text \<open>A step in time: no queued block was overwritten, and the counter of the ring is not about to wrap.\<close>

definition counter_on_time :: "env \<Rightarrow> int \<Rightarrow> bool \<Rightarrow> 'a counter_scheme \<Rightarrow> 'a counter_scheme \<Rightarrow> bool" where
  "counter_on_time E connfd udp s s' \<longleftrightarrow> counter_step E connfd udp s s' \<and> unlapped s
     \<and> unat (bytes_written (heap s ! 0)) + 1616 < 4294967296"

section \<open>The stream\<close>

definition readings :: "nat \<Rightarrow> byte list" where
  "readings n = concat (map (\<lambda>i. dummy_reading (of_nat i)) [0..<n])"

definition block :: "nat \<Rightarrow> byte list" where
  "block k = concat (map (\<lambda>i. dummy_reading (of_nat i)) [101 * k..<101 * k + 101])"

lemma length_dummy_reading [simp]: "length (dummy_reading c) = 16"
  by (simp add: dummy_reading_def)

lemma length_readings [simp]: "length (readings n) = 16 * n"
  by (induction n) (simp_all add: readings_def)

lemma readings_Suc: "readings (Suc n) = readings n @ dummy_reading (of_nat n)"
  by (simp add: readings_def)

lemma length_block [simp]: "length (block k) = 1616"
  by (simp add: block_def length_concat comp_def sum_list_triv)

lemma slice_readings:
  assumes "101 * k + 101 \<le> n"
  shows "slice (1616 * k) 1616 (readings n) = block k"
proof -
  let ?f = "\<lambda>i. dummy_reading (of_nat i)"
  have "[0..<n] = [0..<101 * k] @ [101 * k..<101 * k + 101] @ [101 * k + 101..<n]"
    using assms upt_add_eq_append [of 0 "101 * k" "n - 101 * k"] upt_add_eq_append [of "101 * k" "101 * k + 101" "n - (101 * k + 101)"]
    by simp
  then have "readings n = readings (101 * k) @ block k @ concat (map ?f [101 * k + 101..<n])"
    by (simp only: readings_def block_def map_append concat_append)
  then show ?thesis by (simp add: slice_def)
qed

section \<open>The invariant\<close>

text \<open>
  \<open>n\<close> readings were taken and \<open>j\<close> blocks sent; the queue names the blocks that are complete and not yet sent.
\<close>

definition count_inv :: "int \<Rightarrow> nat \<Rightarrow> nat \<Rightarrow> 'a counter_scheme \<Rightarrow> bool" where
  "count_inv fd n j s \<longleftrightarrow> on_line fd s \<and> null_item (qn s) = null_nqi \<and> null_item (qw s) = null_wqi
     \<and> (\<exists>b. heap s = [b] \<and> holds b (readings n) \<and> nbytes b = 65536) \<and> 16 * n < 4294967296
     \<and> c_count s = of_nat n \<and> s_last s = of_nat (1616 * (n div 101)) \<and> j \<le> n div 101
     \<and> map (\<lambda>y. (nqi_buff y, total_bytes y, nqi_nbytes y)) (send_items (q (qn s)))
         = map (\<lambda>k. (Some 0, of_nat (1616 * k), 1616)) [j..<n div 101]
     \<and> fd_bytes (trace s) fd = concat (map (\<lambda>k. frame (2, block k)) [0..<j])"

text \<open>It is about nothing else.\<close>

lemma count_inv_cong:
  assumes "count_inv fd n j s" and "on_line fd s'" and "null_item (qn s') = null_nqi" and "null_item (qw s') = null_wqi"
    and "heap s' = heap s" and "c_count s' = c_count s" and "s_last s' = s_last s"
    and "send_items (q (qn s')) = send_items (q (qn s))" and "fd_bytes (trace s') fd = fd_bytes (trace s) fd"
  shows "count_inv fd n j s'"
  using assms by (simp add: count_inv_def)

text \<open>
  An iteration of the worker: a command, or a reading with the send test. A \<open>wq_none\<close> item in the queue, from
  a byte that is no command, has the effect of an empty queue.
\<close>

lemma counter_idle:
  assumes inv: "count_inv fd n j s" and "16 * n + 1616 < 4294967296"
  obtains b' where "holds b' (readings (Suc n))" and "nbytes b' = 65536"
    and "exec [\<lambda>s. ring_add (dummy_reading (c_count s)) s, assign (c_count_update (\<lambda>c. c + 1)), ring_send counter_item] s
      = ring_send counter_item (s\<lparr>heap := [b'], c_count := of_nat (Suc n)\<rparr>)"
proof -
  obtain b where b: "heap s = [b]" "holds b (readings n)" "nbytes b = 65536" and c: "c_count s = of_nat n"
    using inv by (auto simp: count_inv_def)
  obtain b' where b': "add_data b (dummy_reading (of_nat n)) = Inr b'" "holds b' (readings (Suc n))" "nbytes b' = 65536"
    using add_data_appends [OF b(2), of "dummy_reading (of_nat n)"] b(3) assms(2)
    by (auto simp: counter_ok_def readings_Suc)
  have eq: "c_count_update (\<lambda>c. c + 1) (s\<lparr>heap := [b']\<rparr>) = s\<lparr>heap := [b'], c_count := of_nat (Suc n)\<rparr>"
    using c by (simp add: add.commute)
  with b(1) b'(1) c have "exec [\<lambda>s. ring_add (dummy_reading (c_count s)) s, assign (c_count_update (\<lambda>c. c + 1)),
      ring_send counter_item] s = ring_send counter_item (s\<lparr>heap := [b'], c_count := of_nat (Suc n)\<rparr>)"
    by (simp add: ring_add_def deref_def assign_def eq)
  with b' that show thesis by blast
qed

lemma count_inv_sample:
  assumes inv: "count_inv fd n j s" and room: "16 * n + 1616 < 4294967296"
    and run: "exec [\<lambda>s. ring_add (dummy_reading (c_count s)) s, assign (c_count_update (\<lambda>c. c + 1)),
      ring_send counter_item] s = Inr s'"
  shows "count_inv fd (Suc n) j s'"
proof -
  obtain b' where b': "holds b' (readings (Suc n))" "nbytes b' = 65536"
    and "exec [\<lambda>s. ring_add (dummy_reading (c_count s)) s, assign (c_count_update (\<lambda>c. c + 1)), ring_send counter_item] s
      = ring_send counter_item (s\<lparr>heap := [b'], c_count := of_nat (Suc n)\<rparr>)"
    by (rule counter_idle [OF inv room])
  define u where "u = s\<lparr>heap := [b'], c_count := of_nat (Suc n)\<rparr>"
  have h: "heap u = [b']" and last: "s_last u = of_nat (1616 * (n div 101))"
    using inv by (simp_all add: u_def count_inv_def)
  have div: "Suc n div 101 = (if Suc n mod 101 = 0 then Suc (n div 101) else n div 101)" by (rule div_Suc)
  have "ring_send counter_item u = Inr s'" using \<open>_ = ring_send _ _\<close> run by (simp only: u_def)
  then have s': "s' = (if Suc n mod 101 = 0
      then (let item = counter_item (of_nat (1616 * (Suc n div 101))) (s_last u) (s_nqi u)
            in u\<lparr>s_nqi := item, qn := enqueue item (qn u), s_last := of_nat (1616 * (Suc n div 101))\<rparr>)
      else u)"
    using counter.send_test [OF h b'(1) length_readings last] room by (simp add: Let_def split: if_splits)
  show ?thesis
  proof (cases "Suc n mod 101 = 0")
    case False
    then show ?thesis using inv b' s' div room by (simp add: count_inv_def u_def on_line_def)
  next
    case True
    then show ?thesis
      using inv b' s' div room last
      by (simp add: count_inv_def u_def on_line_def Let_def send_items_def counter_item_def)
  qed
qed

lemma count_inv_work:
  assumes inv: "count_inv fd n j s" and run: "counter_round s = Inr s'" and room: "16 * n + 1616 < 4294967296"
  shows "\<exists>n'. count_inv fd n' j s'"
proof -
  obtain wqi qw' where p: "poll (qw s) = (wqi, qw')" by (meson surj_pair)
  have null: "null_item (qw s) = null_wqi" using inv by (simp add: count_inv_def)
  have qw': "null_item qw' = null_wqi" using p by (cases rule: poll_cases) (use null in simp_all)
  have same: "count_inv fd n j (s\<lparr>qw := qw'\<rparr>)" "count_inv fd n j (s\<lparr>qw := qw', s_sending := v\<rparr>)" for v
    using inv qw' by (auto simp: count_inv_def on_line_def)
  show ?thesis
  proof (cases "wqi_action wqi = wq_none \<and> s_sending s")
    case True
    then have "exec [\<lambda>s. ring_add (dummy_reading (c_count s)) s, assign (c_count_update (\<lambda>c. c + 1)),
        ring_send counter_item] (s\<lparr>qw := qw'\<rparr>) = Inr s'"
      using run by (simp add: counter_round_def sampler_round_def p when_s_def del: exec.simps)
    from count_inv_sample [OF same(1) room this] show ?thesis by blast
  next
    case False
    then have "s' = s\<lparr>qw := qw'\<rparr> \<or> (\<exists>v. s' = s\<lparr>qw := qw', s_sending := v\<rparr>)"
      using run by (cases "wqi_action wqi") (auto simp: counter_round_def sampler_round_def p assign_def when_s_def)
    with same show ?thesis by blast
  qed
qed

section \<open>The network thread\<close>

text \<open>Receiving and the base class leave the block queue, the ring and the wire alone.\<close>

lemma do_recv_same:
  fixes s :: "'a counter_scheme"
  assumes "do_recv E fd 1 s = Inr (result, bs, u)"
  shows "heap u = heap s \<and> s_last u = s_last s \<and> c_count u = c_count s"
  using assms
  by (auto simp: do_recv_def poll_pf_def set_nw_def touch_last_recv_def assign_def Let_def
      stderr_def fail_connection_def close_fd_def when_s_def split: prod.splits if_splits sum.splits)

lemma count_inv_recv:
  assumes inv: "count_inv fd n j s" and up: "stays_up E fd" and run: "counter_recv E fd junk s = Inr (ok, s')"
  shows "count_inv fd n j s'"
proof -
  obtain result bs u where d: "do_recv E fd 1 s = Inr (result, bs, u)"
    and s': "s' = (if result \<le> 0 then u else u\<lparr>qw := enqueue (junk\<lparr>wqi_action := start_stop (hd bs)\<rparr>) (qw u)\<rparr>)"
    using run by (auto simp: counter_recv_def push_qw_def split: sum.splits if_splits)
  have "on_line fd s" using inv by (simp add: count_inv_def)
  from do_recv_on_line [OF this up d] do_recv_same [OF d] have "count_inv fd n j u"
    by (intro count_inv_cong [OF inv]) (use inv in \<open>auto simp: count_inv_def\<close>)
  then show ?thesis using s' by (auto simp: count_inv_def on_line_def)
qed

lemma count_inv_base:
  assumes inv: "count_inv fd n j s" and "nqi_action item = nq_none \<or> nqi_action item = nq_send_ack"
    and "base_process_nqi E udp item s = Inr (ok, s')"
  shows "count_inv fd n j s'"
proof -
  obtain v tr where v: "get_time E (base_time s) (trace s) = (v, tr)" by (meson surj_pair)
  have "connected (nw s)" "timeout (nw s) = 0" using inv by (simp_all add: count_inv_def on_line_def)
  then have "s' = s \<or> s' = s\<lparr>trace := tr, qn := enqueue (item\<lparr>nqi_action := nq_recv\<rparr>) (qn s)\<rparr>"
    using assms(2,3) v by (auto simp: base_process_nqi_def when_s_def push_qn_def Let_def split: if_splits)
  then show ?thesis
    using inv get_time_on_line [OF v, of fd] by (auto simp: count_inv_def on_line_def send_items_def)
qed

lemma counter_send_shape:
  "counter_send E connfd item t = Inr (ok, v) \<Longrightarrow> v = t\<lparr>nw := (nw t)\<lparr>pf := pf (nw v)\<rparr>, trace := trace v\<rparr>"
  by (auto simp: counter_send_def send_header_def poll_pf_def set_nw_def stderr_def Let_def
      split: prod.splits if_splits sum.splits option.splits)

text \<open>The next block goes out.\<close>

lemma count_inv_send:
  assumes inv: "count_inv fd n j s" and up: "stays_up E fd" and ret: "missing_return E \<noteq> None"
    and qs: "q (qn s) = item # rest" "nqi_action item = nq_send" and lap: "unlapped s"
    and run: "counter_send E fd item (s\<lparr>qn := (qn s)\<lparr>q := rest\<rparr>\<rparr>) = Inr (ok, v)"
  shows "count_inv fd n (Suc j) v"
proof -
  let ?t = "s\<lparr>qn := (qn s)\<lparr>q := rest\<rparr>\<rparr>"
  obtain b where b: "heap s = [b]" "holds b (readings n)" "nbytes b = 65536" and n: "16 * n < 4294967296"
    and line: "on_line fd s"
    using inv by (auto simp: count_inv_def)
  have head: "map (\<lambda>y. (nqi_buff y, total_bytes y, nqi_nbytes y)) (item # send_items rest)
      = map (\<lambda>k. (Some 0, of_nat (1616 * k), 1616)) [j..<n div 101]"
    using inv qs by (simp add: count_inv_def send_items_def)
  then have j: "j < n div 101" by (cases "j < n div 101") simp_all
  with head have item: "nqi_buff item = Some 0" "total_bytes item = of_nat (1616 * j)" "nqi_nbytes item = 1616"
    and more: "map (\<lambda>y. (nqi_buff y, total_bytes y, nqi_nbytes y)) (send_items rest)
      = map (\<lambda>k. (Some 0, of_nat (1616 * k), 1616)) [Suc j..<n div 101]"
    by (simp_all add: upt_conv_Cons)
  have "101 * Suc j \<le> 101 * (n div 101)" using j by (intro mult_le_mono2) simp
  also have "\<dots> \<le> n" by simp
  finally have full: "101 * j + 101 \<le> n" by simp
  then have total: "unat (total_bytes item) = 1616 * j"
    using n unfolding item(2) by (intro unat_of_nat_small) simp
  have "unat (bytes_written b) = 16 * n" using ring.count_law [OF b(2)] n by simp
  then have "16 * n \<le> 1616 * j + 65536"
    using lap qs b(1,3) item(1) total by (auto simp: unlapped_def)
  then have s: "nqi_buff item = Some 0" "0 < length (heap ?t)" "holds (heap ?t ! 0) (readings n)"
    "unat (total_bytes item) + unat (nqi_nbytes item) \<le> length (readings n)" "length (readings n) < 4294967296"
    "length (readings n) \<le> unat (total_bytes item) + unat (nbytes (heap ?t ! 0))"
    using b item n full total by simp_all
  have "takes_all E fd" "conn_fd (nw ?t) = fd" using up line by (simp_all add: stays_up_def on_line_def conn_fd_def)
  from counter_send_writes [OF ret this s] run
  have "fd_bytes (trace v) fd = fd_bytes (trace s) fd @ frame (2, slice (1616 * j) 1616 (readings n))"
    using full by (auto simp: total item(3) frame_def)
  then have "fd_bytes (trace v) fd = concat (map (\<lambda>k. frame (2, block k)) [0..<Suc j])"
    using inv full by (simp add: slice_readings count_inv_def)
  moreover obtain x tr where "v = ?t\<lparr>nw := (nw ?t)\<lparr>pf := x\<rparr>, trace := tr\<rparr>"
    using counter_send_shape [OF run] by blast
  ultimately show ?thesis using inv j more by (simp add: count_inv_def on_line_def)
qed

lemma count_inv_net:
  assumes inv: "count_inv fd n j s" and "stays_up E fd" and "missing_return E \<noteq> None" and "unlapped s"
    and run: "network_round (counter_process_nqi E fd udp junk) s = Inr s'"
  shows "\<exists>j'. count_inv fd n j' s'"
proof -
  obtain item qn' where p: "poll (qn s) = (item, qn')" by (meson surj_pair)
  define t where "t = s\<lparr>qn := qn'\<rparr>"
  obtain ok u where r: "counter_process_nqi E fd udp junk item t = Inr (ok, u)"
    and s': "s' = (if ok then u else u\<lparr>trace := trace u @ [Stderr ''Could not process request on network thread'']\<rparr>)"
    using run by (auto simp: network_round_def p t_def stderr_def split: sum.splits if_splits)
  have null: "null_item (qn s) = null_nqi" using inv by (simp add: count_inv_def)
  have t: "nqi_action item \<noteq> nq_send \<Longrightarrow> count_inv fd n j t"
    using p by (cases rule: poll_cases) (use inv in \<open>auto simp: count_inv_def t_def send_items_def on_line_def\<close>)
  have "\<exists>j'. count_inv fd n j' u"
  proof (cases "nqi_action item")
    case nq_send
    obtain rest where "q (qn s) = item # rest" "qn' = (qn s)\<lparr>q := rest\<rparr>"
      using p by (cases rule: poll_cases) (use nq_send null in \<open>auto simp: null_nqi_def\<close>)
    then show ?thesis
      using count_inv_send [OF inv assms(2,3) _ nq_send assms(4)] r nq_send
      by (fastforce simp: counter_process_nqi_def t_def)
  next
    case nq_recv
    then show ?thesis using t r count_inv_recv [OF _ assms(2)] by (fastforce simp: counter_process_nqi_def)
  next
    case nq_none
    then show ?thesis using t r count_inv_base [of fd n j t item E udp ok u] by (auto simp: counter_process_nqi_def)
  next
    case nq_send_ack
    then show ?thesis using t r count_inv_base [of fd n j t item E udp ok u] by (auto simp: counter_process_nqi_def)
  qed
  then show ?thesis using s' by (auto simp: count_inv_def on_line_def fd_bytes_one)
qed

section \<open>The run\<close>

lemma count_inv_steps:
  assumes "(counter_on_time E fd udp)\<^sup>*\<^sup>* s s'" and "count_inv fd n j s" and "stays_up E fd" and "missing_return E \<noteq> None"
  shows "\<exists>n' j'. count_inv fd n' j' s'"
  using assms(1)
proof (induction rule: rtranclp_induct)
  case base
  show ?case using assms(2) by blast
next
  case (step t u)
  then obtain n j where inv: "count_inv fd n j t" by blast
  have "unat (bytes_written (heap t ! 0)) = 16 * n"
    using inv ring.count_law [of _ "readings n"] by (auto simp: count_inv_def)
  with step(2) have ok: "counter_step E fd udp t u" "unlapped t" "16 * n + 1616 < 4294967296"
    by (simp_all add: counter_on_time_def)
  from ok(1) show ?case
  proof (rule counter_stepE)
    assume "counter_round t = Inr u"
    from count_inv_work [OF inv this ok(3)] show ?thesis by blast
  next
    fix junk assume "network_round (counter_process_nqi E fd udp junk) t = Inr u"
    from count_inv_net [OF inv assms(3,4) ok(2) this] show ?thesis by blast
  qed
qed

lemma count_inv_start:
  assumes "on_line fd s" and "null_item (qn s) = null_nqi" and "null_item (qw s) = null_wqi"
    and "heap s = [circular_buffer_new 65536 junk]" and "c_count s = 0" and "s_last s = 0"
    and "send_items (q (qn s)) = []" and "fd_bytes (trace s) fd = []"
  shows "count_inv fd 0 0 s"
  using assms holds_new [of 65536 junk] by (simp add: count_inv_def readings_def circular_buffer_new_def)

text \<open>What \<open>main\<close> leaves is such a start, once a client is connected.\<close>

lemma counter_main_start:
  "heap (counter_main E m junk nqi tr) = [circular_buffer_new 65536 junk]"
  "null_item (qn (counter_main E m junk nqi tr)) = null_nqi" "qw (counter_main E m junk nqi tr) = safe_queue_new null_wqi"
  "s_last (counter_main E m junk nqi tr) = 0" "c_count (counter_main E m junk nqi tr) = 0"
  by (auto simp: counter_main_def split: prod.splits)


text \<open>A client that sends the command to start; the counter takes it, and then a reading.\<close>

definition count_env :: env where
  "count_env = sample_env\<lparr>env_read := \<lambda>tr fd n. Some [48], env_write := \<lambda>tr fd bs. Some (length bs)\<rparr>"

definition sample_counting :: counter where
  "sample_counting = (counter_main count_env sample_network (\<lambda>i. 0) null_nqi [])
     \<lparr>qn := enqueue (null_nqi\<lparr>nqi_action := nq_recv\<rparr>) (safe_queue_new null_nqi), nw := sample_network, trace := []\<rparr>"


end
