(* ===== verification/Spec2Isabelle.thy ===== *)
theory Spec2Isabelle
  imports MainProgram Telemetry SharedRing EchoServer Samplers SensorReading Pulses Rwrite Wiring Deadline Offline Threads UdpTest RingTests Counting
begin

text \<open>
  A model of the rocket engine controller, with the theorems that make it correct.

  \<^bold>\<open>The program.\<close> A Raspberry Pi drives the valves and the igniter of a test engine, samples ten sensors
  over SPI and streams the readings to one client over TCP, which sends back commands of one byte.
  Two threads do this. The \<open>network thread\<close> (\<open>server/network_worker\<close>, \<open>final/main_network_worker\<close>)
  takes items from the queue \<open>qn\<close>: it accepts the client, receives commands and puts them into the
  queue \<open>qw\<close>, and sends frames of sensor data. The \<open>worker thread\<close> (\<open>final/main_worker\<close>) takes items from
  \<open>qw\<close> and hands them to the visitor of the engine (\<open>visitor/luna_visitor\<close> or \<open>titan_visitor\<close>, both derived
  from \<open>worker_visitor\<close>): a command drives pins; an idle round queues every item of the table of timed
  items that is due; a timed item is either a sensor, which is read into its ring, or a stage of a
  burn. An ignition arms the stage \<open>ign2\<close>, that opens the main valve and arms \<open>ign3\<close>, and that ends the
  burn; on Luna \<open>gitvc\<close> pulses another valve meanwhile.

  \<^bold>\<open>Theories and sources\<close> (paths under \<open>src/src\<close>, of tests under \<open>src\<close>; definitions keep the names of the code).
  \<^item> \<open>Prelude\<close>: machine types, statements that may stop early (\<open>exec\<close>, \<open>when_s\<close>, \<open>if_s\<close>, \<open>assign\<close>), the two
    predicates the handlers are judged by (\<open>ensures\<close>, \<open>preserves\<close>) with their rules, arrays, words.
  \<^item> \<open>Platform\<close>: calls to the outside as events of a trace, their answers as a parameter \<open>env\<close>; \<open>error\<close>.
  \<^item> \<open>CircularBuffer\<close>: \<open>util/circular_buffer\<close>; contract \<open>byte_stream\<close>. \<open>SharedRing\<close>: the same ring
    written by one thread while the other sends it, one system call at a time.
  \<^item> \<open>Timestamps\<close>, \<open>Logger\<close>: \<open>util/timestamps\<close>, \<open>util/logger\<close>. \<open>Listener\<close>: \<open>util/listener\<close>.
  \<^item> \<open>SafeQueue\<close>: \<open>server/safe_queue.hpp\<close>; contract \<open>fifo\<close>. \<open>QueueItems\<close>: \<open>server/queue_items.hpp\<close>.
  \<^item> \<open>AdcBlock\<close>: \<open>adc/lib/adc_block\<close>, \<open>final/pins.hpp\<close>. \<open>AdcChip\<close>: the driver against the protocol of the
    MCP3208; \<open>spi/spi.cpp\<close>, \<open>adc/adc_test.cpp\<close>. \<open>Initialization\<close>: \<open>final/initialization\<close>.
  \<^item> \<open>TimedItems\<close>: \<open>final/timed_item\<close>, \<open>final/timed_item_list\<close>; contract \<open>item_table\<close>.
    \<open>BuffLogger\<close>: \<open>final/main_buff_logger\<close>.
  \<^item> \<open>Process\<close>: the state both threads share, and the members of the network worker; the objects of the
    visitors extend this record as the classes extend each other.
  \<^item> \<open>WorkerVisitor\<close>, \<open>SensorVisit\<close>: \<open>visitor/worker_visitor\<close>. \<open>SensorReading\<close>: a reading from the chip to the ring.
    \<open>LunaVisitor\<close>, \<open>LunaBurn\<close>: \<open>visitor/luna_visitor\<close>.
    \<open>TitanVisitor\<close>, \<open>TitanBurn\<close>: \<open>visitor/titan_visitor\<close>. \<open>Stages\<close>: the items of a burn in the table.
  \<^item> \<open>MainWorker\<close>: \<open>final/main_worker\<close>; contract \<open>engine\<close>, which both visitors are shown to keep. \<open>Rounds\<close>:
    an item that is due is visited within bounded rounds; contract \<open>scheduled_engine\<close>, kept by both too.
  \<^item> \<open>NetworkWorker\<close>, \<open>Network\<close>, \<open>OnLine\<close>: \<open>server/network_worker\<close>, \<open>final/main_network_worker\<close>.
  \<^item> \<open>System\<close>: the two threads interleaved, and how they stop. \<open>Shutdown\<close>: the exit handler against the worker that still
    runs; contract \<open>exit_engine\<close>. \<open>Pulses\<close>: GITVC over a whole run. \<open>Telemetry\<close>: what then reaches the client; contract
    \<open>telemetry_engine\<close>. \<open>Commands\<close>: what of the client reaches the visitor; contract \<open>command_engine\<close>.
    \<open>Views\<close>: what a visit leaves alone, for any part of the state; contracts \<open>unchanged_view\<close>,
    \<open>luna_unchanged_view\<close>. \<open>Wiring\<close>: what never changes; contract \<open>wired_engine\<close>.
    \<open>Timing\<close>: when the ignition stage fires. \<open>Backlog\<close>: what a full work queue does to the timed items.
    \<open>Deadline\<close>: how long a burn lasts, in time. \<open>Offline\<close>: a flag that no one initialises.
    \<open>MainProgram\<close>: \<open>final/ini_config\<close>, \<open>final/main.cpp\<close>.
  \<^item> \<open>BurnMachine\<close>: what a burn is without queues, threads and tables, as a machine with a few outputs and times for each
    engine; contract \<open>burn_account\<close>. \<open>BurnRefinement\<close>: every run of the program from \<open>main\<close> on is a run of the machine;
    contract \<open>burn_engine\<close>, kept by both engines.
  \<^item> \<open>Threads\<close>: \<open>server/worker.hpp\<close>, the constructors and threads of the workers derived from it (\<open>final/main_worker.hpp\<close>,
    \<open>final/main_network_worker.hpp\<close>, and those of \<open>echo_server\<close> and \<open>counter\<close>), \<open>visitor/network_visitor.hpp\<close>.
  \<^item> \<open>EchoServer\<close>: \<open>echo_server\<close>, another program on the same network worker. \<open>Samplers\<close>: \<open>counter\<close>
    and \<open>adc/threaded_adc_test.cpp\<close>; contract \<open>paced_sampler\<close>. \<open>Counting\<close>: the counter's two threads
    interleaved. \<open>Rwrite\<close>: the repeated write of \<open>server/network_worker\<close>, which no program calls.
    \<open>UdpTest\<close>: \<open>udp_test\<close>, the socket experiment.
  \<^item> \<open>RingTests\<close>: \<open>test/circular_buffer\<close>, \<open>test/threaded_circular_buffer\<close> and \<open>test/mocks\<close>. The unit tests of
    the ring are run on the model: none of their \<open>REQUIRE\<close>s fails.

  \<^bold>\<open>How state and effects correspond.\<close> A class is a record, a method a function from a state to
  \<open>error + state\<close>; \<open>Undefined\<close> is undefined behaviour (bad memory access, division by zero, a missing
  return value, signed overflow), \<open>Out_of_range\<close> the exception of \<open>at\<close>, \<open>Exit\<close> a call of \<open>exit\<close> with the
  trace up to it, \<open>Killed\<close> the death by \<open>SIGPIPE\<close> with the trace up to it: a failing write returns -1 and the program goes on,
  or it is where the process dies. \<open>size_t\<close> has 32 bits and time stamps 64, as words that wrap; \<open>int\<close> is a number with its
  range checked where it is computed with. A pointer to a ring is an address of a heap of rings, a pointer
  into the table an index. Floating point is exact arithmetic followed by a rounding parameter.

  \<^bold>\<open>What the lemmas show.\<close> For each component: its invariant (\<open>cb_wf\<close>, \<open>holds\<close>, \<open>til_wf\<close>, \<open>vis_wf\<close>, \<open>luna_wf\<close>,
  \<open>net_ok\<close>), that every operation keeps it without an error (rules \<open>keeps\<close>) and what it leaves alone (rules
  \<open>untouched\<close>), and its operations in closed form, error branches included. For the threads: no number of
  rounds meets undefined behaviour or an exception; commands arrive once and in order; a burn starts,
  ends, and is ended within a bounded number of rounds; the work queue runs empty within a bounded number of
  rounds; the main valve does not open before the pre-ignition time is over, and a burn is over a bounded time
  after its configured length; the pressure shutoff acts exactly when it must.
  For the program: from \<open>main\<close> on and under every interleaving it refines the burn machine of its engine, so that nothing
  opens or burns that the client has not asked for and no burn is without its end; it stops in three ways only, by \<open>exit(1)\<close>,
  by \<open>SIGPIPE\<close>, or by the missing return value of \<open>send_header\<close>, and after \<open>exit\<close> the pins end in the safe state unless the
  worker still visits an item that opens something; and every sensor's readings reach a client that stays and takes every
  byte in order and without gap, as long as no ring is lapped and no counter wraps, as the client's commands reach the visitor.
  Several theorems state defects: a counter that wraps out of step with its ring, a stage that survives an
  abort, a valve that is open when the process is gone, an unknown byte that skips the pre-ignition time, a second ignition that opens the main valve unlit, commands
  that keep a burn from its end, pulses that never resume, a limit that can never
  apply, a connection that is never accepted, or never again.

  \<^bold>\<open>Loops and bounds.\<close> The loops of the rings terminate by measures on the bytes left. The endless loops
  are a number of rounds, quantified over, or a step relation; \<open>rwrite\<close> may not return, which is \<open>None\<close>.
  A burn is bounded by rounds: at most 13 items are in the table, so 13 rounds work off what an idle round
  queued. An item of the queue costs at most 15 rounds: a command's own, one for the \<open>wq_none\<close> item that an unknown one
  becomes, and 13 for the items that this one queues. In time, a burn that is due waits for at most 13 items of the table, an
  idle round and 13 items more, 28 rounds with the one that opened the valve.

  \<^bold>\<open>Parameters.\<close> \<open>env\<close> answers every call to the bcm2835 library, the clock, files and sockets, and may
  depend on the whole history; the Boost parser \<open>po\<close>; what C++ leaves indeterminate (\<open>junk\<close>): fresh memory,
  unset members and locals; the value of a call without a return statement (\<open>missing_return\<close>), \<open>None\<close> where the compiler makes such a call
  undefined behaviour in fact; theorems about what the client gets assume that it is not. Hypotheses
  state documented behaviour only: \<open>takes_all\<close> and \<open>stays_up\<close> describe a healthy client, \<open>logs_apart\<close> that
  opening a file does not return the descriptor of the open connection, \<open>unreadable\<close> that reading from descriptor -1
  fails, \<open>mcp3208\<close> the chip's data sheet.

  \<^bold>\<open>Concurrency.\<close> A round of a thread is one step. The queues lock, so their operations are atomic; the
  flag \<open>connected\<close> is read once a round by the worker; the rings are written without a lock, and \<open>SharedRing\<close>
  splits a send into its system calls to show that appending between them does no harm while nothing that
  is still to be sent gets overwritten. \<open>connected\<close> is no atomic and never initialised: its reads are a data race and, at
  the start, of an indeterminate value, which the model takes for an arbitrary \<open>bool\<close>. While the process exits, the calls of
  the handler and the rounds of the worker interleave.

  \<^bold>\<open>Not modelled.\<close> Output to \<open>std::cout\<close>, \<open>printf\<close> and \<open>perror\<close>, \<open>usleep\<close>, and the handlers' calls of the text
  logger, which decide nothing (the logger itself is modelled); destructors of rings,
  files and visitors, and those of static objects, which run at \<open>exit\<close> too and which the worker may still use; \<open>prepare_header\<close>,
  which is declared and never defined; and what \<open>udp_test\<close> prints. The network
  worker of the counter names a member that no longer exists and does not compile; it is modelled with that
  member as an argument.
\<close>

end
